(* ===== verification/MLKV_Prelude.thy ===== *)
theory MLKV_Prelude
  imports Main "HOL-Library.Word"
begin

text \<open>
  Shared vocabulary of the development: the machine types of the code, byte buffers with positioned
  reads and writes, and the list facts the component theories use.

  A buffer (GPU memory, a file, a cache slot) is a list of bytes. \<open>write_at\<close> is a copy into a
  buffer at an offset (\<^verbatim>\<open>memcpy\<close>, \<^verbatim>\<open>cudaMemcpy\<close>, \<^verbatim>\<open>pwrite\<close>),
  \<open>read_at\<close> the copy out of it. Sizes and offsets (\<^verbatim>\<open>size_t\<close>) are natural numbers;
  values whose encoding or wrap-around matters keep their width as words.
\<close>

unbundle bit_operations_syntax

section \<open>Machine types\<close>

type_synonym byte = "8 word"
type_synonym u32 = "32 word"
type_synonym u64 = "64 word"
type_synonym bytes = "byte list"

named_theorems buffer_simps \<open>reads and writes of buffers\<close>
named_theorems coding_simps \<open>encoders, decoders and their lengths\<close>
named_theorems wal_simps \<open>the write-ahead log: framing and reading\<close>

section \<open>Positioned reads and writes\<close>

definition write_at :: "'a list \<Rightarrow> nat \<Rightarrow> 'a list \<Rightarrow> 'a list" where
  "write_at buf off xs = take off buf @ xs @ drop (off + length xs) buf"

definition read_at :: "'a list \<Rightarrow> nat \<Rightarrow> nat \<Rightarrow> 'a list" where
  "read_at buf off n = take n (drop off buf)"

lemma length_write_at [simp]:
  "off + length xs \<le> length buf \<Longrightarrow> length (write_at buf off xs) = length buf"
  by (simp add: write_at_def)

lemma write_at_Nil [simp]: "write_at buf off [] = buf"
  by (simp add: write_at_def)

lemma write_at_end [simp]: "write_at buf (length buf) xs = buf @ xs"
  by (simp add: write_at_def)

lemma nth_write_at:
  assumes "off + length xs \<le> length buf" and "p < length buf"
  shows "write_at buf off xs ! p =
           (if off \<le> p \<and> p < off + length xs then xs ! (p - off) else buf ! p)"
  using assms by (auto simp: write_at_def nth_append)

lemma length_read_at [simp]: "length (read_at buf off n) = min n (length buf - off)"
  by (simp add: read_at_def)

lemma nth_read_at: "i < n \<Longrightarrow> off + i < length buf \<Longrightarrow> read_at buf off n ! i = buf ! (off + i)"
  by (simp add: read_at_def)

lemma read_at_0 [simp]: "read_at buf off 0 = []"
  by (simp add: read_at_def)

lemma read_at_whole [simp]: "n = length buf \<Longrightarrow> read_at buf 0 n = buf"
  by (simp add: read_at_def)

lemma read_at_write_at_same [buffer_simps]:
  "off \<le> length buf \<Longrightarrow> n = length xs \<Longrightarrow> read_at (write_at buf off xs) off n = xs"
  by (simp add: read_at_def write_at_def)

lemma read_at_append_right [buffer_simps]:
  "off = length xs \<Longrightarrow> read_at (xs @ ys) off n = take n ys"
  by (simp add: read_at_def)

lemma read_at_add:
  "read_at buf off (m + n) = read_at buf off m @ read_at buf (off + m) n"
  by (simp add: read_at_def take_add drop_drop add.commute)

lemma read_at_read_at:
  "m + n \<le> k \<Longrightarrow> read_at (read_at buf off k) m n = read_at buf (off + m) n"
  by (simp add: read_at_def drop_take min_def add.commute)

lemma read_at_prefix:
  "off + n \<le> length xs \<Longrightarrow> read_at (xs @ ys) off n = read_at xs off n"
  by (simp add: read_at_def)

lemma read_at_write_at_disjoint:
  assumes "off + length xs \<le> length buf" and "a + n \<le> off \<or> off + length xs \<le> a"
  shows "read_at (write_at buf off xs) a n = read_at buf a n"
proof (rule nth_equalityI)
  show "length (read_at (write_at buf off xs) a n) = length (read_at buf a n)"
    using assms(1) by simp
next
  fix i assume "i < length (read_at (write_at buf off xs) a n)"
  then have "i < n" and "a + i < length buf"
    using assms(1) by auto
  then show "read_at (write_at buf off xs) a n ! i = read_at buf a n ! i"
    using assms by (auto simp: nth_read_at nth_write_at)
qed

text \<open>Consecutive writes are one write, and a write hides an earlier one it covers.\<close>

lemma write_at_consecutive:
  assumes "q = p + length xs" and "q + length ys \<le> length buf"
  shows "write_at (write_at buf p xs) q ys = write_at buf p (xs @ ys)"
  using assms by (simp add: write_at_def ac_simps)

lemma write_at_covered:
  assumes "length xs \<le> length ys" and "p + length ys \<le> length buf"
  shows "write_at (write_at buf p xs) p ys = write_at buf p ys"
  using assms by (simp add: write_at_def ac_simps)

section \<open>Results\<close>

text \<open>
  A C++ function ends by returning, by throwing an exception, by ending the process
  (\<^verbatim>\<open>std::exit\<close>), or outside the language's rules: an \<^verbatim>\<open>assert\<close> that fails, a null
  pointer that is dereferenced, an access out of bounds. The other endings are values of their own, so
  that a property can exclude them.
\<close>

datatype 'a outcome =
    Returns 'a
  | Throws string
  | Exits string
  | Undefined string

fun bind_outcome :: "'a outcome \<Rightarrow> ('a \<Rightarrow> 'b outcome) \<Rightarrow> 'b outcome" where
  "bind_outcome (Returns x) f = f x"
| "bind_outcome (Throws e) f = Throws e"
| "bind_outcome (Exits e) f = Exits e"
| "bind_outcome (Undefined e) f = Undefined e"

lemma bind_outcome_Returns_iff:
  "bind_outcome r f = Returns y \<longleftrightarrow> (\<exists>x. r = Returns x \<and> f x = Returns y)"
  by (cases r) auto

text \<open>A call for each element of a list, up to the first that does not return.\<close>

fun map_outcome :: "('a \<Rightarrow> 'b outcome) \<Rightarrow> 'a list \<Rightarrow> 'b list outcome" where
  "map_outcome f [] = Returns []"
| "map_outcome f (x # xs) = bind_outcome (f x) (\<lambda>y. bind_outcome (map_outcome f xs) (\<lambda>ys. Returns (y # ys)))"

lemma map_outcome_Returns:
  "(\<And>x. x \<in> set xs \<Longrightarrow> f x = Returns (g x)) \<Longrightarrow> map_outcome f xs = Returns (map g xs)"
  by (induction xs) auto

lemma map_outcome_obtain:
  assumes "\<forall>x \<in> set xs. \<exists>y. f x = Returns y \<and> P x y"
  obtains ys where "map_outcome f xs = Returns ys" "list_all2 P xs ys"
proof -
  have "\<exists>ys. map_outcome f xs = Returns ys \<and> list_all2 P xs ys"
    using assms by (induction xs) fastforce+
  then show thesis using that by blast
qed

text \<open>The same for runs with a loop that may not end, where \<open>None\<close> is a run that does not return.\<close>

definition bind_run :: "'a outcome option \<Rightarrow> ('a \<Rightarrow> 'b outcome option) \<Rightarrow> 'b outcome option" where
  "bind_run m k =
     (case m of
        None \<Rightarrow> None
      | Some (Returns x) \<Rightarrow> k x
      | Some (Throws e) \<Rightarrow> Some (Throws e)
      | Some (Exits e) \<Rightarrow> Some (Exits e)
      | Some (Undefined e) \<Rightarrow> Some (Undefined e))"

fun map_run :: "('a \<Rightarrow> 'b outcome option) \<Rightarrow> 'a list \<Rightarrow> 'b list outcome option" where
  "map_run f [] = Some (Returns [])"
| "map_run f (x # xs) = bind_run (f x) (\<lambda>y. bind_run (map_run f xs) (\<lambda>ys. Some (Returns (y # ys))))"

lemma bind_run_simps [simp]:
  "bind_run (Some (Returns x)) k = k x" "bind_run (Some (Undefined m)) k = Some (Undefined m)"
  "bind_run (Some (Throws m)) k = Some (Throws m)" "bind_run None k = None"
  by (simp_all add: bind_run_def)

lemma map_run_obtain:
  assumes "\<forall>x \<in> set xs. \<exists>y. f x = Some (Returns y) \<and> P x y"
  obtains ys where "map_run f xs = Some (Returns ys)" "list_all2 P xs ys"
proof -
  have "\<exists>ys. map_run f xs = Some (Returns ys) \<and> list_all2 P xs ys"
    using assms by (induction xs) fastforce+
  then show thesis using that by blast
qed

lemma bind_run_ReturnsE:
  assumes "bind_run m k = Some (Returns y)"
  obtains x where "m = Some (Returns x)" "k x = Some (Returns y)"
  using assms by (auto simp: bind_run_def split: option.split_asm outcome.split_asm)

section \<open>Lists\<close>

lemma take_concat_prefix:
  "i < length xss \<Longrightarrow> concat (take (Suc i) xss) = concat (take i xss) @ xss ! i"
  by (simp add: take_Suc_conv_app_nth)

lemma concat_split_nth:
  "i < length xss \<Longrightarrow> concat xss = concat (take i xss) @ xss ! i @ concat (drop (Suc i) xss)"
  by (metis append.assoc append_take_drop_id concat_append take_concat_prefix)

lemma read_at_concat:
  assumes "i < length xss"
  shows "read_at (concat xss) (length (concat (take i xss))) (length (xss ! i)) = xss ! i"
  using assms concat_split_nth [OF assms] by (simp add: read_at_def)

lemma length_concat_take_le: "length (concat (take i xss)) \<le> length (concat xss)"
  by (metis append_take_drop_id concat_append length_append le_add1)

lemma concat_position:
  assumes "p < length (concat xss)"
  obtains i where "i < length xss"
    and "length (concat (take i xss)) \<le> p"
    and "p < length (concat (take i xss)) + length (xss ! i)"
  using assms
proof (induction xss arbitrary: p thesis)
  case Nil
  then show ?case by simp
next
  case (Cons xs xss)
  show ?case
  proof (cases "p < length xs")
    case True
    then show ?thesis using Cons.prems(1) [of 0] by simp
  next
    case False
    with Cons.prems(2) have "p - length xs < length (concat xss)" by simp
    then obtain i where "i < length xss" "length (concat (take i xss)) \<le> p - length xs"
      "p - length xs < length (concat (take i xss)) + length (xss ! i)"
      using Cons.IH by blast
    then show ?thesis using False Cons.prems(1) [of "Suc i"] by simp
  qed
qed

end
