(* ===== verification/MLKV_Config.thy ===== *)
theory MLKV_Config
  imports MLKV_Prelude
begin

text \<open>
  The shared types of the library: status codes and options (\<^verbatim>\<open>include/utils.cuh\<close>), the storage
  configuration (\<^verbatim>\<open>include/storage_config.h\<close>), and the views of device memory that carry block
  data from the reader to the iterator (\<^verbatim>\<open>gds/format.cuh\<close>).

  A device pointer is a region (the allocation it came from) and an offset into it; two pointers alias
  exactly when they name the same region.
\<close>

section \<open>Status codes and options\<close>

datatype OperationResult =
    SUCCESS
  | KEY_NOT_FOUND
  | STORAGE_FULL
  | GPU_ALL_FOUND
  | GPU_EVICTED
  | CUDA_ERROR
  | ROCKSDB_ERROR
  | INVALID_PARAMETER

datatype IOStatusCode =
    IO_SUCCESS
  | FILE_NOT_FOUND
  | FILE_ALREADY_EXISTS
  | IO_INVALID_PARAMETER
  | IO_CUDA_ERROR
  | IO_ERROR
  | USAGE_ERROR
  | UNSUPPORTED_ERROR

record IOStatus =
  io_code :: IOStatusCode
  io_message :: string

definition io_OK :: IOStatus where "io_OK = \<lparr>io_code = IO_SUCCESS, io_message = []\<rparr>"
definition io_InvalidParam :: "string \<Rightarrow> IOStatus" where
  "io_InvalidParam msg = \<lparr>io_code = IO_INVALID_PARAMETER, io_message = msg\<rparr>"
definition io_CudaError :: "string \<Rightarrow> IOStatus" where
  "io_CudaError msg = \<lparr>io_code = IO_CUDA_ERROR, io_message = msg\<rparr>"
definition io_IOError :: "string \<Rightarrow> IOStatus" where
  "io_IOError msg = \<lparr>io_code = IO_ERROR, io_message = msg\<rparr>"
definition io_UsageError :: "string \<Rightarrow> IOStatus" where
  "io_UsageError msg = \<lparr>io_code = USAGE_ERROR, io_message = msg\<rparr>"
definition io_UnsupportedError :: "string \<Rightarrow> IOStatus" where
  "io_UnsupportedError msg = \<lparr>io_code = UNSUPPORTED_ERROR, io_message = msg\<rparr>"

definition io_ok :: "IOStatus \<Rightarrow> bool" where
  "io_ok s \<longleftrightarrow> io_code s = IO_SUCCESS"

lemma io_ok_simps [simp]:
  "io_ok io_OK" "\<not> io_ok (io_InvalidParam m)" "\<not> io_ok (io_CudaError m)" "\<not> io_ok (io_IOError m)"
  "\<not> io_ok (io_UsageError m)" "\<not> io_ok (io_UnsupportedError m)"
  by (simp_all add: io_ok_def io_OK_def io_InvalidParam_def io_CudaError_def io_IOError_def
      io_UsageError_def io_UnsupportedError_def)

lemma io_ok_distinct [simp]:
  "io_OK \<noteq> io_InvalidParam m" "io_OK \<noteq> io_CudaError m" "io_OK \<noteq> io_IOError m"
  "io_OK \<noteq> io_UsageError m" "io_OK \<noteq> io_UnsupportedError m"
  by (metis io_ok_simps)+

text \<open>A call sequence that stops at the first status that is not OK ends with OK only if every call did.\<close>

lemma bind_status_ok:
  assumes "bind_outcome r (\<lambda>(s, w). if \<not> io_ok s then Returns (g s w) else f s w) = Returns y"
    and "\<And>s w. g s w = y \<Longrightarrow> io_ok s"
  obtains s w where "r = Returns (s, w)" "io_ok s" "f s w = Returns y"
  using assms by (cases r) (auto split: if_splits)

record GDSOptions =
  DefaultGPUBufferSize :: nat
  GDSAlignment :: nat
  EnableGPUCache :: bool
  GPUCacheBlockSize :: nat
  GPUCacheMaxBlocks :: nat
  EnableCachePrefetch :: bool
  MinReadSizeForCache :: nat

definition default_GDSOptions :: GDSOptions where
  "default_GDSOptions =
     \<lparr>DefaultGPUBufferSize = 64 * 1024 * 1024, GDSAlignment = 4096, EnableGPUCache = True,
      GPUCacheBlockSize = 8 * 4096, GPUCacheMaxBlocks = 500000, EnableCachePrefetch = True,
      MinReadSizeForCache = 0\<rparr>"

datatype StorageLevel = HBM | DRAM | DISK

record StorageConfig =
  hkv_init_capacity :: nat
  hkv_max_capacity :: nat
  cfg_dim :: nat
  max_hbm_for_vectors_gb :: nat
  hkv_io_by_cpu :: bool
  cfg_gpu_id :: int
  cfg_max_batch_size :: nat
  cfg_enable_gds_log :: bool
  cfg_enable_gds_get_from_sst :: bool
  cfg_rocksdb_path :: string
  cfg_create_if_missing :: bool
  cfg_disableWAL :: bool
  cfg_force_skip_memtable :: bool
  cfg_rocksdb_use_direct_reads :: bool

definition default_StorageConfig :: StorageConfig where
  "default_StorageConfig =
     \<lparr>hkv_init_capacity = 64 * 1024 * 1024, hkv_max_capacity = 64 * 1024 * 1024, cfg_dim = 5,
      max_hbm_for_vectors_gb = 0, hkv_io_by_cpu = False, cfg_gpu_id = 0, cfg_max_batch_size = 1048576,
      cfg_enable_gds_log = False, cfg_enable_gds_get_from_sst = False,
      cfg_rocksdb_path = ''/tmp/mlkv_plus_rocksdb'', cfg_create_if_missing = True, cfg_disableWAL = False,
      cfg_force_skip_memtable = False, cfg_rocksdb_use_direct_reads = False\<rparr>"

section \<open>Checked CUDA calls\<close>

text \<open>
  \<^verbatim>\<open>MLKV_CUDA_CHECK\<close>: a call that fails throws. \<open>cuda\<close> says for a call, by name, whether it succeeds.
\<close>

definition MLKV_CUDA_CHECK :: "(string \<Rightarrow> bool) \<Rightarrow> string \<Rightarrow> 'a outcome \<Rightarrow> 'a outcome" where
  "MLKV_CUDA_CHECK cuda call rest = (if cuda call then rest else Throws (''CUDA error: '' @ call))"

lemma MLKV_CUDA_CHECK_Returns_iff [simp]:
  "MLKV_CUDA_CHECK cuda call rest = Returns r \<longleftrightarrow> cuda call \<and> rest = Returns r"
  by (simp add: MLKV_CUDA_CHECK_def)

section \<open>Device memory views\<close>

datatype dev_ptr = NullPtr | DevPtr nat nat

record DeviceSlice =
  slice_data :: dev_ptr
  slice_size :: nat

definition slice_clear :: "DeviceSlice \<Rightarrow> DeviceSlice" where
  "slice_clear s = s\<lparr>slice_data := NullPtr, slice_size := 0\<rparr>"

definition slice_empty :: "DeviceSlice \<Rightarrow> bool" where
  "slice_empty s \<longleftrightarrow> slice_size s = 0"

record DeviceBlockContents =
  dbc_data :: DeviceSlice
  allocation :: dev_ptr
  alloc_size :: nat

definition dbc_default :: DeviceBlockContents where
  "dbc_default = \<lparr>dbc_data = \<lparr>slice_data = NullPtr, slice_size = 0\<rparr>, allocation = NullPtr, alloc_size = 0\<rparr>"

definition dbc_ref :: "DeviceSlice \<Rightarrow> DeviceBlockContents" where
  "dbc_ref d = \<lparr>dbc_data = d, allocation = NullPtr, alloc_size = 0\<rparr>"

definition dbc_own :: "dev_ptr \<Rightarrow> nat \<Rightarrow> DeviceBlockContents" where
  "dbc_own d n = \<lparr>dbc_data = \<lparr>slice_data = d, slice_size = n\<rparr>, allocation = d, alloc_size = n\<rparr>"

definition dbc_clear :: "DeviceBlockContents \<Rightarrow> DeviceBlockContents" where
  "dbc_clear c = c\<lparr>dbc_data := slice_clear (dbc_data c), allocation := NullPtr, alloc_size := 0\<rparr>"

text \<open>Move construction and move assignment return the new object and what is left of the old one.\<close>

definition dbc_move :: "DeviceBlockContents \<Rightarrow> DeviceBlockContents \<times> DeviceBlockContents" where
  "dbc_move other =
     (\<lparr>dbc_data = dbc_data other, allocation = allocation other, alloc_size = alloc_size other\<rparr>,
      other\<lparr>dbc_data := slice_clear (dbc_data other), allocation := NullPtr, alloc_size := 0\<rparr>)"

definition dbc_assign ::
  "DeviceBlockContents \<Rightarrow> DeviceBlockContents \<Rightarrow> DeviceBlockContents \<times> DeviceBlockContents" where
  "dbc_assign this other =
     (this\<lparr>dbc_data := dbc_data other, allocation := allocation other, alloc_size := alloc_size other\<rparr>,
      other\<lparr>dbc_data := slice_clear (dbc_data other), allocation := NullPtr, alloc_size := 0\<rparr>)"

definition own_bytes :: "DeviceBlockContents \<Rightarrow> bool" where
  "own_bytes c \<longleftrightarrow> allocation c \<noteq> NullPtr"

definition usable_size :: "DeviceBlockContents \<Rightarrow> nat" where
  "usable_size c = (if allocation c \<noteq> NullPtr then alloc_size c else 0)"

definition dbc_release :: "DeviceBlockContents \<Rightarrow> dev_ptr \<times> DeviceBlockContents" where
  "dbc_release c = (allocation c, dbc_clear c)"

record DeviceBlockHandle =
  bh_offset :: u64
  bh_size :: u64

definition default_DeviceBlockHandle :: DeviceBlockHandle where
  "default_DeviceBlockHandle = \<lparr>bh_offset = NOT 0, bh_size = NOT 0\<rparr>"

definition IsNull :: "DeviceBlockHandle \<Rightarrow> bool" where
  "IsNull h \<longleftrightarrow> bh_offset h = 0 \<and> bh_size h = 0"

section \<open>Ownership\<close>

text \<open>
  An allocation has at most one owner: after a move the source owns nothing, and releasing hands the
  allocation out exactly once.
\<close>

lemma dbc_move_unique_owner:
  "dbc_move c = (new, old) \<Longrightarrow>
     new = c \<and> \<not> own_bytes old \<and> usable_size old = 0 \<and> slice_empty (dbc_data old)"
  by (auto simp: dbc_move_def own_bytes_def usable_size_def slice_empty_def slice_clear_def)

lemma dbc_assign_unique_owner:
  "dbc_assign this other = (new, old) \<Longrightarrow>
     new = other \<and> \<not> own_bytes old \<and> usable_size old = 0 \<and> slice_empty (dbc_data old)"
  by (auto simp: dbc_assign_def own_bytes_def usable_size_def slice_empty_def slice_clear_def)

lemma dbc_release_once:
  "dbc_release c = (p, c') \<Longrightarrow> fst (dbc_release c') = NullPtr \<and> \<not> own_bytes c'"
  by (auto simp: dbc_release_def dbc_clear_def own_bytes_def)

end
