(* ===== verification/GPU_Kernel.thy ===== *)
theory GPU_Kernel
  imports MLKV_Prelude
begin

text \<open>
  CUDA kernels as sets of threads that write to one device buffer. A thread of the kernels modelled
  here reads only memory that no thread of the same launch writes, so what it does is a fixed list of
  writes in program order. A launch executes the writes of all its threads in some interleaving; the
  interleaving is chosen by a schedule, a list of thread indices, which every launch takes as an
  argument and every property quantifies over.
\<close>

section \<open>Threads, schedules and launches\<close>

type_synonym 'a store = "nat \<times> 'a list"

fun run_stores :: "'a store list \<Rightarrow> 'a list \<Rightarrow> 'a list" where
  "run_stores [] buf = buf"
| "run_stores ((off, xs) # ws) buf = run_stores ws (write_at buf off xs)"

text \<open>
  \<open>interleave sched threads\<close> takes the next write of thread \<open>i\<close> for every \<open>i\<close> of
  the schedule; an entry naming a finished thread is skipped, and the writes that are left when the
  schedule ends follow thread by thread. Every interleaving is the result of some schedule.
\<close>

fun interleave :: "nat list \<Rightarrow> 'a list list \<Rightarrow> 'a list" where
  "interleave [] threads = concat threads"
| "interleave (i # sched) threads =
     (if i < length threads \<and> threads ! i \<noteq> []
      then hd (threads ! i) # interleave sched (threads[i := tl (threads ! i)])
      else interleave sched threads)"

definition launch :: "nat list \<Rightarrow> (nat \<Rightarrow> 'a store list) \<Rightarrow> nat \<Rightarrow> 'a list \<Rightarrow> 'a list" where
  "launch sched body n_threads buf = run_stores (interleave sched (map body [0..<n_threads])) buf"

definition in_bounds :: "nat \<Rightarrow> 'a store \<Rightarrow> bool" where
  "in_bounds n w \<longleftrightarrow> fst w + length (snd w) \<le> n"

definition touches :: "nat \<Rightarrow> 'a store \<Rightarrow> bool" where
  "touches p w \<longleftrightarrow> fst w \<le> p \<and> p < fst w + length (snd w)"

section \<open>Independence of the schedule\<close>

lemma length_run_stores [simp]:
  "list_all (in_bounds (length buf)) ws \<Longrightarrow> length (run_stores ws buf) = length buf"
  by (induction ws buf rule: run_stores.induct) (auto simp: in_bounds_def)

lemma run_stores_append: "run_stores (ws @ vs) buf = run_stores vs (run_stores ws buf)"
  by (induction ws buf rule: run_stores.induct) auto

text \<open>The value at a position depends only on the writes that touch it.\<close>

lemma nth_run_stores_filter:
  assumes "list_all (in_bounds (length buf)) ws" and "p < length buf"
  shows "run_stores ws buf ! p = run_stores (filter (touches p) ws) buf ! p"
proof -
  have gen: "run_stores ws b ! p = run_stores (filter (touches p) ws) c ! p"
    if "b ! p = c ! p" "length b = length buf" "length c = length buf" for b c
    using assms that
  proof (induction ws arbitrary: b c)
    case Nil
    then show ?case by simp
  next
    case (Cons w ws)
    obtain off xs where w: "w = (off, xs)" by (cases w)
    have inb: "off + length xs \<le> length buf" using Cons.prems(1) w by (simp add: in_bounds_def)
    have tl: "list_all (in_bounds (length buf)) ws" using Cons.prems(1) by simp
    show ?case
    proof (cases "touches p w")
      case True
      have "write_at b off xs ! p = write_at c off xs ! p"
        using Cons.prems inb by (simp add: nth_write_at)
      then show ?thesis
        using True w Cons.IH [OF tl Cons.prems(2), of "write_at b off xs" "write_at c off xs"]
          Cons.prems inb by simp
    next
      case False
      then have "write_at b off xs ! p = c ! p"
        using Cons.prems inb w by (auto simp: nth_write_at touches_def)
      then show ?thesis
        using False w Cons.IH [OF tl Cons.prems(2), of "write_at b off xs" c]
          Cons.prems inb by simp
    qed
  qed
  show ?thesis by (rule gen) simp_all
qed

lemma set_interleave: "set (interleave sched threads) = \<Union> (set ` set threads)"
proof (induction sched threads rule: interleave.induct)
  case (1 threads)
  then show ?case by simp
next
  case (2 i sched threads)
  show ?case
  proof (cases "i < length threads \<and> threads ! i \<noteq> []")
    case True
    then obtain w ws where w: "threads ! i = w # ws" by (cases "threads ! i") auto
    have old: "threads = take i threads @ (w # ws) # drop (Suc i) threads"
      using True w by (metis id_take_nth_drop)
    have new: "threads[i := ws] = take i threads @ ws # drop (Suc i) threads"
      using True by (simp add: upd_conv_take_nth_drop)
    have "\<Union> (set ` set threads) = insert w (\<Union> (set ` set (threads[i := ws])))"
      by (subst old, subst new) auto
    then show ?thesis using True w "2.IH"(1) by simp
  next
    case False
    then show ?thesis using "2.IH"(2) by auto
  qed
qed

text \<open>
  If no other thread satisfies \<open>P\<close>, the writes with \<open>P\<close> of an interleaving are those of
  thread \<open>k\<close>, in its program order.
\<close>

lemma filter_interleave:
  assumes "k < length threads"
    and "\<And>j w. j < length threads \<Longrightarrow> j \<noteq> k \<Longrightarrow> w \<in> set (threads ! j) \<Longrightarrow> \<not> P w"
  shows "filter P (interleave sched threads) = filter P (threads ! k)"
  using assms
proof (induction sched threads rule: interleave.induct)
  case (1 threads)
  have before: "filter P (concat (take k threads)) = []"
  proof -
    have "\<not> P w" if xs: "xs \<in> set (take k threads)" "w \<in> set xs" for xs w
    proof -
      obtain j where "j < k" "xs = threads ! j" using xs(1) by (auto simp: in_set_conv_nth)
      then show ?thesis using "1.prems"(1) "1.prems"(2) [of j w] xs(2) by simp
    qed
    then show ?thesis by (auto simp: filter_empty_conv)
  qed
  have after: "filter P (concat (drop (Suc k) threads)) = []"
  proof -
    have "\<not> P w" if xs: "xs \<in> set (drop (Suc k) threads)" "w \<in> set xs" for xs w
    proof -
      obtain j where "j < length threads - Suc k" "xs = threads ! (Suc k + j)"
        using xs(1) by (auto simp: in_set_conv_nth)
      then show ?thesis using "1.prems"(2) [of "Suc k + j" w] xs(2) by simp
    qed
    then show ?thesis by (auto simp: filter_empty_conv)
  qed
  show ?case using concat_split_nth [OF "1.prems"(1)] before after by simp
next
  case (2 i sched threads)
  show ?case
  proof (cases "i < length threads \<and> threads ! i \<noteq> []")
    case False
    then have "interleave (i # sched) threads = interleave sched threads" by auto
    with "2.IH"(2) [OF False "2.prems"] show ?thesis by simp
  next
    case True
    let ?t = "threads[i := tl (threads ! i)]"
    have others: "\<not> P w" if "j < length ?t" "j \<noteq> k" "w \<in> set (?t ! j)" for j w
    proof -
      have "set (?t ! j) \<subseteq> set (threads ! j)"
        using that(1) True by (cases "j = i") (auto dest: list.set_sel(2))
      then show ?thesis using "2.prems"(2) [of j w] that by auto
    qed
    have IH: "filter P (interleave sched ?t) = filter P (?t ! k)"
      using "2.IH"(1) [OF True] "2.prems"(1) others by simp
    show ?thesis
    proof (cases "i = k")
      case eq: True
      then obtain w ws where "threads ! k = w # ws" using True by (cases "threads ! k") auto
      then show ?thesis using True IH eq by simp
    next
      case False
      have "\<not> P (hd (threads ! i))"
        using "2.prems"(2) [of i "hd (threads ! i)"] True False by simp
      then show ?thesis using True IH False by simp
    qed
  qed
qed

text \<open>
  A launch whose threads write disjoint regions leaves in the region of a thread what that thread
  alone would leave there, whatever the schedule.
\<close>

lemma nth_launch:
  assumes bounds: "\<And>i w. i < n \<Longrightarrow> w \<in> set (body i) \<Longrightarrow> in_bounds (length buf) w"
    and k: "k < n" and p: "p < length buf"
    and others: "\<And>i w. i < n \<Longrightarrow> i \<noteq> k \<Longrightarrow> w \<in> set (body i) \<Longrightarrow> \<not> touches p w"
  shows "launch sched body n buf ! p = run_stores (body k) buf ! p"
proof -
  let ?ts = "map body [0..<n]"
  have all: "list_all (in_bounds (length buf)) (interleave sched ?ts)"
    using bounds by (auto simp: list_all_iff set_interleave)
  have one: "list_all (in_bounds (length buf)) (body k)"
    using bounds k by (auto simp: list_all_iff)
  have "filter (touches p) (interleave sched ?ts) = filter (touches p) (body k)"
    using filter_interleave [of k ?ts "touches p" sched] k others by simp
  then show ?thesis
    unfolding launch_def
    using nth_run_stores_filter [OF all p] nth_run_stores_filter [OF one p] by simp
qed

lemma nth_launch_untouched:
  assumes bounds: "\<And>i w. i < n \<Longrightarrow> w \<in> set (body i) \<Longrightarrow> in_bounds (length buf) w"
    and p: "p < length buf"
    and none: "\<And>i w. i < n \<Longrightarrow> w \<in> set (body i) \<Longrightarrow> \<not> touches p w"
  shows "launch sched body n buf ! p = buf ! p"
proof -
  let ?ws = "interleave sched (map body [0..<n])"
  have all: "list_all (in_bounds (length buf)) ?ws"
    using bounds by (auto simp: list_all_iff set_interleave)
  have "filter (touches p) ?ws = []"
    using none by (auto simp: filter_empty_conv set_interleave)
  then show ?thesis unfolding launch_def using nth_run_stores_filter [OF all p] by simp
qed

lemma length_launch [simp]:
  assumes "\<And>i w. i < n \<Longrightarrow> w \<in> set (body i) \<Longrightarrow> in_bounds (length buf) w"
  shows "length (launch sched body n buf) = length buf"
proof -
  have "list_all (in_bounds (length buf)) (interleave sched (map body [0..<n]))"
    using assms by (auto simp: list_all_iff set_interleave)
  then show ?thesis by (simp add: launch_def)
qed

text \<open>
  The form the components use: the buffer after the launch is the concatenation of segments, where
  thread \<open>i\<close> leaves segment \<open>i\<close> in place and touches nothing else.
\<close>

lemma launch_segments:
  assumes n: "length segs \<le> n"
    and len: "length buf = length (concat segs)"
    and thread: "\<And>i. i < length segs \<Longrightarrow> run_stores (body i) buf =
                   write_at buf (length (concat (take i segs))) (segs ! i)"
    and inside: "\<And>i w. i < length segs \<Longrightarrow> w \<in> set (body i) \<Longrightarrow>
                   length (concat (take i segs)) \<le> fst w \<and>
                   fst w + length (snd w) \<le> length (concat (take i segs)) + length (segs ! i)"
    and idle: "\<And>i. length segs \<le> i \<Longrightarrow> i < n \<Longrightarrow> body i = []"
  shows "launch sched body n buf = concat segs"
proof -
  let ?o = "\<lambda>i. length (concat (take i segs))"
  have mono: "?o i + length (segs ! i) \<le> ?o j" if "i < j" "i < length segs" for i j
  proof -
    have "?o (Suc i) = ?o i + length (segs ! i)"
      by (simp only: take_concat_prefix [OF that(2)] length_append)
    moreover have "?o (Suc i) \<le> ?o j"
      by (metis Suc_leI append_take_drop_id concat_append length_append le_add1 min_absorb1
          take_take that(1))
    ultimately show ?thesis by simp
  qed
  have top: "?o i + length (segs ! i) \<le> length (concat segs)" if "i < length segs" for i
    using mono [of i "length segs"] that by simp
  have bounds: "in_bounds (length buf) w" if "i < n" "w \<in> set (body i)" for i w
  proof (cases "i < length segs")
    case True
    then show ?thesis
      unfolding in_bounds_def using inside [OF True that(2)] top [OF True] len by linarith
  next
    case False
    then show ?thesis using idle that by auto
  qed
  show ?thesis
  proof (rule nth_equalityI)
    show eq: "length (launch sched body n buf) = length (concat segs)"
      using bounds len by (simp add: length_launch)
    fix p assume "p < length (launch sched body n buf)"
    then have p: "p < length (concat segs)" using eq by simp
    then obtain k where k: "k < length segs" "?o k \<le> p" "p < ?o k + length (segs ! k)"
      by (rule concat_position)
    have others: "\<not> touches p w" if iw: "i < n" "i \<noteq> k" "w \<in> set (body i)" for i w
    proof (cases "i < length segs")
      case False
      then show ?thesis using idle iw by auto
    next
      case True
      consider "i < k" | "k < i" using iw(2) by linarith
      then show ?thesis
      proof cases
        case 1
        then show ?thesis
          using mono [OF 1 True] inside [OF True iw(3)] k by (simp add: touches_def)
      next
        case 2
        then show ?thesis
          using mono [OF 2 k(1)] inside [OF True iw(3)] k by (simp add: touches_def)
      qed
    qed
    have "launch sched body n buf ! p = run_stores (body k) buf ! p"
      using nth_launch [of n body buf k p sched] bounds k(1) n p len others by simp
    also have "\<dots> = segs ! k ! (p - ?o k)"
      using thread [OF k(1)] top [OF k(1)] k p len by (simp add: nth_write_at)
    also have "\<dots> = concat segs ! p"
    proof -
      have "concat segs = concat (take k segs) @ segs ! k @ concat (drop (Suc k) segs)"
        by (rule concat_split_nth [OF k(1)])
      then show ?thesis using k by (metis add_less_cancel_left le_add_diff_inverse nth_append
            nth_append_length_plus)
    qed
    finally show "launch sched body n buf ! p = concat segs ! p" .
  qed
qed

text \<open>The simplest such kernel: thread \<open>i\<close> stores one cell at index \<open>i\<close>.\<close>

lemma launch_cells:
  assumes "n \<le> N" and "n \<le> length buf"
    and cell: "\<And>i. i < n \<Longrightarrow> body i = [(i, [f i])]" and idle: "\<And>i. n \<le> i \<Longrightarrow> i < N \<Longrightarrow> body i = []"
  shows "launch sched body N buf = map f [0..<n] @ drop n buf"
proof (rule nth_equalityI)
  have stores: "i < n \<and> w = (i, [f i])" if "i < N" "w \<in> set (body i)" for i w
    using that cell [of i] idle [of i] by (cases "i < n") auto
  have bounds: "in_bounds (length buf) w" if "i < N" "w \<in> set (body i)" for i w
    using stores [OF that] assms(2) by (auto simp: in_bounds_def)
  show len: "length (launch sched body N buf) = length (map f [0..<n] @ drop n buf)"
    using assms(2) by (simp add: length_launch bounds)
  fix p assume "p < length (launch sched body N buf)"
  then have p: "p < length buf" using len assms(2) by simp
  show "launch sched body N buf ! p = (map f [0..<n] @ drop n buf) ! p"
  proof (cases "p < n")
    case True
    have "\<not> touches p w" if "i < N" "i \<noteq> p" "w \<in> set (body i)" for i w
      using stores [OF that(1,3)] that(2) by (auto simp: touches_def)
    then have "launch sched body N buf ! p = run_stores (body p) buf ! p"
      using nth_launch [of N body buf p p sched] bounds True assms(1) p by simp
    then show ?thesis using True cell p by (simp add: nth_write_at nth_append)
  next
    case False
    have "\<not> touches p w" if "i < N" "w \<in> set (body i)" for i w
      using stores [OF that] False by (auto simp: touches_def)
    then show ?thesis
      using nth_launch_untouched [of N body buf p sched] bounds p False by (simp add: nth_append)
  qed
qed

section \<open>Atomic counters\<close>

text \<open>
  Threads that take positions by an atomic increment do so in some order. Every order is the result of some list;
  entries that name no thread or repeat one are skipped.
\<close>

definition thread_order :: "nat list \<Rightarrow> nat \<Rightarrow> nat list" where
  "thread_order order n = remdups (filter (\<lambda>i. i < n) order) @ filter (\<lambda>i. i \<notin> set order) [0..<n]"

lemma thread_order_ok: "distinct (thread_order order n)" "set (thread_order order n) = {..<n}"
  by (auto simp: thread_order_def)

section \<open>Loops with a stride\<close>

text \<open>The indices a \<open>for\<close> loop with a stride visits.\<close>

function strided :: "nat \<Rightarrow> nat \<Rightarrow> nat \<Rightarrow> nat list" where
  "strided i step n = (if i < n \<and> 0 < step then i # strided (i + step) step n else [])"
  by pat_completeness auto
termination by (relation "measure (\<lambda>(i, step, n). n - i)") auto

declare strided.simps [simp del]

lemma set_strided: "0 < step \<Longrightarrow> set (strided i step n) = {k. k < n \<and> (\<exists>j. k = i + j * step)}"
proof (induction i step n rule: strided.induct)
  case (1 i step n)
  show ?case
  proof (cases "i < n")
    case True
    have "set (strided i step n) = insert i (set (strided (i + step) step n))"
      using True 1(2) by (subst strided.simps) simp
    also have "\<dots> = insert i {k. k < n \<and> (\<exists>j. k = i + step + j * step)}" using 1 True by simp
    also have "\<dots> = {k. k < n \<and> (\<exists>j. k = i + j * step)}"
    proof (intro equalityI subsetI)
      fix k assume "k \<in> insert i {k. k < n \<and> (\<exists>j. k = i + step + j * step)}"
      then show "k \<in> {k. k < n \<and> (\<exists>j. k = i + j * step)}"
        using True by (auto intro: exI [of _ 0]) (metis add.assoc mult_Suc)
    next
      fix k assume "k \<in> {k. k < n \<and> (\<exists>j. k = i + j * step)}"
      then obtain j where "k < n" "k = i + j * step" by blast
      then show "k \<in> insert i {k. k < n \<and> (\<exists>j. k = i + step + j * step)}" by (cases j) auto
    qed
    finally show ?thesis .
  next
    case False
    then show ?thesis by (subst strided.simps) auto
  qed
qed

lemma distinct_strided: "distinct (strided i step n)"
proof (induction i step n rule: strided.induct)
  case (1 i step n)
  show ?case
    using 1 set_strided [of step "i + step" n] by (subst strided.simps) auto
qed

section \<open>Launches of threads that write single elements\<close>

lemma run_stores_value:
  assumes all: "list_all (in_bounds (length buf)) ws" and p: "p < length buf"
    and one: "w \<in> set ws" "touches p w" and same: "\<And>w. w \<in> set ws \<Longrightarrow> touches p w \<Longrightarrow> w = (p, [v])"
  shows "run_stores ws buf ! p = v"
proof -
  let ?fs = "filter (touches p) ws"
  have "w' = (p, [v])" if "w' \<in> set ?fs" for w' using same [of w'] that by simp
  then have f: "\<forall>w \<in> set ?fs. w = (p, [v])" by blast
  have ne: "?fs \<noteq> []" using one by (auto simp: filter_empty_conv)
  have "run_stores fs b ! p = v" if "\<forall>w \<in> set fs. w = (p, [v])" "p < length b" "fs \<noteq> [] \<or> b ! p = v" for fs b
    using that by (induction fs arbitrary: b) (auto simp: nth_write_at)
  then show ?thesis using nth_run_stores_filter [OF all p] f ne p by simp
qed

lemma launch_value:
  assumes "\<And>t. t < n \<Longrightarrow> list_all (in_bounds (length buf)) (body t)" and "p < length buf"
    and "t < n" "w \<in> set (body t)" "touches p w" and "\<And>t w. t < n \<Longrightarrow> w \<in> set (body t) \<Longrightarrow> touches p w \<Longrightarrow> w = (p, [v])"
  shows "launch sched body n buf ! p = v"
  unfolding launch_def
proof (rule run_stores_value [where w = w])
  let ?ws = "interleave sched (map body [0..<n])"
  have ws: "w \<in> set ?ws \<longleftrightarrow> (\<exists>t < n. w \<in> set (body t))" for w by (auto simp: set_interleave)
  show "list_all (in_bounds (length buf)) ?ws" using assms(1) ws by (simp add: list_all_iff) blast
  show "w \<in> set ?ws" using ws assms(3,4) by blast
  show "w' = (p, [v])" if "w' \<in> set ?ws" "touches p w'" for w' using that ws assms(6) by blast
qed (use assms in simp_all)

text \<open>The loops of all threads together visit every element.\<close>

lemma strided_cover: "0 < cnt \<Longrightarrow> i < n \<Longrightarrow> \<exists>t < cnt. i \<in> set (strided t cnt n)"
  by (rule exI [of _ "i mod cnt"]) (auto simp: set_strided intro!: exI [of _ "i div cnt"])

lemma strided_below: "i \<in> set (strided t cnt n) \<Longrightarrow> 0 < cnt \<Longrightarrow> i < n"
  by (auto simp: set_strided)

end
