(* ===== verification/WAL_Format.thy ===== *)
theory WAL_Format
  imports MLKV_Config GPU_Kernel
begin

text \<open>
  The record format of the write-ahead log, shared by the GPU writer and the RocksDB reader
  (\<^verbatim>\<open>gds/log_format.h\<close> and \<^verbatim>\<open>rocksdb/db/log_format.h\<close>, which agree): record types with
  their codes, block and header sizes, and the pure framing function \<open>wal_fragments\<close> both sides
  are measured against. A log is a sequence of blocks of \<open>kBlockSize\<close> bytes; a record is cut into
  fragments so that none crosses a block boundary, and at most \<open>kHeaderSize - 1\<close> bytes at the end
  of a block stay unused.
\<close>

section \<open>Record types\<close>

datatype RecordType =
    kZeroType
  | kFullType
  | kFirstType
  | kMiddleType
  | kLastType
  | kRecyclableFullType
  | kRecyclableFirstType
  | kRecyclableMiddleType
  | kRecyclableLastType
  | kSetCompressionType
  | kUserDefinedTimestampSizeType
  | kRecyclableUserDefinedTimestampSizeType
  | kPredecessorWALInfoType
  | kRecyclePredecessorWALInfoType
  | kNoChecksumFullType
  | kNoChecksumFirstType
  | kNoChecksumMiddleType
  | kNoChecksumLastType
  | kRecyclableNoChecksumFullType
  | kRecyclableNoChecksumFirstType
  | kRecyclableNoChecksumMiddleType
  | kRecyclableNoChecksumLastType

fun rt_code :: "RecordType \<Rightarrow> nat" where
  "rt_code kZeroType = 0"
| "rt_code kFullType = 1"
| "rt_code kFirstType = 2"
| "rt_code kMiddleType = 3"
| "rt_code kLastType = 4"
| "rt_code kRecyclableFullType = 5"
| "rt_code kRecyclableFirstType = 6"
| "rt_code kRecyclableMiddleType = 7"
| "rt_code kRecyclableLastType = 8"
| "rt_code kSetCompressionType = 9"
| "rt_code kUserDefinedTimestampSizeType = 10"
| "rt_code kRecyclableUserDefinedTimestampSizeType = 11"
| "rt_code kPredecessorWALInfoType = 130"
| "rt_code kRecyclePredecessorWALInfoType = 131"
| "rt_code kNoChecksumFullType = 140"
| "rt_code kNoChecksumFirstType = 150"
| "rt_code kNoChecksumMiddleType = 160"
| "rt_code kNoChecksumLastType = 170"
| "rt_code kRecyclableNoChecksumFullType = 181"
| "rt_code kRecyclableNoChecksumFirstType = 191"
| "rt_code kRecyclableNoChecksumMiddleType = 201"
| "rt_code kRecyclableNoChecksumLastType = 211"

definition kRecordTypeSafeIgnoreMask :: nat where "kRecordTypeSafeIgnoreMask = 128"
definition kMaxRecordType :: nat where "kMaxRecordType = rt_code kRecyclableNoChecksumLastType"
definition kBlockSize :: nat where "kBlockSize = 32768"
definition kHeaderSize :: nat where "kHeaderSize = 4 + 2 + 1"
definition kRecyclableHeaderSize :: nat where "kRecyclableHeaderSize = 4 + 2 + 1 + 4"

lemmas wal_sizes = kBlockSize_def kHeaderSize_def kRecyclableHeaderSize_def

lemma rt_code_inj: "rt_code s = rt_code t \<longleftrightarrow> s = t"
  by (cases s; cases t) auto

lemma rt_code_bound: "rt_code t \<le> kMaxRecordType"
  by (cases t) (auto simp: kMaxRecordType_def)

instantiation RecordType :: linorder
begin

definition less_eq_RecordType :: "RecordType \<Rightarrow> RecordType \<Rightarrow> bool" where
  "s \<le> t \<longleftrightarrow> rt_code s \<le> rt_code t"

definition less_RecordType :: "RecordType \<Rightarrow> RecordType \<Rightarrow> bool" where
  "s < t \<longleftrightarrow> rt_code s < rt_code t"

instance
  by standard (auto simp: less_eq_RecordType_def less_RecordType_def rt_code_inj)

end

section \<open>Framing\<close>

text \<open>
  \<open>fragment_type\<close> is the type of a fragment that is the first and/or the last of its record.
  \<open>wal_fragments off first data\<close> cuts \<open>data\<close> for a log whose current block holds \<open>off\<close> bytes:
  each fragment comes with the number of unused bytes skipped in front of it.
\<close>

definition fragment_type :: "bool \<Rightarrow> bool \<Rightarrow> RecordType" where
  "fragment_type is_first is_last =
     (if is_first \<and> is_last then kNoChecksumFullType
      else if is_first then kNoChecksumFirstType
      else if is_last then kNoChecksumLastType
      else kNoChecksumMiddleType)"

definition block_skip :: "nat \<Rightarrow> nat" where
  "block_skip off = (if kBlockSize - off < kHeaderSize then kBlockSize - off else 0)"

definition block_start :: "nat \<Rightarrow> nat" where
  "block_start off = (if kBlockSize - off < kHeaderSize then 0 else off)"

definition block_avail :: "nat \<Rightarrow> nat" where
  "block_avail off = kBlockSize - block_start off - kHeaderSize"

lemma block_start_bound: "block_start off + kHeaderSize \<le> kBlockSize"
  by (auto simp: block_start_def wal_sizes)

function wal_fragments :: "nat \<Rightarrow> bool \<Rightarrow> bytes \<Rightarrow> (nat \<times> RecordType \<times> bytes) list" where
  "wal_fragments off first data =
     (let n = min (length data) (block_avail off);
          frag = (block_skip off, fragment_type first (length data = n), take n data)
      in if length data - n > 0
         then frag # wal_fragments (block_start off + kHeaderSize + n) False (drop n data)
         else [frag])"
  by pat_completeness auto

termination
  by (relation "measure (\<lambda>(off, _, data). 2 * length data + (if block_avail off = 0 then 1 else 0))")
    (auto simp: block_avail_def block_start_def wal_sizes split: if_splits)

declare wal_fragments.simps [simp del]

lemma wal_fragments_step:
  assumes "n = min (length data) (block_avail off)"
  shows "wal_fragments off first data =
           (block_skip off, fragment_type first (length data = n), take n data) #
           (if 0 < length data - n then wal_fragments (block_start off + kHeaderSize + n) False (drop n data)
            else [])"
  using assms by (subst wal_fragments.simps) (simp add: Let_def)

text \<open>The offset after a list of fragments, and the fragments of a sequence of records.\<close>

primrec frags_end :: "nat \<Rightarrow> (nat \<times> RecordType \<times> bytes) list \<Rightarrow> nat" where
  "frags_end off [] = off"
| "frags_end off (f # fs) = frags_end (block_start off + kHeaderSize + length (snd (snd f))) fs"

primrec log_fragments :: "nat \<Rightarrow> bytes list \<Rightarrow> (nat \<times> RecordType \<times> bytes) list" where
  "log_fragments off [] = []"
| "log_fragments off (d # ds) =
     wal_fragments off True d @ log_fragments (frags_end off (wal_fragments off True d)) ds"

end
