(* ===== verification/GDS_File_System.thy ===== *)
theory GDS_File_System
  imports MLKV_Config
begin

text \<open>
  The append side of the GPUDirect file layer: class \<open>GDSFileSystem\<close> of
  \<^verbatim>\<open>gds/gds_file_system.cuh\<close>. Appends collect in a buffer of one alignment unit (4096 bytes);
  once a unit is full, all complete units go to the file in one write at the current file size, and the
  rest stays in the buffer until the next append or the flush in the destructor.

  The cuFile library and the driver are the record \<open>cu_file\<close>, the meaning of the handle the code
  holds: its state \<open>'f\<close> (the file on the device), the write call, which returns a byte count or a
  negative error, and whether an allocation of a size succeeds. The hypotheses about them are
  \<open>cu_write_spec\<close> (a positioned write stores the bytes and returns their number) and success of
  allocation; \<open>contents\<close> reads the file behind the handle and occurs in hypotheses only.

  The contract \<open>append_file\<close> is what the log writer relies on: an append extends the logical file
  by its data. It is interpreted on \<open>AppendFromGPU\<close>.
\<close>

section \<open>State\<close>

record 'f cu_file =
  cuFileWrite :: "'f \<Rightarrow> bytes \<Rightarrow> nat \<Rightarrow> int \<times> 'f"
  cuMallocOk :: "nat \<Rightarrow> bool"
  cu_state :: 'f

record 'f GDSFileSystem =
  fs_filename :: string
  fs_options :: GDSOptions
  fs_file_fd :: int
  cu_file_handle :: "'f cu_file"
  gds_initialized :: bool
  fs_file_opened :: bool
  fs_file_size :: nat
  fs_gpu_buffer :: bool
  fs_gpu_buffer_size :: nat
  write_buffer :: bytes
  write_buffer_used :: nat

section \<open>Writing\<close>

definition device_write :: "'f GDSFileSystem \<Rightarrow> bytes \<Rightarrow> nat \<Rightarrow> int \<times> 'f GDSFileSystem" where
  "device_write s data off =
     (let h = cu_file_handle s; (r, st) = cuFileWrite h (cu_state h) data off
      in (r, s\<lparr>cu_file_handle := h\<lparr>cu_state := st\<rparr>\<rparr>))"

definition BufferedWrite ::
  "'f GDSFileSystem \<Rightarrow> bytes \<Rightarrow> (IOStatus \<times> 'f GDSFileSystem) outcome" where
  "BufferedWrite s data =
     (let align = GDSAlignment (fs_options s);
          used = write_buffer_used s;
          total_size = used + length data
      in
        if total_size < align
        then Returns (io_OK, s\<lparr>write_buffer := write_at (write_buffer s) used data,
                               write_buffer_used := used + length data\<rparr>)
        else
          let aligned_write_size = total_size div align * align;
              remaining_size = total_size - aligned_write_size
          in
            if \<not> cuMallocOk (cu_file_handle s) aligned_write_size
            then Returns (io_IOError ''Failed to allocate temp buffer'', s)
            else
              let new_data_to_write = aligned_write_size - used;
                  temp_buffer = take used (write_buffer s) @ take new_data_to_write data
              in
                if fs_file_size s mod align \<noteq> 0
                then Undefined ''assert(file_size_ % options_.GDSAlignment == 0)''
                else
                  let (cu_err, s) = device_write s temp_buffer (fs_file_size s)
                  in if cu_err < 0 then Returns (io_IOError ''cuFileWrite failed'', s)
                     else
                       let s = s\<lparr>fs_file_size := fs_file_size s + aligned_write_size,
                                 write_buffer_used := 0\<rparr>
                       in Returns (io_OK,
                            if remaining_size > 0
                            then s\<lparr>write_buffer :=
                                     write_at (write_buffer s) 0 (drop new_data_to_write data),
                                   write_buffer_used := remaining_size\<rparr>
                            else s))"

definition WriteFromGPU ::
  "'f GDSFileSystem \<Rightarrow> bytes \<Rightarrow> nat \<Rightarrow> (IOStatus \<times> 'f GDSFileSystem) outcome" where
  "WriteFromGPU s data off =
     (if \<not> gds_initialized s then Returns (io_UsageError ''CUDA GDS not initialized'', s)
      else if off = fs_file_size s then BufferedWrite s data
      else
        let (cu_err, s) = device_write s data off
        in if cu_err < 0 then Returns (io_IOError ''cuFileWrite failed'', s)
           else Returns (io_OK,
                  if off + length data > fs_file_size s
                  then s\<lparr>fs_file_size := off + length data\<rparr> else s))"

definition AppendFromGPU ::
  "'f GDSFileSystem \<Rightarrow> bytes \<Rightarrow> (IOStatus \<times> 'f GDSFileSystem) outcome" where
  "AppendFromGPU s data =
     bind_outcome (WriteFromGPU s data (fs_file_size s)) (\<lambda>(status, s). Returns (io_OK, s))"

definition PositionedAppendFromGPU ::
  "'f GDSFileSystem \<Rightarrow> bytes \<Rightarrow> nat \<Rightarrow> (IOStatus \<times> 'f GDSFileSystem) outcome" where
  "PositionedAppendFromGPU s data off = WriteFromGPU s data off"

definition Flush :: "'f GDSFileSystem \<Rightarrow> IOStatus \<times> 'f GDSFileSystem" where
  "Flush s =
     (if \<not> gds_initialized s then (io_UsageError ''CUDA GDS not initialized'', s)
      else if write_buffer_used s = 0 then (io_OK, s)
      else
        let (cu_err, s) = device_write s (take (write_buffer_used s) (write_buffer s)) (fs_file_size s)
        in if cu_err < 0 then (io_IOError ''cuFileWrite failed during flush'', s)
           else (io_OK, s\<lparr>fs_file_size := fs_file_size s + write_buffer_used s,
                          write_buffer_used := 0\<rparr>))"

section \<open>Opening and closing\<close>

text \<open>
  The results of the system calls the constructor makes: whether the device could be selected, the
  descriptor of \<^verbatim>\<open>open\<close>, the size \<^verbatim>\<open>fstat\<close> reports (\<open>None\<close> when it fails), and
  the handle \<^verbatim>\<open>cuFileHandleRegister\<close> gives.
\<close>

record 'f open_env =
  cudaSetDevice_ok :: bool
  open_fd :: int
  fstat_size :: "nat option"
  cuFileHandleRegister :: "'f cu_file option"
  initial_write_buffer :: bytes

definition align_up :: "nat \<Rightarrow> nat \<Rightarrow> nat" where
  "align_up align n =
     unat ((word_of_nat n + word_of_nat align - 1) AND NOT (word_of_nat align - 1) :: u64)"

definition EnsureGPUBuffer :: "'f GDSFileSystem \<Rightarrow> nat \<Rightarrow> IOStatus \<times> 'f GDSFileSystem" where
  "EnsureGPUBuffer s required_size =
     (let aligned_size = align_up (GDSAlignment (fs_options s)) required_size
      in if fs_gpu_buffer s \<and> fs_gpu_buffer_size s \<ge> aligned_size then (io_OK, s)
         else
           let s = (if fs_gpu_buffer s then s\<lparr>fs_gpu_buffer := False, fs_gpu_buffer_size := 0\<rparr> else s)
           in if \<not> cuMallocOk (cu_file_handle s) aligned_size
              then (io_IOError ''Failed to allocate GPU buffer'',
                    s\<lparr>fs_gpu_buffer := False, fs_gpu_buffer_size := 0\<rparr>)
              else (io_OK, s\<lparr>fs_gpu_buffer := True, fs_gpu_buffer_size := aligned_size\<rparr>))"

definition InitializeGDS :: "'f open_env \<Rightarrow> 'f GDSFileSystem \<Rightarrow> IOStatus \<times> 'f GDSFileSystem" where
  "InitializeGDS env s =
     (if \<not> cudaSetDevice_ok env then (io_CudaError ''Failed to set CUDA device'', s)
      else
        let s = s\<lparr>fs_file_fd := open_fd env\<rparr>
        in if open_fd env < 0 then (io_IOError ''Failed to open file for GDS'', s)
           else
             let s = s\<lparr>fs_file_size := (case fstat_size env of Some n \<Rightarrow> n | None \<Rightarrow> 0)\<rparr>
             in case cuFileHandleRegister env of
                  None \<Rightarrow> (io_IOError ''Failed to register file with cuFile'', s\<lparr>fs_file_fd := -1\<rparr>)
                | Some h \<Rightarrow>
                    let (buffer_status, s) =
                          EnsureGPUBuffer (s\<lparr>cu_file_handle := h\<rparr>) (DefaultGPUBufferSize (fs_options s))
                    in if \<not> io_ok buffer_status then (buffer_status, s\<lparr>fs_file_fd := -1\<rparr>)
                       else (io_OK, s\<lparr>gds_initialized := True, fs_file_opened := True\<rparr>))"

definition new_GDSFileSystem ::
  "'f cu_file \<Rightarrow> 'f open_env \<Rightarrow> string \<Rightarrow> GDSOptions \<Rightarrow> 'f GDSFileSystem outcome" where
  "new_GDSFileSystem no_handle env filename options =
     (let (status, s) = InitializeGDS env
            \<lparr>fs_filename = filename, fs_options = options, fs_file_fd = -1, cu_file_handle = no_handle,
             gds_initialized = False, fs_file_opened = False, fs_file_size = 0, fs_gpu_buffer = False,
             fs_gpu_buffer_size = 0, write_buffer = [], write_buffer_used = 0\<rparr>
      in if \<not> io_ok status then Exits ''Failed to initialize GDS''
         else if \<not> cuMallocOk (cu_file_handle s) (GDSAlignment options)
         then Exits ''Failed to allocate write buffer''
         else Returns (s\<lparr>write_buffer := initial_write_buffer env\<rparr>))"

definition delete_GDSFileSystem :: "'f GDSFileSystem \<Rightarrow> 'f GDSFileSystem" where
  "delete_GDSFileSystem s =
     (let s = (if write_buffer_used s > 0 then snd (Flush s) else s);
          s = (if fs_gpu_buffer s then s\<lparr>fs_gpu_buffer := False\<rparr> else s);
          s = s\<lparr>write_buffer := []\<rparr>;
          s = (if fs_file_fd s \<ge> 0 then s\<lparr>fs_file_fd := -1\<rparr> else s)
      in s\<lparr>gds_initialized := False, fs_file_opened := False\<rparr>)"

section \<open>The contract of an append-only file\<close>

primrec append_all ::
  "('s \<Rightarrow> bytes \<Rightarrow> (IOStatus \<times> 's) outcome) \<Rightarrow> 's \<Rightarrow> bytes list \<Rightarrow> 's outcome" where
  "append_all app s [] = Returns s"
| "append_all app s (d # ds) = bind_outcome (app s d) (\<lambda>(status, s). append_all app s ds)"

locale append_file =
  fixes ready :: "'s \<Rightarrow> bool" and logical :: "'s \<Rightarrow> bytes"
    and app :: "'s \<Rightarrow> bytes \<Rightarrow> (IOStatus \<times> 's) outcome"
  assumes append_ok: "ready s \<Longrightarrow>
    \<exists>s'. app s data = Returns (io_OK, s') \<and> ready s' \<and> logical s' = logical s @ data"
begin

lemma append_obtain:
  assumes "ready s"
  obtains s' where "app s data = Returns (io_OK, s')" "ready s'" "logical s' = logical s @ data"
  using append_ok [OF assms] by blast

lemma append_all_ok:
  "ready s \<Longrightarrow> \<exists>s'. append_all app s ds = Returns s' \<and> ready s' \<and> logical s' = logical s @ concat ds"
proof (induction ds arbitrary: s)
  case (Cons d ds)
  obtain s1 where s1: "app s d = Returns (io_OK, s1)" "ready s1" "logical s1 = logical s @ d"
    using append_obtain [OF Cons.prems] .
  then show ?case using Cons.IH [OF s1(2)] by auto
qed simp

end

section \<open>Refinement: the file and its buffer are the concatenation of the appends\<close>

definition cu_write_spec :: "('f \<Rightarrow> bytes) \<Rightarrow> 'f cu_file \<Rightarrow> bool" where
  "cu_write_spec contents h \<longleftrightarrow>
     (\<forall>st data off. off \<le> length (contents st) \<longrightarrow>
        fst (cuFileWrite h st data off) = int (length data) \<and>
        contents (snd (cuFileWrite h st data off)) = write_at (contents st) off data)"

definition gds_contents :: "('f \<Rightarrow> bytes) \<Rightarrow> 'f GDSFileSystem \<Rightarrow> bytes" where
  "gds_contents contents s = contents (cu_state (cu_file_handle s))"

definition gds_logical :: "('f \<Rightarrow> bytes) \<Rightarrow> 'f GDSFileSystem \<Rightarrow> bytes" where
  "gds_logical contents s = gds_contents contents s @ take (write_buffer_used s) (write_buffer s)"

definition gds_open :: "('f \<Rightarrow> bytes) \<Rightarrow> 'f GDSFileSystem \<Rightarrow> bool" where
  "gds_open contents s \<longleftrightarrow>
     gds_initialized s \<and> 0 < GDSAlignment (fs_options s) \<and>
     length (write_buffer s) = GDSAlignment (fs_options s) \<and>
     write_buffer_used s < GDSAlignment (fs_options s) \<and>
     fs_file_size s = length (gds_contents contents s) \<and>
     cu_write_spec contents (cu_file_handle s) \<and> (\<forall>n. cuMallocOk (cu_file_handle s) n)"

definition gds_ready :: "('f \<Rightarrow> bytes) \<Rightarrow> 'f GDSFileSystem \<Rightarrow> bool" where
  "gds_ready contents s \<longleftrightarrow> gds_open contents s \<and> fs_file_size s mod GDSAlignment (fs_options s) = 0"

lemma device_write_append:
  assumes "cu_write_spec contents (cu_file_handle s)" and "off = length (gds_contents contents s)"
  obtains h where "device_write s data off = (int (length data), s\<lparr>cu_file_handle := h\<rparr>)"
    and "contents (cu_state h) = gds_contents contents s @ data"
    and "cuFileWrite h = cuFileWrite (cu_file_handle s)" "cuMallocOk h = cuMallocOk (cu_file_handle s)"
    and "cu_write_spec contents h"
proof -
  let ?h = "cu_file_handle s"
  obtain r st where w: "cuFileWrite ?h (cu_state ?h) data off = (r, st)" by fastforce
  have "r = int (length data)" "contents st = gds_contents contents s @ data"
    using assms w unfolding cu_write_spec_def gds_contents_def by (metis fst_conv order_refl, metis
      order_refl snd_conv write_at_end)
  then show thesis
    using that [of "?h\<lparr>cu_state := st\<rparr>"] w assms(1)
    by (simp add: device_write_def cu_write_spec_def gds_contents_def)
qed

lemma BufferedWrite_ok:
  assumes r: "gds_ready contents s"
  shows "\<exists>s'. BufferedWrite s data = Returns (io_OK, s') \<and> gds_ready contents s' \<and>
              gds_logical contents s' = gds_logical contents s @ data"
proof -
  let ?a = "GDSAlignment (fs_options s)" and ?u = "write_buffer_used s" and ?b = "write_buffer s"
  let ?t = "?u + length data"
  have inv: "0 < ?a" "length ?b = ?a" "?u < ?a" "fs_file_size s = length (gds_contents contents s)"
      "cu_write_spec contents (cu_file_handle s)" "\<And>n. cuMallocOk (cu_file_handle s) n"
      "fs_file_size s mod ?a = 0" "gds_initialized s"
    using r by (auto simp: gds_ready_def gds_open_def)
  show ?thesis
  proof (cases "?t < ?a")
    case True
    then show ?thesis
      using r inv
      by (auto simp: BufferedWrite_def Let_def gds_ready_def gds_open_def gds_logical_def gds_contents_def
          write_at_def)
  next
    case False
    define W where "W = ?t div ?a * ?a"
    have "0 < ?t div ?a" using False inv(1) by (simp add: div_greater_zero_iff)
    then have "?a \<le> W" by (simp add: W_def)
    moreover have "W \<le> ?t" "?t - W = ?t mod ?a" by (simp_all add: W_def minus_div_mult_eq_mod)
    moreover have "?t mod ?a < ?a" using inv(1) by simp
    ultimately have w: "?a \<le> W" "W \<le> ?t" "?t - W < ?a" by simp_all
    have dvd: "(fs_file_size s + W) mod ?a = 0"
      using inv(7) by (simp add: W_def mod_eq_0_iff_dvd)
    let ?tmp = "take ?u ?b @ take (W - ?u) data"
    have tmp: "length ?tmp = W" using w inv(2,3) by auto
    obtain h where h: "device_write s ?tmp (fs_file_size s) = (int (length ?tmp), s\<lparr>cu_file_handle := h\<rparr>)"
      "contents (cu_state h) = gds_contents contents s @ ?tmp"
      "cuMallocOk h = cuMallocOk (cu_file_handle s)" "cu_write_spec contents h"
      using device_write_append [OF inv(5,4), of ?tmp] by metis
    let ?s' = "s\<lparr>cu_file_handle := h, fs_file_size := fs_file_size s + W, write_buffer_used := ?t - W,
                 write_buffer := (if ?t - W > 0 then write_at ?b 0 (drop (W - ?u) data) else ?b)\<rparr>"
    have "BufferedWrite s data = Returns (io_OK, ?s')"
      using False inv(6,7) h(1) by (simp add: BufferedWrite_def Let_def W_def [symmetric])
    moreover have "gds_ready contents ?s'"
    proof -
      have "length (write_at ?b 0 (drop (W - ?u) data)) = ?a" using w(2,3) inv(2,3) by simp
      moreover have "fs_file_size s + W = length (contents (cu_state h))"
        using inv(4) h(2) tmp by simp
      moreover have "\<forall>n. cuMallocOk h n" using h(3) inv(6) by simp
      ultimately show ?thesis
        using inv(1,2,8) w(3) h(4) dvd by (simp add: gds_ready_def gds_open_def gds_contents_def)
    qed
    moreover have "gds_logical contents ?s' = gds_logical contents s @ data"
      using inv(2,3) w h(2) by (auto simp: gds_logical_def gds_contents_def write_at_def)
    ultimately show ?thesis by blast
  qed
qed

lemma AppendFromGPU_ok:
  assumes "gds_ready contents s"
  shows "\<exists>s'. AppendFromGPU s data = Returns (io_OK, s') \<and> gds_ready contents s' \<and>
              gds_logical contents s' = gds_logical contents s @ data"
proof -
  have "gds_initialized s" using assms by (simp add: gds_ready_def gds_open_def)
  then show ?thesis
    using BufferedWrite_ok [OF assms, of data] by (auto simp: AppendFromGPU_def WriteFromGPU_def)
qed

interpretation gds: append_file "gds_ready contents" "gds_logical contents" AppendFromGPU for contents
  by unfold_locales (rule AppendFromGPU_ok)

lemma Flush_ok:
  assumes "gds_open contents s"
  shows "\<exists>s'. Flush s = (io_OK, s') \<and> gds_open contents s' \<and> write_buffer_used s' = 0 \<and>
              gds_contents contents s' = gds_logical contents s \<and> fs_options s' = fs_options s"
proof (cases "write_buffer_used s = 0")
  case True
  then show ?thesis using assms by (auto simp: Flush_def gds_open_def gds_logical_def)
next
  case False
  let ?d = "take (write_buffer_used s) (write_buffer s)"
  have inv: "cu_write_spec contents (cu_file_handle s)" "fs_file_size s = length (gds_contents contents s)"
      "length ?d = write_buffer_used s"
    using assms by (auto simp: gds_open_def)
  obtain h where h: "device_write s ?d (fs_file_size s) = (int (length ?d), s\<lparr>cu_file_handle := h\<rparr>)"
    "contents (cu_state h) = gds_contents contents s @ ?d"
    "cuMallocOk h = cuMallocOk (cu_file_handle s)" "cu_write_spec contents h"
    using device_write_append [OF inv(1,2), of ?d] by metis
  then show ?thesis
    using assms inv(3) False by (auto simp: Flush_def gds_open_def gds_logical_def gds_contents_def)
qed

lemma delete_contents:
  assumes "gds_open contents s"
  shows "gds_contents contents (delete_GDSFileSystem s) = gds_logical contents s"
proof -
  obtain s' where "Flush s = (io_OK, s')" "gds_contents contents s' = gds_logical contents s"
    using Flush_ok [OF assms] by blast
  then show ?thesis by (auto simp: delete_GDSFileSystem_def Let_def gds_contents_def gds_logical_def)
qed

definition open_env_ok :: "('f \<Rightarrow> bytes) \<Rightarrow> GDSOptions \<Rightarrow> 'f open_env \<Rightarrow> 'f cu_file \<Rightarrow> bool" where
  "open_env_ok contents options env h \<longleftrightarrow>
     cudaSetDevice_ok env \<and> 0 \<le> open_fd env \<and> cuFileHandleRegister env = Some h \<and>
     fstat_size env = Some (length (contents (cu_state h))) \<and>
     cu_write_spec contents h \<and> (\<forall>n. cuMallocOk h n) \<and>
     0 < GDSAlignment options \<and> length (initial_write_buffer env) = GDSAlignment options"

lemma new_GDSFileSystem_ok:
  assumes "open_env_ok contents options env h"
  shows "\<exists>s. new_GDSFileSystem no_handle env filename options = Returns s \<and> gds_open contents s \<and>
             fs_options s = options \<and> gds_logical contents s = contents (cu_state h) \<and>
             fs_file_size s = length (contents (cu_state h))"
  using assms
  by (auto simp: open_env_ok_def new_GDSFileSystem_def InitializeGDS_def EnsureGPUBuffer_def Let_def
      gds_open_def gds_logical_def gds_contents_def)

section \<open>A device for the witnesses\<close>

definition list_device :: "bytes \<Rightarrow> bytes cu_file" where
  "list_device f =
     \<lparr>cuFileWrite = \<lambda>st data off. (int (length data), write_at st off data), cuMallocOk = \<lambda>_. True,
      cu_state = f\<rparr>"

definition failing_device :: "bytes \<Rightarrow> bytes cu_file" where
  "failing_device f =
     \<lparr>cuFileWrite = \<lambda>st data off. (-5, st), cuMallocOk = \<lambda>_. True, cu_state = f\<rparr>"

definition sample_options :: GDSOptions where
  "sample_options = default_GDSOptions\<lparr>GDSAlignment := 4\<rparr>"

definition list_open_env :: "GDSOptions \<Rightarrow> bytes \<Rightarrow> bytes open_env" where
  "list_open_env options f =
     \<lparr>cudaSetDevice_ok = True, open_fd = 3, fstat_size = Some (length f),
      cuFileHandleRegister = Some (list_device f),
      initial_write_buffer = replicate (GDSAlignment options) 0\<rparr>"

definition sample_fs :: "bytes cu_file \<Rightarrow> bytes \<Rightarrow> bytes GDSFileSystem" where
  "sample_fs h buf =
     \<lparr>fs_filename = ''000012.log'', fs_options = sample_options, fs_file_fd = 3, cu_file_handle = h,
      gds_initialized = True, fs_file_opened = True, fs_file_size = length (cu_state h),
      fs_gpu_buffer = True, fs_gpu_buffer_size = 4096, write_buffer = write_at [0, 0, 0, 0] 0 buf,
      write_buffer_used = length buf\<rparr>"

lemma list_device_spec [simp]: "cu_write_spec (\<lambda>f. f) (list_device f)"
  by (simp add: cu_write_spec_def list_device_def)

lemma list_open_env_ok [simp]:
  "0 < GDSAlignment options \<Longrightarrow> open_env_ok (\<lambda>f. f) options (list_open_env options f) (list_device f)"
  by (simp add: open_env_ok_def list_open_env_def) (simp add: list_device_def)

lemma sample_env_simps [simp]: "GDSAlignment sample_options = 4" "cu_state (list_device f) = f"
  by (simp_all add: sample_options_def list_device_def)

section \<open>Properties\<close>



text \<open>
  C34: \<open>AppendFromGPU\<close> drops the status of the write: when the device reports an error on a write
  that fills the buffer, the write itself returns an I/O error but the append returns OK, and the
  appended bytes are in neither the file nor the buffer.
\<close>

theorem append_swallows_errors:
  assumes "gds_initialized s" and "fs_file_size s mod GDSAlignment (fs_options s) = 0"
    and "GDSAlignment (fs_options s) \<le> write_buffer_used s + length data"
    and "\<And>n. cuMallocOk (cu_file_handle s) n"
    and "\<And>d off. cuFileWrite (cu_file_handle s) (cu_state (cu_file_handle s)) d off =
                  (-5, cu_state (cu_file_handle s))"
  shows "\<exists>s' s''. WriteFromGPU s data (fs_file_size s) = Returns (io_IOError ''cuFileWrite failed'', s') \<and>
           AppendFromGPU s data = Returns (io_OK, s'') \<and>
           gds_logical contents s'' = gds_logical contents s"
  using assms
  by (simp add: WriteFromGPU_def AppendFromGPU_def BufferedWrite_def device_write_def Let_def
      gds_logical_def gds_contents_def)

theorem append_swallows_errors_witness:
  "\<exists>s' s''. WriteFromGPU (sample_fs (failing_device []) [1, 2]) [3, 4] 0 =
       Returns (io_IOError ''cuFileWrite failed'', s') \<and>
     AppendFromGPU (sample_fs (failing_device []) [1, 2]) [3, 4] = Returns (io_OK, s'') \<and>
     gds_logical (\<lambda>f. f) s'' = [1, 2]"
  using append_swallows_errors [of "sample_fs (failing_device []) [1, 2]" "[3, 4]" "\<lambda>f. f"]
  by (simp add: sample_fs_def failing_device_def sample_options_def gds_logical_def gds_contents_def write_at_def)

text \<open>
  C35: flushing a partly filled buffer leaves the file size unaligned, and the buffered path requires it
  aligned: after such a flush, the first append that completes an alignment unit stops at the assertion
  of \<open>BufferedWrite\<close>.
\<close>

theorem append_after_flush_asserts:
  assumes "gds_ready contents s" and "0 < write_buffer_used s"
    and "Flush s = (io_OK, s')" and "GDSAlignment (fs_options s) \<le> length data"
  shows "AppendFromGPU s' data = Undefined ''assert(file_size_ % options_.GDSAlignment == 0)''"
proof -
  have o: "gds_open contents s" and m: "fs_file_size s mod GDSAlignment (fs_options s) = 0"
    using assms(1) by (simp_all add: gds_ready_def)
  have s': "gds_open contents s'" "write_buffer_used s' = 0" "fs_options s' = fs_options s"
    "gds_contents contents s' = gds_logical contents s"
    using Flush_ok [OF o] assms(3) by auto
  have size: "fs_file_size s' = fs_file_size s + write_buffer_used s"
    using s' o by (auto simp: gds_open_def gds_logical_def)
  have "fs_file_size s' mod GDSAlignment (fs_options s) =
        (fs_file_size s mod GDSAlignment (fs_options s) + write_buffer_used s) mod GDSAlignment (fs_options s)"
    by (simp only: size mod_add_left_eq)
  then have "fs_file_size s' mod GDSAlignment (fs_options s) = write_buffer_used s"
    using m o by (simp add: gds_open_def)
  then show ?thesis
    using s' assms(2,4)
    by (simp add: AppendFromGPU_def WriteFromGPU_def BufferedWrite_def Let_def gds_open_def)
qed

theorem append_after_flush_asserts_witness:
  "AppendFromGPU (snd (Flush (sample_fs (list_device []) [1, 2]))) [3, 4, 5, 6] =
     Undefined ''assert(file_size_ % options_.GDSAlignment == 0)''"
  using append_after_flush_asserts [of "\<lambda>f. f" "sample_fs (list_device []) [1, 2]"
      "snd (Flush (sample_fs (list_device []) [1, 2]))" "[3, 4, 5, 6]"]
  by (simp add: gds_ready_def gds_open_def sample_fs_def sample_options_def gds_contents_def Flush_def
      device_write_def list_device_def cu_write_spec_def write_at_def)

end
