(* ===== verification/GWAL_Writer.thy ===== *)
theory GWAL_Writer
  imports WAL_Format GDS_File_System
begin

text \<open>
  The GPU write-ahead log writer (\<^verbatim>\<open>gds/gwal_writer.cuh\<close>, \<^verbatim>\<open>gds/gwal_writer.cu\<close>). A
  record in device memory is cut into fragments; for each one a kernel formats the seven header bytes,
  header and payload are put together in a device buffer of one block, and the result is appended to the
  log file.

  The file is a parameter: the operations take the append function and the writer holds the file's state
  in \<open>dest\<close>, so that the correctness of the framing is proved once against the contract
  \<open>append_file\<close> and holds for \<open>GDSFileSystem\<close> by its interpretation. Device buffers are
  \<open>None\<close> when their allocation failed, which the constructor does not notice. \<open>cuda_copy_ok\<close> and
  \<open>cuda_sync_ok\<close> say whether \<^verbatim>\<open>cudaMemcpy\<close> and \<^verbatim>\<open>cudaDeviceSynchronize\<close> succeed. The
  member \<open>header_size_\<close> is \<open>kHeaderSize\<close> from construction on, and \<open>block_offset_\<close> only ever
  holds values from 0 up, so it is a natural number.
\<close>

section \<open>State\<close>

record 's GWALWriter =
  relative_path :: string
  db_path :: string
  wal_filename :: string
  block_offset :: nat
  dest :: 's
  gpu_header_buffer :: "bytes option"
  gpu_trailer_buffer :: "bytes option"
  gpu_temp_buffer :: "bytes option"
  gpu_buffer_size :: nat
  cuda_copy_ok :: bool
  cuda_sync_ok :: bool

type_synonym 's append_fun = "'s \<Rightarrow> bytes \<Rightarrow> (IOStatus \<times> 's) outcome"

section \<open>Kernels\<close>

definition format_record_header_kernel :: "RecordType \<Rightarrow> nat \<Rightarrow> nat \<Rightarrow> byte store list" where
  "format_record_header_kernel type fragment_length idx =
     (if idx = 0
      then [(0, [0]), (1, [0]), (2, [0]), (3, [0]),
            (4, [word_of_nat (fragment_length AND 0xff)]),
            (5, [word_of_nat (drop_bit 8 fragment_length)]),
            (6, [word_of_nat (rt_code type)])]
      else [])"

definition fill_trailer_kernel :: "nat \<Rightarrow> nat \<Rightarrow> byte store list" where
  "fill_trailer_kernel n idx = (if idx < n then [(idx, [0])] else [])"

section \<open>Operations\<close>

text \<open>Both kernels are launched with one thread; a launch on a null buffer fails at the synchronisation.\<close>

definition FormatRecordHeaderOnGPU ::
  "RecordType \<Rightarrow> nat \<Rightarrow> 's GWALWriter \<Rightarrow> (IOStatus \<times> 's GWALWriter) outcome" where
  "FormatRecordHeaderOnGPU type fragment_length w =
     (case gpu_header_buffer w of
        None \<Rightarrow> Throws ''CUDA error: cudaDeviceSynchronize''
      | Some buf \<Rightarrow>
          if \<not> cuda_sync_ok w then Throws ''CUDA error: cudaDeviceSynchronize''
          else Returns (io_OK, w\<lparr>gpu_header_buffer :=
                 Some (launch [] (format_record_header_kernel type fragment_length) 1 buf)\<rparr>))"

definition FillTrailerOnGPU ::
  "'s append_fun \<Rightarrow> nat \<Rightarrow> 's GWALWriter \<Rightarrow> (IOStatus \<times> 's GWALWriter) outcome" where
  "FillTrailerOnGPU app n w =
     (case gpu_trailer_buffer w of
        None \<Rightarrow> Throws ''CUDA error: cudaDeviceSynchronize''
      | Some buf \<Rightarrow>
          if \<not> cuda_sync_ok w then Throws ''CUDA error: cudaDeviceSynchronize''
          else
            let buf = launch [] (fill_trailer_kernel n) 1 buf
            in bind_outcome (app (dest w) (take n buf))
                 (\<lambda>(s, d). Returns (s, w\<lparr>gpu_trailer_buffer := Some buf, dest := d\<rparr>)))"

definition EmitPhysicalRecordFromGPU ::
  "'s append_fun \<Rightarrow> RecordType \<Rightarrow> bytes \<Rightarrow> 's GWALWriter \<Rightarrow> (IOStatus \<times> 's GWALWriter) outcome" where
  "EmitPhysicalRecordFromGPU app t payload w =
     (if length payload > 0xffff then Undefined ''assert(n <= 0xffff)''
      else if \<not> (t \<ge> kNoChecksumFullType \<and> t \<le> kNoChecksumLastType)
      then Returns (io_UnsupportedError ''Have not support recyclable record format'', w)
      else if block_offset w + kHeaderSize + length payload > kBlockSize
      then Undefined ''assert(block_offset_ + kHeaderSize + n <= kBlockSize)''
      else
        bind_outcome (FormatRecordHeaderOnGPU t (length payload) w)
          (\<lambda>(s, w).
             if \<not> io_ok s then Returns (s, w)
             else
               let total_size = kHeaderSize + length payload
               in if total_size > gpu_buffer_size w
                  then Returns (io_IOError ''Combined header and payload size exceeds temp buffer size'', w)
                  else case (gpu_header_buffer w, gpu_temp_buffer w) of
                    (Some header, Some temp) \<Rightarrow>
                      if \<not> cuda_copy_ok w
                      then Returns (io_CudaError ''Failed to copy header to temp buffer'', w)
                      else
                        let temp = write_at temp 0 (take kHeaderSize header);
                            temp = write_at temp kHeaderSize payload
                        in bind_outcome (app (dest w) (take total_size temp))
                             (\<lambda>(s, d).
                                let w = w\<lparr>gpu_temp_buffer := Some temp, dest := d\<rparr>
                                in if \<not> io_ok s then Returns (s, w)
                                   else if \<not> cuda_sync_ok w
                                   then Throws ''CUDA error: cudaDeviceSynchronize''
                                   else Returns (s, w\<lparr>block_offset :=
                                          block_offset w + kHeaderSize + length payload\<rparr>))
                  | _ \<Rightarrow> Returns (io_CudaError ''Failed to copy header to temp buffer'', w)))"

text \<open>One round of the loop of \<open>AddRecord\<close>: the block switch, then one fragment.\<close>

definition AddRecord_switch ::
  "'s append_fun \<Rightarrow> 's GWALWriter \<Rightarrow> (IOStatus \<times> 's GWALWriter) outcome" where
  "AddRecord_switch app w =
     (if block_offset w > kBlockSize then Undefined ''assert(leftover >= 0)''
      else
        let leftover = kBlockSize - block_offset w
        in if leftover < kHeaderSize
           then if leftover > 0
                then bind_outcome (FillTrailerOnGPU app leftover w)
                       (\<lambda>(s, w). if \<not> io_ok s then Returns (s, w) else Returns (s, w\<lparr>block_offset := 0\<rparr>))
                else Returns (io_OK, w\<lparr>block_offset := 0\<rparr>)
           else Returns (io_OK, w))"

definition AddRecord_round ::
  "'s append_fun \<Rightarrow> bool \<Rightarrow> bytes \<Rightarrow> 's GWALWriter \<Rightarrow> (IOStatus \<times> nat \<times> 's GWALWriter) outcome" where
  "AddRecord_round app first data w =
     bind_outcome (AddRecord_switch app w)
       (\<lambda>(s, w).
          if \<not> io_ok s then Returns (s, 0, w)
          else
            let avail = kBlockSize - block_offset w - kHeaderSize;
                fragment_length = (if length data < avail then length data else avail);
                is_last = (length data = fragment_length);
                type = (if first \<and> is_last then kNoChecksumFullType
                        else if first then kNoChecksumFirstType
                        else if is_last then kNoChecksumLastType
                        else kNoChecksumMiddleType)
            in bind_outcome (EmitPhysicalRecordFromGPU app type (take fragment_length data) w)
                 (\<lambda>(s, w). Returns (s, fragment_length, w)))"

text \<open>What a round that reports success does to the block offset, whatever the file does.\<close>

lemma AddRecord_switch_offset:
  assumes "AddRecord_switch app w = Returns (s, w')" and "io_ok s"
  shows "block_offset w \<le> kBlockSize \<and> block_offset w' = block_start (block_offset w)"
proof -
  let ?l = "kBlockSize - block_offset w"
  have le: "\<not> kBlockSize < block_offset w" using assms(1) by (auto simp: AddRecord_switch_def)
  show ?thesis
  proof (cases "?l < kHeaderSize \<and> 0 < ?l")
    case True
    then have "bind_outcome (FillTrailerOnGPU app ?l w)
        (\<lambda>(s, w). if \<not> io_ok s then Returns (s, w) else Returns (s, w\<lparr>block_offset := 0\<rparr>)) = Returns (s, w')"
      using assms(1) le by (simp add: AddRecord_switch_def Let_def)
    then show ?thesis
      by (rule bind_status_ok) (use assms(2) le True in \<open>auto simp: block_start_def\<close>)
  next
    case False
    then show ?thesis
      using assms(1) le by (auto simp: AddRecord_switch_def Let_def block_start_def split: if_splits)
  qed
qed

lemma Emit_offset:
  assumes "EmitPhysicalRecordFromGPU app t p w = Returns (s, w')" and "io_ok s"
  shows "block_offset w' = block_offset w + kHeaderSize + length p"
proof -
  obtain w1 where w1: "FormatRecordHeaderOnGPU t (length p) w = Returns (io_OK, w1)"
    using assms by (auto simp: EmitPhysicalRecordFromGPU_def FormatRecordHeaderOnGPU_def bind_outcome_Returns_iff
        split: if_splits option.splits)
  then have off: "block_offset w1 = block_offset w"
    by (auto simp: FormatRecordHeaderOnGPU_def split: option.splits if_splits)
  obtain h tmp where b: "gpu_header_buffer w1 = Some h" "gpu_temp_buffer w1 = Some tmp"
    using assms w1 by (auto simp: EmitPhysicalRecordFromGPU_def Let_def split: if_splits option.splits)
  let ?tmp = "write_at (write_at tmp 0 (take kHeaderSize h)) kHeaderSize p"
  obtain s1 d where a: "app (dest w1) (take (kHeaderSize + length p) ?tmp) = Returns (s1, d)"
    using assms w1 b
    by (auto simp: EmitPhysicalRecordFromGPU_def Let_def bind_outcome_Returns_iff split: if_splits)
  show ?thesis
  proof (cases "io_ok s1")
    case True
    then show ?thesis
      using assms w1 b a off by (auto simp: EmitPhysicalRecordFromGPU_def Let_def split: if_splits)
  next
    case False
    then show ?thesis
      using assms w1 b a by (auto simp: EmitPhysicalRecordFromGPU_def Let_def split: if_splits)
  qed
qed

lemma AddRecord_round_offset:
  assumes "AddRecord_round app first data w = Returns (s, n, w')" and "io_ok s"
  shows "n = min (length data) (block_avail (block_offset w)) \<and>
         block_offset w' = block_start (block_offset w) + kHeaderSize + n"
proof -
  obtain s1 w1 where 1: "AddRecord_switch app w = Returns (s1, w1)"
    using assms(1) by (auto simp: AddRecord_round_def bind_outcome_Returns_iff)
  have ok: "io_ok s1"
    using assms 1 by (auto simp: AddRecord_round_def split: if_splits)
  note off = AddRecord_switch_offset [OF 1 ok]
  have n: "n = min (length data) (block_avail (block_offset w))"
    using assms(1) 1 ok off
    by (auto simp: AddRecord_round_def bind_outcome_Returns_iff Let_def block_avail_def min_def)
  moreover have "block_offset w' = block_start (block_offset w) + kHeaderSize + n"
    using assms 1 ok off n
    by (auto simp: AddRecord_round_def bind_outcome_Returns_iff Let_def block_avail_def
        dest!: Emit_offset split: if_splits)
  ultimately show ?thesis by blast
qed

function AddRecord_loop ::
  "'s append_fun \<Rightarrow> bool \<Rightarrow> bytes \<Rightarrow> 's GWALWriter \<Rightarrow> (IOStatus \<times> 's GWALWriter) outcome" where
  "AddRecord_loop app first data w =
     (case AddRecord_round app first data w of
        Returns (s, fragment_length, w') \<Rightarrow>
          if io_ok s \<and> length data - fragment_length > 0
          then AddRecord_loop app False (drop fragment_length data) w'
          else Returns (s, w')
      | Throws e \<Rightarrow> Throws e
      | Exits e \<Rightarrow> Exits e
      | Undefined e \<Rightarrow> Undefined e)"
  by pat_completeness auto

termination
proof (relation "measure (\<lambda>(app, _, data, w). 2 * length data + (if block_avail (block_offset w) = 0 then 1 else 0))",
    goal_cases)
  case (2 app first data w r s p n w')
  then have "n = min (length data) (block_avail (block_offset w))"
    "block_offset w' = block_start (block_offset w) + kHeaderSize + n"
    using AddRecord_round_offset by blast+
  then show ?case using 2
    by (auto simp: block_avail_def block_start_def wal_sizes split: if_splits)
qed simp

declare AddRecord_loop.simps [simp del]

definition AddRecord ::
  "'s append_fun \<Rightarrow> bytes \<Rightarrow> 's GWALWriter \<Rightarrow> (IOStatus \<times> 's GWALWriter) outcome" where
  "AddRecord app data w = AddRecord_loop app True data w"

text \<open>A caller that logs several records and stops at the first status that is not OK.\<close>

primrec AddRecords :: "'s append_fun \<Rightarrow> bytes list \<Rightarrow> 's GWALWriter \<Rightarrow> 's GWALWriter outcome" where
  "AddRecords app [] w = Returns w"
| "AddRecords app (d # ds) w =
     bind_outcome (AddRecord app d w)
       (\<lambda>(s, w). if \<not> io_ok s then Throws ''AddRecord failed'' else AddRecords app ds w)"

section \<open>The framing is the reference framing\<close>

definition wal_header :: "RecordType \<Rightarrow> nat \<Rightarrow> bytes" where
  "wal_header t n =
     [0, 0, 0, 0, word_of_nat (n AND 0xff), word_of_nat (drop_bit 8 n), word_of_nat (rt_code t)]"

definition frame_bytes :: "bytes \<Rightarrow> nat \<times> RecordType \<times> bytes \<Rightarrow> bytes" where
  "frame_bytes filler f = (case f of (skip, t, p) \<Rightarrow> take skip filler @ wal_header t (length p) @ p)"

text \<open>
  The trailer kernel runs in one thread and so clears one byte; the rest of a trailer is whatever the
  device buffer held. \<open>gwal_trailer\<close> is that filler; it does not change from one trailer to the next.
\<close>

definition gwal_trailer :: "'s GWALWriter \<Rightarrow> bytes" where
  "gwal_trailer w = (case gpu_trailer_buffer w of Some b \<Rightarrow> write_at b 0 [0] | None \<Rightarrow> [])"

definition gwal_ok :: "'s GWALWriter \<Rightarrow> bool" where
  "gwal_ok w \<longleftrightarrow>
     block_offset w \<le> kBlockSize \<and>
     (\<exists>b. gpu_header_buffer w = Some b \<and> length b = kRecyclableHeaderSize) \<and>
     (\<exists>b. gpu_trailer_buffer w = Some b \<and> length b = 16) \<and>
     (\<exists>b. gpu_temp_buffer w = Some b \<and> length b = kBlockSize) \<and>
     gpu_buffer_size w = kBlockSize \<and> cuda_copy_ok w \<and> cuda_sync_ok w"

lemma launch_trailer:
  "0 < n \<Longrightarrow> launch [] (fill_trailer_kernel n) 1 b = write_at b 0 [0]"
  by (simp add: launch_def fill_trailer_kernel_def)

lemma launch_header:
  "7 \<le> length b \<Longrightarrow>
     launch [] (format_record_header_kernel t n) 1 b = write_at b 0 (wal_header t n)"
  by (simp add: launch_def format_record_header_kernel_def wal_header_def write_at_consecutive)

lemma gwal_trailer_length: "gwal_ok w \<Longrightarrow> length (gwal_trailer w) = 16"
  by (auto simp: gwal_ok_def gwal_trailer_def)

lemma length_wal_header [simp]: "length (wal_header t n) = kHeaderSize"
  by (simp add: wal_header_def wal_sizes)

lemma fragment_type_range:
  "kNoChecksumFullType \<le> fragment_type f l \<and> fragment_type f l \<le> kNoChecksumLastType"
  by (simp add: fragment_type_def less_eq_RecordType_def)

context append_file begin

lemma switch_ok:
  assumes "gwal_ok w" and "ready (dest w)"
  shows "\<exists>w'. AddRecord_switch app w = Returns (io_OK, w') \<and> gwal_ok w' \<and> ready (dest w') \<and>
           logical (dest w') = logical (dest w) @ take (block_skip (block_offset w)) (gwal_trailer w) \<and>
           block_offset w' = block_start (block_offset w) \<and> gwal_trailer w' = gwal_trailer w"
proof -
  let ?l = "kBlockSize - block_offset w"
  have le: "\<not> kBlockSize < block_offset w" using assms(1) by (simp add: gwal_ok_def)
  obtain b where b: "gpu_trailer_buffer w = Some b" "length b = 16" "cuda_sync_ok w"
    using assms(1) by (auto simp: gwal_ok_def)
  show ?thesis
  proof (cases "?l < kHeaderSize \<and> 0 < ?l")
    case True
    obtain d where d: "app (dest w) (take ?l (write_at b 0 [0])) = Returns (io_OK, d)" "ready d"
      "logical d = logical (dest w) @ take ?l (write_at b 0 [0])"
      using append_obtain [OF assms(2)] .
    have "write_at (write_at b 0 [0]) 0 [0] = write_at b 0 [0]" using b(2) by (simp add: write_at_covered)
    then show ?thesis
      using True le b d assms(1)
      by (simp add: AddRecord_switch_def FillTrailerOnGPU_def launch_trailer [simplified] Let_def
          gwal_ok_def gwal_trailer_def block_skip_def block_start_def)
  next
    case False
    then show ?thesis
      using le assms
      by (auto simp: AddRecord_switch_def Let_def gwal_ok_def block_skip_def block_start_def gwal_trailer_def)
  qed
qed

lemma emit_ok:
  assumes "gwal_ok w" and "ready (dest w)"
    and "block_offset w + kHeaderSize + length p \<le> kBlockSize"
    and "kNoChecksumFullType \<le> t" "t \<le> kNoChecksumLastType"
  shows "\<exists>w'. EmitPhysicalRecordFromGPU app t p w = Returns (io_OK, w') \<and> gwal_ok w' \<and> ready (dest w') \<and>
           logical (dest w') = logical (dest w) @ wal_header t (length p) @ p \<and>
           block_offset w' = block_offset w + kHeaderSize + length p \<and> gwal_trailer w' = gwal_trailer w"
proof -
  obtain h tmp where b: "gpu_header_buffer w = Some h" "length h = kRecyclableHeaderSize"
    "gpu_temp_buffer w = Some tmp" "length tmp = kBlockSize" "gpu_buffer_size w = kBlockSize"
    "cuda_copy_ok w" "cuda_sync_ok w"
    using assms(1) by (auto simp: gwal_ok_def)
  let ?h = "wal_header t (length p)"
  have head: "take kHeaderSize (write_at h 0 ?h) = ?h" by (simp add: write_at_def)
  have whole: "write_at (write_at tmp 0 ?h) kHeaderSize p = write_at tmp 0 (?h @ p)"
    using assms(3) b(4) by (simp add: write_at_consecutive)
  have tmp: "take (kHeaderSize + length p) (write_at tmp 0 (?h @ p)) = ?h @ p"
    by (simp add: write_at_def)
  obtain d where d: "app (dest w) (?h @ p) = Returns (io_OK, d)" "ready d"
    "logical d = logical (dest w) @ ?h @ p"
    using append_obtain [OF assms(2)] .
  have "\<not> 65535 < length p" "kHeaderSize + length p \<le> kBlockSize" "7 \<le> length h"
    "length (write_at h 0 ?h) = kRecyclableHeaderSize"
    using assms(3) b(2) by (simp_all add: wal_sizes)
  then show ?thesis
    using assms b d
    by (simp add: EmitPhysicalRecordFromGPU_def FormatRecordHeaderOnGPU_def Let_def launch_header [simplified]
        head whole tmp gwal_ok_def gwal_trailer_def)
qed

lemma round_ok:
  assumes "gwal_ok w" and "ready (dest w)"
    and n: "n = min (length data) (block_avail (block_offset w))"
  shows "\<exists>w'. AddRecord_round app first data w = Returns (io_OK, n, w') \<and> gwal_ok w' \<and> ready (dest w') \<and>
           logical (dest w') = logical (dest w) @ frame_bytes (gwal_trailer w)
             (block_skip (block_offset w), fragment_type first (length data = n), take n data) \<and>
           block_offset w' = block_start (block_offset w) + kHeaderSize + n \<and>
           gwal_trailer w' = gwal_trailer w"
proof -
  obtain w1 where w1: "AddRecord_switch app w = Returns (io_OK, w1)" "gwal_ok w1" "ready (dest w1)"
    "logical (dest w1) = logical (dest w) @ take (block_skip (block_offset w)) (gwal_trailer w)"
    "block_offset w1 = block_start (block_offset w)" "gwal_trailer w1 = gwal_trailer w"
    using switch_ok [OF assms(1,2)] by blast
  have fits: "block_offset w1 + kHeaderSize + length (take n data) \<le> kBlockSize"
    using n w1(5) block_start_bound [of "block_offset w"] by (simp add: block_avail_def)
  let ?t = "fragment_type first (length data = n)"
  obtain w2 where "EmitPhysicalRecordFromGPU app ?t (take n data) w1 = Returns (io_OK, w2)"
    "gwal_ok w2" "ready (dest w2)"
    "logical (dest w2) = logical (dest w1) @ wal_header ?t (length (take n data)) @ take n data"
    "block_offset w2 = block_offset w1 + kHeaderSize + length (take n data)"
    "gwal_trailer w2 = gwal_trailer w1"
    using emit_ok [OF w1(2,3) fits] fragment_type_range [of first "length data = n"] by blast
  moreover have "kBlockSize - (block_offset w1 + kHeaderSize) = block_avail (block_offset w)"
    by (simp add: w1(5) block_avail_def)
  moreover have "(if length data < block_avail (block_offset w) then length data
                  else block_avail (block_offset w)) = n"
    using n by simp
  moreover have "length (take n data) = n" using n by simp
  ultimately show ?thesis
    using w1
    by (cases "length data < block_avail (block_offset w)")
      (simp_all add: AddRecord_round_def Let_def fragment_type_def [symmetric] frame_bytes_def)
qed

lemma loop_ok:
  assumes "gwal_ok w" and "ready (dest w)"
  shows "\<exists>w'. AddRecord_loop app first data w = Returns (io_OK, w') \<and> gwal_ok w' \<and> ready (dest w') \<and>
           logical (dest w') = logical (dest w) @
             concat (map (frame_bytes (gwal_trailer w)) (wal_fragments (block_offset w) first data)) \<and>
           block_offset w' = frags_end (block_offset w) (wal_fragments (block_offset w) first data) \<and>
           gwal_trailer w' = gwal_trailer w"
  using assms
proof (induction "block_offset w" first data arbitrary: w rule: wal_fragments.induct)
  case (1 first data)
  define n where "n = min (length data) (block_avail (block_offset w))"
  obtain w1 where w1: "AddRecord_round app first data w = Returns (io_OK, n, w1)" "gwal_ok w1" "ready (dest w1)"
    "logical (dest w1) = logical (dest w) @ frame_bytes (gwal_trailer w)
       (block_skip (block_offset w), fragment_type first (length data = n), take n data)"
    "block_offset w1 = block_start (block_offset w) + kHeaderSize + n"
    "gwal_trailer w1 = gwal_trailer w"
    using round_ok [OF "1.prems" n_def] by blast
  have len: "length (take n data) = n" by (simp add: n_def)
  show ?case
  proof (cases "0 < length data - n")
    case True
    obtain w2 where "AddRecord_loop app False (drop n data) w1 = Returns (io_OK, w2)"
      "gwal_ok w2" "ready (dest w2)"
      "logical (dest w2) = logical (dest w1) @ concat (map (frame_bytes (gwal_trailer w1))
         (wal_fragments (block_offset w1) False (drop n data)))"
      "block_offset w2 = frags_end (block_offset w1) (wal_fragments (block_offset w1) False (drop n data))"
      "gwal_trailer w2 = gwal_trailer w1"
      using "1.hyps" [OF n_def refl, of w1] True w1 by auto
    then show ?thesis
      using True w1 len
      by (subst AddRecord_loop.simps) (simp add: wal_fragments_step [OF n_def])
  next
    case False
    then show ?thesis
      using w1 len
      by (subst AddRecord_loop.simps) (simp add: wal_fragments_step [OF n_def])
  qed
qed

lemma add_records_ok:
  assumes "gwal_ok w" and "ready (dest w)"
  shows "\<exists>w'. AddRecords app ds w = Returns w' \<and> gwal_ok w' \<and> ready (dest w') \<and>
           logical (dest w') = logical (dest w) @
             concat (map (frame_bytes (gwal_trailer w)) (log_fragments (block_offset w) ds)) \<and>
           gwal_trailer w' = gwal_trailer w"
  using assms
proof (induction ds arbitrary: w)
  case (Cons d ds)
  obtain w1 where "AddRecord_loop app True d w = Returns (io_OK, w1)" "gwal_ok w1" "ready (dest w1)"
    "logical (dest w1) = logical (dest w) @
       concat (map (frame_bytes (gwal_trailer w)) (wal_fragments (block_offset w) True d))"
    "block_offset w1 = frags_end (block_offset w) (wal_fragments (block_offset w) True d)"
    "gwal_trailer w1 = gwal_trailer w"
    using loop_ok [OF Cons.prems] by blast
  then show ?case using Cons.IH [of w1] by (auto simp: AddRecord_def)
qed simp

end

end
