(* ===== verification/GWAL_Paths.thy ===== *)
theory GWAL_Paths
  imports GWAL_Writer
begin

text \<open>
  Construction and naming of the GPU log writer: the constructor with its path clean-up and buffer
  allocation, the comparison of relative paths, the log number in a file name, and the search for the
  newest log file of a database directory (\<^verbatim>\<open>gds/gwal_writer.cuh\<close>, \<^verbatim>\<open>gds/gwal_writer.cu\<close>).
  The string functions of the standard library the code uses (\<^verbatim>\<open>std::string::find\<close>,
  \<^verbatim>\<open>std::stoull\<close>, \<^verbatim>\<open>std::filesystem::path\<close>) are modelled here; a directory is the list of its
  entries.
\<close>

section \<open>Strings and paths of the standard library\<close>

fun find_sub :: "string \<Rightarrow> string \<Rightarrow> nat option" where
  "find_sub pat [] = (if pat = [] then Some 0 else None)"
| "find_sub pat (c # s) =
     (if take (length pat) (c # s) = pat then Some 0 else map_option Suc (find_sub pat s))"

definition is_digit :: "char \<Rightarrow> bool" where
  "is_digit c \<longleftrightarrow> 48 \<le> (of_char c :: nat) \<and> (of_char c :: nat) \<le> 57"

definition is_space :: "char \<Rightarrow> bool" where
  "is_space c \<longleftrightarrow> (of_char c :: nat) = 32 \<or> (9 \<le> (of_char c :: nat) \<and> (of_char c :: nat) \<le> 13)"

definition digits_value :: "string \<Rightarrow> nat" where
  "digits_value ds = foldl (\<lambda>v c. 10 * v + (of_char c - 48)) 0 ds"

definition stoull :: "string \<Rightarrow> nat option" where
  "stoull s =
     (let s = dropWhile is_space s;
          neg = (s \<noteq> [] \<and> hd s = CHR ''-'');
          s = (if s \<noteq> [] \<and> (hd s = CHR ''-'' \<or> hd s = CHR ''+'') then tl s else s);
          ds = takeWhile is_digit s;
          v = digits_value ds
      in if ds = [] \<or> v \<ge> 2 ^ 64 then None
         else Some (if neg then (2 ^ 64 - v) mod 2 ^ 64 else v))"

definition path_filename :: "string \<Rightarrow> string" where
  "path_filename p = rev (takeWhile (\<lambda>c. c \<noteq> CHR ''/'') (rev p))"

definition path_append :: "string \<Rightarrow> string \<Rightarrow> string" where
  "path_append a b =
     (if b \<noteq> [] \<and> hd b = CHR ''/'' then b
      else if a = [] \<or> last a = CHR ''/'' then a @ b
      else a @ ''/'' @ b)"

definition path_extension :: "string \<Rightarrow> string" where
  "path_extension p =
     (let f = path_filename p;
          ext = rev (takeWhile (\<lambda>c. c \<noteq> CHR ''.'') (rev f))
      in if f = ''.'' \<or> f = ''..'' \<or> length ext + 1 \<ge> length f then [] else CHR ''.'' # ext)"

section \<open>Construction\<close>

record gwal_env =
  malloc_header :: "bytes option"
  malloc_trailer :: "bytes option"
  malloc_temp :: "bytes option"

definition InitializeGPUBuffers :: "gwal_env \<Rightarrow> 's GWALWriter \<Rightarrow> IOStatus \<times> 's GWALWriter" where
  "InitializeGPUBuffers env w =
     (case malloc_header env of
        None \<Rightarrow> (io_CudaError ''Failed to allocate GPU header buffer'', w)
      | Some h \<Rightarrow>
          (case malloc_trailer env of
             None \<Rightarrow> (io_CudaError ''Failed to allocate GPU trailer buffer'', w)
           | Some t \<Rightarrow>
               (case malloc_temp env of
                  None \<Rightarrow> (io_CudaError ''Failed to allocate GPU temp buffer'', w)
                | Some tmp \<Rightarrow>
                    (io_OK, w\<lparr>gpu_header_buffer := Some h, gpu_trailer_buffer := Some t,
                              gpu_temp_buffer := Some tmp, gpu_buffer_size := kBlockSize\<rparr>))))"

text \<open>
  \<open>open_dest\<close> is the construction of the \<open>GDSFileSystem\<close> for a file name; it may end the process.
  The status of \<open>InitializeGPUBuffers\<close> is not looked at.
\<close>

definition new_GWALWriter ::
  "(string \<Rightarrow> 's outcome) \<Rightarrow> gwal_env \<Rightarrow> bool \<Rightarrow> bool \<Rightarrow> string \<Rightarrow> string \<Rightarrow> 's GWALWriter outcome" where
  "new_GWALWriter open_dest env copy_ok sync_ok rel db =
     (if rel = [] then Throws ''Relative path is empty''
      else
        let rel = (if hd rel = CHR ''/'' then tl rel else rel);
            fname = path_append db rel
        in bind_outcome (open_dest fname)
             (\<lambda>d. Returns (snd (InitializeGPUBuffers env
                \<lparr>relative_path = rel, db_path = db, wal_filename = fname, block_offset = 0, dest = d,
                 gpu_header_buffer = None, gpu_trailer_buffer = None, gpu_temp_buffer = None,
                 gpu_buffer_size = 0, cuda_copy_ok = copy_ok, cuda_sync_ok = sync_ok\<rparr>))))"

definition CleanupGPUBuffers :: "'s GWALWriter \<Rightarrow> 's GWALWriter" where
  "CleanupGPUBuffers w =
     w\<lparr>gpu_header_buffer := None, gpu_trailer_buffer := None, gpu_temp_buffer := None, gpu_buffer_size := 0\<rparr>"

text \<open>The destructor releases the buffers and closes the file; what is left is the closed file.\<close>

definition delete_GWALWriter :: "('s \<Rightarrow> 's) \<Rightarrow> 's GWALWriter \<Rightarrow> 's" where
  "delete_GWALWriter delete_dest w = delete_dest (dest (CleanupGPUBuffers w))"

definition IsWALRelativePathEqual :: "string \<Rightarrow> 's GWALWriter \<Rightarrow> bool" where
  "IsWALRelativePathEqual path w \<longleftrightarrow>
     (if path \<noteq> [] \<and> hd path = CHR ''/'' then tl path else path) = relative_path w"

definition GetWALNumber :: "'s GWALWriter \<Rightarrow> nat outcome" where
  "GetWALNumber w =
     (let filename = path_filename (wal_filename w)
      in case stoull (case find_sub ''.log'' filename of Some i \<Rightarrow> take i filename | None \<Rightarrow> filename) of
           Some n \<Rightarrow> Returns n
         | None \<Rightarrow> Throws ''stoull'')"

section \<open>The newest log file\<close>

fun string_less :: "string \<Rightarrow> string \<Rightarrow> bool" where
  "string_less [] [] = False"
| "string_less [] (d # t) = True"
| "string_less (c # s) [] = False"
| "string_less (c # s) (d # t) =
     ((of_char c :: nat) < of_char d \<or> (c = d \<and> string_less s t))"

definition wal_less :: "string \<Rightarrow> string \<Rightarrow> bool" where
  "wal_less a b =
     (let filename_a = path_filename a; filename_b = path_filename b
      in case (find_sub ''.log'' filename_a, find_sub ''.log'' filename_b) of
           (Some i, Some j) \<Rightarrow>
             (case (stoull (take i filename_a), stoull (take j filename_b)) of
                (Some m, Some n) \<Rightarrow> m < n
              | _ \<Rightarrow> string_less filename_a filename_b)
         | _ \<Rightarrow> string_less filename_a filename_b)"

text \<open>\<^verbatim>\<open>std::sort\<close> with a comparison: insertion sort, stable where the comparison leaves a choice.\<close>

fun insert_with :: "('a \<Rightarrow> 'a \<Rightarrow> bool) \<Rightarrow> 'a \<Rightarrow> 'a list \<Rightarrow> 'a list" where
  "insert_with lt x [] = [x]"
| "insert_with lt x (y # ys) = (if lt y x then y # insert_with lt x ys else x # y # ys)"

definition sort_with :: "('a \<Rightarrow> 'a \<Rightarrow> bool) \<Rightarrow> 'a list \<Rightarrow> 'a list" where
  "sort_with lt xs = foldr (insert_with lt) xs []"

definition GetWALPathName :: "(string \<times> bool) list \<Rightarrow> string outcome" where
  "GetWALPathName entries =
     (let log_files = map fst (filter (\<lambda>(path, is_regular). is_regular \<and> path_extension path = ''.log'') entries)
      in if log_files \<noteq> [] then Returns (last (sort_with wal_less log_files))
         else Throws ''No .log files found'')"

section \<open>Facts\<close>

lemma new_GWALWriter_result:
  assumes "rel \<noteq> []" and "open_dest (path_append db (if hd rel = CHR ''/'' then tl rel else rel)) = Returns d"
    and "malloc_header env = Some h" "malloc_trailer env = Some t" "malloc_temp env = Some tmp"
    and "length h = kRecyclableHeaderSize" "length t = 16" "length tmp = kBlockSize"
  shows "\<exists>w. new_GWALWriter open_dest env True True rel db = Returns w \<and> gwal_ok w \<and> dest w = d \<and>
             block_offset w = 0 \<and> relative_path w = (if hd rel = CHR ''/'' then tl rel else rel)"
  using assms by (simp add: new_GWALWriter_def InitializeGPUBuffers_def gwal_ok_def Let_def)

lemma set_insert_with [simp]: "set (insert_with lt x ys) = insert x (set ys)"
  by (induction ys) auto

lemma set_sort_with [simp]: "set (sort_with lt xs) = set xs"
  by (induction xs) (auto simp: sort_with_def)

lemma sorted_insert_with:
  assumes "\<And>y. y \<in> set ys \<Longrightarrow> lt y x \<longleftrightarrow> key y < (key x :: nat)" and "sorted (map key ys)"
  shows "sorted (map key (insert_with lt x ys))"
  using assms by (induction ys) (auto simp: not_less intro: order_trans less_imp_le)

lemma sorted_sort_with:
  assumes "\<And>x y. x \<in> set xs \<Longrightarrow> y \<in> set xs \<Longrightarrow> lt y x \<longleftrightarrow> key y < (key x :: nat)"
  shows "sorted (map key (sort_with lt xs))"
  using assms
proof (induction xs)
  case (Cons x xs)
  have "sorted (map key (foldr (insert_with lt) xs []))" using Cons by (simp add: sort_with_def)
  moreover have "set (foldr (insert_with lt) xs []) = set xs"
    using set_sort_with [of lt xs] by (simp add: sort_with_def)
  ultimately show ?case using Cons.prems by (auto simp: sort_with_def intro!: sorted_insert_with)
qed (simp add: sort_with_def)

definition wal_number :: "string \<Rightarrow> nat option" where
  "wal_number p =
     (case find_sub ''.log'' (path_filename p) of
        Some i \<Rightarrow> stoull (take i (path_filename p))
      | None \<Rightarrow> None)"

lemma wal_less_numeric:
  "wal_number a = Some m \<Longrightarrow> wal_number b = Some n \<Longrightarrow> wal_less a b \<longleftrightarrow> m < n"
  by (auto simp: wal_number_def wal_less_def Let_def split: option.splits)

lemma sorted_last_max:
  assumes "sorted (map key xs)" and "x \<in> set xs"
  shows "key x \<le> (key (last xs) :: nat)"
  using assms by (induction xs) (auto dest: last_in_set)

section \<open>Properties\<close>

text \<open>
  C36: in a directory whose log files all have numeric names, \<open>GetWALPathName\<close> returns one of them with
  the largest number, compared as numbers and not as strings.
\<close>

theorem GetWALPathName_newest:
  assumes "logs = {p. (p, True) \<in> set entries \<and> path_extension p = ''.log''}" and "logs \<noteq> {}"
    and "\<And>p. p \<in> logs \<Longrightarrow> wal_number p \<noteq> None"
  shows "\<exists>p. GetWALPathName entries = Returns p \<and> p \<in> logs \<and>
             (\<forall>q \<in> logs. the (wal_number q) \<le> the (wal_number p))"
proof -
  let ?fs = "map fst (filter (\<lambda>(path, is_regular). is_regular \<and> path_extension path = ''.log'') entries)"
  have fs: "set ?fs = logs" using assms(1) by force
  then have ne: "?fs \<noteq> []" using assms(2) by force
  let ?s = "sort_with wal_less ?fs"
  have "sorted (map (\<lambda>p. the (wal_number p)) ?s)"
  proof (rule sorted_sort_with)
    fix x y assume "x \<in> set ?fs" "y \<in> set ?fs"
    then have "wal_number x \<noteq> None" "wal_number y \<noteq> None" using fs assms(3) by blast+
    then show "wal_less y x \<longleftrightarrow> the (wal_number y) < the (wal_number x)"
      using wal_less_numeric by auto
  qed
  then have max: "the (wal_number q) \<le> the (wal_number (last ?s))" if "q \<in> logs" for q
    using sorted_last_max [of "\<lambda>p. the (wal_number p)" ?s q] that fs by simp
  have "?s \<noteq> []" using ne by (metis set_empty set_sort_with)
  then have "last ?s \<in> logs" using fs last_in_set set_sort_with by metis
  moreover have "GetWALPathName entries = Returns (last ?s)" using ne by (simp add: GetWALPathName_def)
  ultimately show ?thesis using max by blast
qed

theorem GetWALPathName_newest_witness:
  "\<exists>p. GetWALPathName [(''/db/9.log'', True), (''/db/LOCK'', True), (''/db/10.log'', True)] = Returns p \<and>
     p \<in> {''/db/9.log'', ''/db/10.log''} \<and>
     (\<forall>q \<in> {''/db/9.log'', ''/db/10.log''}. the (wal_number q) \<le> the (wal_number p))"
proof -
  have e: "path_extension ''/db/9.log'' = ''.log''" "path_extension ''/db/10.log'' = ''.log''"
    "path_extension ''/db/LOCK'' = []"
    "wal_number ''/db/9.log'' = Some 9" "wal_number ''/db/10.log'' = Some 10"
    by (simp_all add: path_extension_def path_filename_def wal_number_def stoull_def is_digit_def
        is_space_def digits_value_def Let_def)
  have l: "{''/db/9.log'', ''/db/10.log''} =
      {p. (p, True) \<in> set [(''/db/9.log'', True), (''/db/LOCK'', True), (''/db/10.log'', True)] \<and>
          path_extension p = ''.log''}"
    using e by auto
  show ?thesis by (rule GetWALPathName_newest [OF l]) (use e in auto)
qed

end
