(* ===== verification/MLKV_Coding.thy ===== *)
theory MLKV_Coding
  imports MLKV_Prelude
begin

text \<open>
  The byte encodings of the GPU code: fixed-width little-endian integers and varints as the write batch
  generator emits them (\<^verbatim>\<open>gds/write_batch_generator.cuh\<close>), and the decoders of the block
  iterator (\<^verbatim>\<open>gds/gds_block.cu\<close>, namespace \<open>device\<close>). An encoder returns the bytes it
  stores at its destination pointer; a decoder that may fail takes the bytes between its pointer and its
  limit and returns the value with the bytes that are left, or \<open>None\<close> for the null pointer.
  The locale \<open>codec\<close> is the contract both directions share; the record and entry formats are proved
  against it and it is interpreted for every pair of encoder and decoder.
\<close>

section \<open>Encoders\<close>

definition PutFixed32 :: "u32 \<Rightarrow> bytes" where
  "PutFixed32 value =
     [ucast (value AND 0xff),
      ucast (drop_bit 8 value AND 0xff),
      ucast (drop_bit 16 value AND 0xff),
      ucast (drop_bit 24 value AND 0xff)]"

definition PutFixed64 :: "u64 \<Rightarrow> bytes" where
  "PutFixed64 value =
     [ucast (value AND 0xff),
      ucast (drop_bit 8 value AND 0xff),
      ucast (drop_bit 16 value AND 0xff),
      ucast (drop_bit 24 value AND 0xff),
      ucast (drop_bit 32 value AND 0xff),
      ucast (drop_bit 40 value AND 0xff),
      ucast (drop_bit 48 value AND 0xff),
      ucast (drop_bit 56 value AND 0xff)]"

definition PutVarint32 :: "u32 \<Rightarrow> bytes" where
  "PutVarint32 value =
     (let B = 128 in
      if value < push_bit 7 1 then [ucast value]
      else if value < push_bit 14 1 then
        [ucast (value OR B), ucast (drop_bit 7 value)]
      else if value < push_bit 21 1 then
        [ucast (value OR B), ucast (drop_bit 7 value OR B), ucast (drop_bit 14 value)]
      else if value < push_bit 28 1 then
        [ucast (value OR B), ucast (drop_bit 7 value OR B), ucast (drop_bit 14 value OR B),
         ucast (drop_bit 21 value)]
      else
        [ucast (value OR B), ucast (drop_bit 7 value OR B), ucast (drop_bit 14 value OR B),
         ucast (drop_bit 21 value OR B), ucast (drop_bit 28 value)])"

definition PutLengthPrefixedSlice :: "bytes \<Rightarrow> bytes" where
  "PutLengthPrefixedSlice data = PutVarint32 (word_of_nat (length data)) @ data"

section \<open>Decoders\<close>

definition DecodeFixed32 :: "bytes \<Rightarrow> u32" where
  "DecodeFixed32 p =
     ucast (p ! 0) OR push_bit 8 (ucast (p ! 1)) OR push_bit 16 (ucast (p ! 2)) OR
     push_bit 24 (ucast (p ! 3))"

definition DeviceDecodeFixed64 :: "bytes \<Rightarrow> u64" where
  "DeviceDecodeFixed64 p =
     ucast (p ! 0) OR push_bit 8 (ucast (p ! 1)) OR push_bit 16 (ucast (p ! 2)) OR
     push_bit 24 (ucast (p ! 3)) OR push_bit 32 (ucast (p ! 4)) OR push_bit 40 (ucast (p ! 5)) OR
     push_bit 48 (ucast (p ! 6)) OR push_bit 56 (ucast (p ! 7))"

fun GetVarint32Ptr_loop :: "nat \<Rightarrow> u32 \<Rightarrow> bytes \<Rightarrow> (u32 \<times> bytes) option" where
  "GetVarint32Ptr_loop shift result [] = None"
| "GetVarint32Ptr_loop shift result (c # p) =
     (if shift \<le> 28
      then let byte = ucast c :: u32 in
           if byte AND 128 \<noteq> 0
           then GetVarint32Ptr_loop (shift + 7) (result OR push_bit shift (byte AND 127)) p
           else Some (result OR push_bit shift byte, p)
      else None)"

definition GetVarint32Ptr :: "bytes \<Rightarrow> (u32 \<times> bytes) option" where
  "GetVarint32Ptr p = GetVarint32Ptr_loop 0 0 p"

text \<open>
  \<open>DecodeEntry\<close> reads the three lengths in front of a block entry. The final comparison is the
  code's: both sides are 32-bit, and the sum of the two lengths wraps around.
\<close>

definition DecodeEntry :: "bytes \<Rightarrow> (u32 \<times> u32 \<times> u32 \<times> bytes) option" where
  "DecodeEntry p =
     (if length p < 3 then None
      else
        let shared = ucast (p ! 0) :: u32; non_shared = ucast (p ! 1) :: u32;
            value_length = ucast (p ! 2) :: u32;
            lengths =
              (if shared OR non_shared OR value_length < 128
               then Some (shared, non_shared, value_length, drop 3 p)
               else case GetVarint32Ptr p of None \<Rightarrow> None
                 | Some (shared, p) \<Rightarrow> (case GetVarint32Ptr p of None \<Rightarrow> None
                 | Some (non_shared, p) \<Rightarrow> (case GetVarint32Ptr p of None \<Rightarrow> None
                 | Some (value_length, p) \<Rightarrow> Some (shared, non_shared, value_length, p))))
        in case lengths of None \<Rightarrow> None
           | Some (shared, non_shared, value_length, p) \<Rightarrow>
               if word_of_nat (length p) < non_shared + value_length then None
               else Some (shared, non_shared, value_length, p))"

section \<open>Fixed-width integers\<close>

lemma length_PutFixed [simp, coding_simps]:
  "length (PutFixed32 v) = 4" "length (PutFixed64 w) = 8"
  by (simp_all add: PutFixed32_def PutFixed64_def)

lemma and_0xff: "(x :: 'a::len word) AND 0xff = take_bit 8 x"
  by (simp add: take_bit_eq_mask mask_eq_exp_minus_1)

lemma byte_of_word32: "(ucast (ucast (take_bit 8 (x :: u32)) :: byte) :: u32) = take_bit 8 x"
  by (rule bit_word_eqI) (auto simp: bit_simps)

lemma byte_of_word64: "(ucast (ucast (take_bit 8 (x :: u64)) :: byte) :: u64) = take_bit 8 x"
  by (rule bit_word_eqI) (auto simp: bit_simps)

lemma DecodeFixed32_PutFixed32 [simp]: "DecodeFixed32 (PutFixed32 v @ rest) = v"
proof (rule bit_word_eqI)
  fix n assume "n < LENGTH(32)"
  then consider "n < 8" | "8 \<le> n" "n < 16" | "16 \<le> n" "n < 24" | "24 \<le> n" "n < 32"
    by fastforce
  then show "bit (DecodeFixed32 (PutFixed32 v @ rest)) n = bit v n"
    by cases (auto simp: DecodeFixed32_def PutFixed32_def and_0xff byte_of_word32 bit_simps)
qed

lemma DeviceDecodeFixed64_PutFixed64 [simp]: "DeviceDecodeFixed64 (PutFixed64 v @ rest) = v"
proof (rule bit_word_eqI)
  fix n assume "n < LENGTH(64)"
  then consider "n < 8" | "8 \<le> n" "n < 16" | "16 \<le> n" "n < 24" | "24 \<le> n" "n < 32"
    | "32 \<le> n" "n < 40" | "40 \<le> n" "n < 48" | "48 \<le> n" "n < 56" | "56 \<le> n" "n < 64"
    by fastforce
  then show "bit (DeviceDecodeFixed64 (PutFixed64 v @ rest)) n = bit v n"
    by cases (auto simp: DeviceDecodeFixed64_def PutFixed64_def and_0xff byte_of_word64 bit_simps)
qed

section \<open>Varints\<close>

lemma less_exp_iff_take_bit:
  assumes "k < LENGTH('a)"
  shows "(x :: 'a::len word) < 2 ^ k \<longleftrightarrow> take_bit k x = x"
proof -
  have "unat (2 ^ k :: 'a word) = 2 ^ k" using unat_of_nat [of "2 ^ k", where 'a = 'a] assms by simp
  then show ?thesis
    by (simp add: word_less_nat_alt word_unat_eq_iff unsigned_take_bit_eq take_bit_nat_eq_self_iff)
qed

lemma drop_bit_less:
  assumes "(x :: 'a::len word) < 2 ^ (j + k)" and "j + k < LENGTH('a)"
  shows "drop_bit j x < 2 ^ k"
  using assms less_exp_iff_take_bit [of "j + k" x] less_exp_iff_take_bit [of k "drop_bit j x"]
  by (metis add.commute add_diff_cancel_left' add_lessD1 drop_bit_take_bit)

lemma bit_128 [simp]: "bit (128 :: u32) n \<longleftrightarrow> n = 7"
  using bit_exp_iff [of 7 n, where 'a = u32] by (auto simp: possible_bit_def)

lemma bit_128_byte [simp]: "bit (128 :: byte) n \<longleftrightarrow> n = 7"
  using bit_exp_iff [of 7 n, where 'a = byte] by (auto simp: possible_bit_def)

lemma bit_128_nat [simp]: "bit (128 :: nat) n \<longleftrightarrow> n = 7"
  using bit_exp_iff [of 7 n, where 'a = nat] by (auto simp: possible_bit_def)

lemma bit_128_int [simp]: "bit (128 :: int) n \<longleftrightarrow> n = 7"
  using bit_exp_iff [of 7 n, where 'a = int] by (auto simp: possible_bit_def)

lemma loop_continue:
  assumes "shift \<le> 28"
  shows "GetVarint32Ptr_loop shift r (ucast (x OR 128) # p) =
         GetVarint32Ptr_loop (shift + 7) (r OR push_bit shift (take_bit 7 x)) p"
proof -
  have hi: "(ucast (ucast (x OR 128) :: byte) :: u32) AND 128 \<noteq> 0"
  proof -
    have "bit ((ucast (ucast (x OR 128) :: byte) :: u32) AND 128) 7"
      by (simp add: bit_simps)
    then show ?thesis by auto
  qed
  have m: "(127 :: u32) = mask 7" by (simp add: mask_eq_exp_minus_1)
  have lo: "(ucast (ucast (x OR 128) :: byte) :: u32) AND 127 = take_bit 7 x"
    unfolding m take_bit_eq_mask [symmetric]
    by (rule bit_word_eqI) (auto simp: bit_simps)
  show ?thesis using assms hi lo by (simp add: Let_def)
qed

lemma loop_final:
  assumes "shift \<le> 28" and "x < 128"
  shows "GetVarint32Ptr_loop shift r (ucast x # p) = Some (r OR push_bit shift x, p)"
proof -
  have x: "take_bit 7 x = x" using less_exp_iff_take_bit [of 7 x] assms(2) by simp
  have "(ucast (ucast x :: byte) :: u32) = x"
    by (subst (1 2) x [symmetric]) (rule bit_word_eqI, auto simp: bit_simps)
  moreover have "x AND 128 = 0"
    by (subst x [symmetric]) (rule bit_word_eqI, auto simp: bit_simps)
  ultimately show ?thesis using assms(1) by (simp add: Let_def)
qed

text \<open>Seven-bit groups put together again.\<close>

lemma join_group:
  "r = take_bit k v \<Longrightarrow> r OR push_bit k (take_bit 7 (drop_bit k v)) = take_bit (k + 7) (v :: u32)"
  by (rule bit_word_eqI) (auto simp: bit_simps)

lemma join_last:
  assumes "r = take_bit k (v :: u32)"
  shows "r OR push_bit k (drop_bit k v) = v"
proof (rule bit_word_eqI)
  fix n assume "n < LENGTH(32)"
  then show "bit (r OR push_bit k (drop_bit k v)) n = bit v n"
    using assms by (cases "n < k") (auto simp: bit_simps)
qed

lemma drop_bit_28_less: "drop_bit 28 (v :: u32) < 128"
proof -
  have "take_bit 7 (drop_bit 28 v) = drop_bit 28 v"
    by (rule bit_word_eqI) (auto simp: bit_simps dest: bit_imp_le_length)
  then show ?thesis using less_exp_iff_take_bit [of 7 "drop_bit 28 v"] by simp
qed

lemma GetVarint32Ptr_PutVarint32 [simp]: "GetVarint32Ptr (PutVarint32 v @ rest) = Some (v, rest)"
proof -
  have g: "take_bit 7 v OR push_bit 7 (take_bit 7 (drop_bit 7 v)) = take_bit 14 v"
    "take_bit 14 v OR push_bit 14 (take_bit 7 (drop_bit 14 v)) = take_bit 21 v"
    "take_bit 21 v OR push_bit 21 (take_bit 7 (drop_bit 21 v)) = take_bit 28 v"
    using join_group [of _ 7 v] join_group [of _ 14 v] join_group [of _ 21 v] by simp_all
  have l: "v < 2 ^ 14 \<Longrightarrow> drop_bit 7 v < 128" "v < 2 ^ 21 \<Longrightarrow> drop_bit 14 v < 128"
    "v < 2 ^ 28 \<Longrightarrow> drop_bit 21 v < 128"
    using drop_bit_less [of v 7 7] drop_bit_less [of v 14 7] drop_bit_less [of v 21 7] by simp_all
  show ?thesis
    unfolding GetVarint32Ptr_def PutVarint32_def Let_def
    using l drop_bit_28_less [of v]
    by (simp add: loop_continue loop_final g join_last del: GetVarint32Ptr_loop.simps)
qed

lemma length_PutVarint32:
  "length (PutVarint32 v) =
     (if unat v < 2 ^ 7 then 1 else if unat v < 2 ^ 14 then 2 else if unat v < 2 ^ 21 then 3
      else if unat v < 2 ^ 28 then 4 else 5)"
  by (simp add: PutVarint32_def Let_def word_less_nat_alt)

lemma PutVarint32_bounds: "1 \<le> length (PutVarint32 v)" "length (PutVarint32 v) \<le> 5"
  by (simp_all add: length_PutVarint32)

section \<open>The contract of an encoding\<close>

text \<open>
  Decoding after encoding gives the value and leaves what follows untouched. On the values the encoding
  covers this makes it prefix free, and a sequence of encoded values decodes one by one.
\<close>

primrec decode_seq :: "(bytes \<Rightarrow> ('v \<times> bytes) option) \<Rightarrow> nat \<Rightarrow> bytes \<Rightarrow> ('v list \<times> bytes) option" where
  "decode_seq dec 0 p = Some ([], p)"
| "decode_seq dec (Suc n) p =
     (case dec p of None \<Rightarrow> None
      | Some (v, p) \<Rightarrow> (case decode_seq dec n p of None \<Rightarrow> None | Some (vs, p) \<Rightarrow> Some (v # vs, p)))"

locale codec =
  fixes ok :: "'v \<Rightarrow> bool" and enc :: "'v \<Rightarrow> bytes" and dec :: "bytes \<Rightarrow> ('v \<times> bytes) option"
  assumes dec_enc: "ok v \<Longrightarrow> dec (enc v @ rest) = Some (v, rest)"
begin

lemma enc_prefix_free:
  assumes "ok v" "ok w" "enc v @ r = enc w @ s"
  shows "v = w \<and> r = s"
  by (metis assms dec_enc option.inject prod.inject)

lemma decode_seq_enc:
  "list_all ok vs \<Longrightarrow>
     decode_seq dec (length vs) (concat (map enc vs) @ rest) = Some (vs, rest)"
  by (induction vs) (auto simp: dec_enc)

end

definition GetFixed32 :: "bytes \<Rightarrow> (u32 \<times> bytes) option" where
  "GetFixed32 p = (if length p < 4 then None else Some (DecodeFixed32 p, drop 4 p))"

definition GetFixed64 :: "bytes \<Rightarrow> (u64 \<times> bytes) option" where
  "GetFixed64 p = (if length p < 8 then None else Some (DeviceDecodeFixed64 p, drop 8 p))"

definition GetLengthPrefixedSlice :: "bytes \<Rightarrow> (bytes \<times> bytes) option" where
  "GetLengthPrefixedSlice p =
     (case GetVarint32Ptr p of None \<Rightarrow> None
      | Some (len, p) \<Rightarrow> if unat len \<le> length p then Some (take (unat len) p, drop (unat len) p) else None)"

interpretation fixed32: codec "\<lambda>_. True" PutFixed32 GetFixed32
  by unfold_locales (simp add: GetFixed32_def)

interpretation fixed64: codec "\<lambda>_. True" PutFixed64 GetFixed64
  by unfold_locales (simp add: GetFixed64_def)

interpretation varint32: codec "\<lambda>_. True" PutVarint32 GetVarint32Ptr
  by unfold_locales simp

interpretation slice: codec "\<lambda>data. length data < 2 ^ 32" PutLengthPrefixedSlice GetLengthPrefixedSlice
  by unfold_locales
    (simp add: GetLengthPrefixedSlice_def PutLengthPrefixedSlice_def unat_of_nat take_bit_nat_eq_self)

section \<open>Entry headers\<close>

text \<open>
  The reference reading of an entry header: three varints in a row. The one-byte shortcut of
  \<open>DecodeEntry\<close> computes the same.
\<close>

definition entry_lengths :: "bytes \<Rightarrow> (u32 list \<times> bytes) option" where
  "entry_lengths p = decode_seq GetVarint32Ptr 3 p"

lemma GetVarint32Ptr_one_byte:
  assumes "(ucast (c :: byte) :: u32) < 128"
  shows "GetVarint32Ptr (c # p) = Some (ucast c, p)"
proof -
  have "(ucast (ucast c :: u32) :: byte) = c" by (rule bit_word_eqI) (auto simp: bit_simps)
  then show ?thesis
    using loop_final [of 0 "ucast c" 0 p] assms
    by (simp add: GetVarint32Ptr_def del: GetVarint32Ptr_loop.simps)
qed

lemma or_less_128: "(x :: u32) OR y < 128 \<longleftrightarrow> x < 128 \<and> y < 128"
proof -
  have e: "(z :: u32) < 128 \<longleftrightarrow> (\<forall>n. bit z n \<longrightarrow> n < 7)" for z
  proof -
    have "take_bit 7 z = z \<longleftrightarrow> (\<forall>n. bit z n \<longrightarrow> n < 7)" by (metis bit_eqI bit_take_bit_iff)
    then show ?thesis using less_exp_iff_take_bit [of 7 z] by simp
  qed
  show ?thesis unfolding e by (auto simp: bit_simps)
qed

lemma DecodeEntry_eq_entry_lengths:
  "DecodeEntry p =
     (if length p < 3 then None
      else case entry_lengths p of
             Some ([shared, non_shared, value_length], p) \<Rightarrow>
               if word_of_nat (length p) < non_shared + value_length then None
               else Some (shared, non_shared, value_length, p)
           | _ \<Rightarrow> None)"
proof (cases "length p < 3")
  case False
  then obtain a b c q where p: "p = a # b # c # q"
    by (metis length_Cons less_Suc_eq_0_disj list.exhaust list.size(3) not_less_eq numeral_3_eq_3)
  show ?thesis
  proof (cases "(ucast a :: u32) OR ucast b OR ucast c < 128")
    case True
    then show ?thesis
      by (simp add: p DecodeEntry_def entry_lengths_def or_less_128 numeral_3_eq_3 GetVarint32Ptr_one_byte Let_def)
  next
    case False
    then show ?thesis
      by (auto simp: p DecodeEntry_def entry_lengths_def numeral_3_eq_3 Let_def split: option.splits)
  qed
qed (simp add: DecodeEntry_def)

lemma DecodeEntry_encoded:
  assumes "unat non_shared + unat value_length \<le> length q" and "length q < 2 ^ 32"
  shows "DecodeEntry (PutVarint32 shared @ PutVarint32 non_shared @ PutVarint32 value_length @ q) =
         Some (shared, non_shared, value_length, q)"
proof -
  have "\<not> word_of_nat (length q) < non_shared + value_length"
    using assms by (simp add: word_less_nat_alt unat_of_nat unat_word_ariths take_bit_nat_eq_self)
  moreover have "\<not> length (PutVarint32 shared @ PutVarint32 non_shared @ PutVarint32 value_length @ q) < 3"
    using PutVarint32_bounds(1) [of shared] PutVarint32_bounds(1) [of non_shared]
      PutVarint32_bounds(1) [of value_length] by simp
  ultimately show ?thesis
    by (simp add: DecodeEntry_eq_entry_lengths entry_lengths_def numeral_3_eq_3)
qed

end
