(* ===== verification/WAL_Reader.thy ===== *)
theory WAL_Reader
  imports WAL_Format MLKV_Coding
begin

text \<open>
  The log reader RocksDB recovers with (\<^verbatim>\<open>rocksdb/db/log_reader.cc\<close>, class \<open>Reader\<close>), as
  extended in this repository by the record types without a checksum that the GPU writer emits.

  The reader holds a sequential file, the part of the current block that is not consumed, and the flags of
  the recovery. Reports go to a list. External code is the record \<open>wal_env\<close>: the sequential file read,
  crc32c, the decoders of the three kinds of meta records, the streaming decompressor and the XXH3 hash;
  the streaming hash state is the bytes hashed so far. \<open>'f\<close> is the state of the file and \<open>'u\<close> that of
  the decompressor. The reason texts of reports are the constant part of the messages.

  \<open>ReadPhysicalRecord\<close> always terminates, except in the decompressor's loop. The loop of
  \<open>ReadRecord\<close> ends when a record is complete or the file is; both loops that may run on are
  \<open>partial_function\<close>s, so that not returning is the value \<open>None\<close>.
\<close>

section \<open>State\<close>

datatype WALRecoveryMode =
    kTolerateCorruptedTailRecords
  | kAbsoluteConsistency
  | kPointInTimeRecovery
  | kSkipAnyCorruptedRecords

definition kEof :: nat where "kEof = kMaxRecordType + 1"
definition kBadRecord :: nat where "kBadRecord = kMaxRecordType + 2"
definition kBadHeader :: nat where "kBadHeader = kMaxRecordType + 3"
definition kOldRecord :: nat where "kOldRecord = kMaxRecordType + 4"
definition kBadRecordLen :: nat where "kBadRecordLen = kMaxRecordType + 5"
definition kBadRecordChecksum :: nat where "kBadRecordChecksum = kMaxRecordType + 6"

lemmas reader_codes = kEof_def kBadRecord_def kBadHeader_def kOldRecord_def kBadRecordLen_def
  kBadRecordChecksum_def kMaxRecordType_def

record PredecessorWALInfo =
  pw_log_number :: nat
  pw_size_bytes :: nat
  pw_last_seqno_recorded :: nat
  pw_initialized :: bool

datatype report = Corruption nat string | OldLogRecord nat

record ('f, 'u) wal_env =
  file_Read :: "'f \<Rightarrow> nat \<Rightarrow> bool \<times> bytes \<times> 'f"
  crc32c_Value :: "bytes \<Rightarrow> u32"
  crc32c_Unmask :: "u32 \<Rightarrow> u32"
  decode_compression :: "bytes \<Rightarrow> nat option"
  decode_predecessor :: "bytes \<Rightarrow> PredecessorWALInfo option"
  decode_timestamp_size :: "bytes \<Rightarrow> (u32 \<times> nat) list option"
  uncompress_Create :: "nat \<Rightarrow> 'u"
  uncompress_Reset :: "'u \<Rightarrow> 'u"
  Uncompress :: "'u \<Rightarrow> bytes option \<Rightarrow> int \<times> bytes \<times> 'u"
  XXH3_64bits :: "bytes \<Rightarrow> u64"

record ('f, 'u) Reader =
  rd_file :: 'f
  reporter :: bool
  reports :: "report list"
  checksum :: bool
  rd_buffer :: bytes
  rd_eof :: bool
  read_error :: bool
  eof_offset :: nat
  last_record_offset :: nat
  end_of_buffer_offset :: nat
  log_number :: nat
  track_and_verify_wals :: bool
  stop_replay_for_corruption :: bool
  min_wal_number_to_keep :: nat
  observed_predecessor_wal_info :: PredecessorWALInfo
  recycled :: bool
  first_record_read :: bool
  compression_type :: nat
  compression_type_record_read :: bool
  uncompress :: "'u option"
  hash_state :: "bytes option"
  recorded_cf_to_ts_sz :: "u32 \<rightharpoonup> nat"

definition new_Reader ::
  "'f \<Rightarrow> bool \<Rightarrow> bool \<Rightarrow> nat \<Rightarrow> bool \<Rightarrow> bool \<Rightarrow> nat \<Rightarrow> PredecessorWALInfo \<Rightarrow> ('f, 'u) Reader" where
  "new_Reader file rep chk log_num track stop min_wal observed =
     \<lparr>rd_file = file, reporter = rep, reports = [], checksum = chk, rd_buffer = [], rd_eof = False,
      read_error = False, eof_offset = 0, last_record_offset = 0, end_of_buffer_offset = 0,
      log_number = log_num, track_and_verify_wals = track, stop_replay_for_corruption = stop,
      min_wal_number_to_keep = min_wal, observed_predecessor_wal_info = observed, recycled = False,
      first_record_read = False, compression_type = 0, compression_type_record_read = False,
      uncompress = None, hash_state = None, recorded_cf_to_ts_sz = Map.empty\<rparr>"

section \<open>Reports\<close>

definition ReportCorruption :: "nat \<Rightarrow> string \<Rightarrow> ('f, 'u) Reader \<Rightarrow> ('f, 'u) Reader" where
  "ReportCorruption n reason r =
     (if reporter r then r\<lparr>reports := reports r @ [Corruption n reason]\<rparr> else r)"

definition ReportOldLogRecord :: "nat \<Rightarrow> ('f, 'u) Reader \<Rightarrow> ('f, 'u) Reader" where
  "ReportOldLogRecord n r = (if reporter r then r\<lparr>reports := reports r @ [OldLogRecord n]\<rparr> else r)"

definition MaybeVerifyPredecessorWALInfo ::
  "WALRecoveryMode \<Rightarrow> bytes \<Rightarrow> PredecessorWALInfo \<Rightarrow> ('f, 'u) Reader \<Rightarrow> ('f, 'u) Reader" where
  "MaybeVerifyPredecessorWALInfo mode fragment recorded r =
     (if \<not> track_and_verify_wals r \<or> mode = kSkipAnyCorruptedRecords \<or> stop_replay_for_corruption r then r
      else
        let observed = observed_predecessor_wal_info r
        in if \<not> pw_initialized observed
           then if pw_log_number recorded \<ge> min_wal_number_to_keep r
                then ReportCorruption (length fragment) ''Missing WAL of log number'' r
                else r
           else if pw_log_number observed \<noteq> pw_log_number recorded
           then ReportCorruption (length fragment) ''Mismatched predecessor log number of WAL file'' r
           else if pw_last_seqno_recorded observed \<noteq> pw_last_seqno_recorded recorded
           then ReportCorruption (length fragment) ''Mismatched last sequence number recorded'' r
           else if pw_size_bytes observed \<noteq> pw_size_bytes recorded
           then ReportCorruption (length fragment) ''Mismatched size of the WAL'' r
           else r)"

fun UpdateRecordedTimestampSize ::
  "(u32 \<times> nat) list \<Rightarrow> ('f, 'u) Reader \<Rightarrow> string option \<times> ('f, 'u) Reader" where
  "UpdateRecordedTimestampSize [] r = (None, r)"
| "UpdateRecordedTimestampSize ((cf, ts_sz) # rest) r =
     (if ts_sz = 0
      then (Some ''User-defined timestamp size record contains zero timestamp size.'', r)
      else if recorded_cf_to_ts_sz r cf \<noteq> None
      then (Some ''User-defined timestamp size record contains update to recorded column family.'', r)
      else UpdateRecordedTimestampSize rest
             (r\<lparr>recorded_cf_to_ts_sz := (recorded_cf_to_ts_sz r)(cf \<mapsto> ts_sz)\<rparr>))"

definition InitCompression :: "('f, 'u) wal_env \<Rightarrow> nat \<Rightarrow> ('f, 'u) Reader \<Rightarrow> ('f, 'u) Reader" where
  "InitCompression env ct r =
     r\<lparr>compression_type := ct, compression_type_record_read := True,
       uncompress := Some (uncompress_Create env ct)\<rparr>"

section \<open>Physical records\<close>

text \<open>
  \<open>ReadMore\<close> refills the buffer; it returns whether there is something to parse, and otherwise the
  number of bytes dropped and the error code.
\<close>

definition ReadMore :: "('f, 'u) wal_env \<Rightarrow> ('f, 'u) Reader \<Rightarrow> bool \<times> nat \<times> nat \<times> ('f, 'u) Reader" where
  "ReadMore env r =
     (if \<not> rd_eof r \<and> \<not> read_error r
      then
        let (ok, data, f) = file_Read env (rd_file r) kBlockSize;
            r = r\<lparr>rd_file := f, rd_buffer := data,
                  end_of_buffer_offset := end_of_buffer_offset r + length data\<rparr>
        in if \<not> ok
           then (False, 0, kEof,
                 (ReportCorruption kBlockSize ''read error'' (r\<lparr>rd_buffer := []\<rparr>))\<lparr>read_error := True\<rparr>)
           else if length data < kBlockSize
           then (True, 0, kEof, r\<lparr>rd_eof := True, eof_offset := length data\<rparr>)
           else (True, 0, kEof, r)
      else if rd_buffer r \<noteq> []
      then (False, length (rd_buffer r), kBadHeader, r\<lparr>rd_buffer := []\<rparr>)
      else (False, 0, kEof, r\<lparr>rd_buffer := []\<rparr>))"

partial_function (option) uncompress_loop ::
  "('f, 'u) wal_env \<Rightarrow> 'u \<Rightarrow> bytes option \<Rightarrow> bytes \<Rightarrow> (bytes option \<times> 'u) option" where
  "uncompress_loop env u input acc =
     (case Uncompress env u input of (remaining, out, u) \<Rightarrow>
        if remaining < 0 then Some (None, u)
        else if remaining > 0 \<or> length out = kBlockSize then uncompress_loop env u None (acc @ out)
        else Some (Some (acc @ out), u))"

definition is_recyclable_type :: "nat \<Rightarrow> bool" where
  "is_recyclable_type type \<longleftrightarrow>
     (type \<ge> rt_code kRecyclableFullType \<and> type \<le> rt_code kRecyclableLastType) \<or>
     (type \<ge> rt_code kRecyclableNoChecksumFullType \<and> type \<le> rt_code kRecyclableNoChecksumLastType) \<or>
     type = rt_code kRecyclableUserDefinedTimestampSizeType \<or> type = rt_code kRecyclePredecessorWALInfoType"

definition is_no_checksum :: "nat \<Rightarrow> bool" where
  "is_no_checksum type \<longleftrightarrow>
     type \<ge> rt_code kNoChecksumFullType \<and> type \<le> rt_code kRecyclableNoChecksumLastType"

definition header_length :: "bytes \<Rightarrow> nat" where
  "header_length header =
     unat ((ucast (header ! 4) AND 0xff) OR push_bit 8 (ucast (header ! 5) AND 0xff) :: u32)"

text \<open>The result of reading a physical record: type or error code, payload, bytes dropped, checksum.\<close>

type_synonym ('f, 'u) physical = "nat \<times> bytes \<times> nat \<times> u64 option \<times> ('f, 'u) Reader"

definition deliver_payload ::
  "('f, 'u) wal_env \<Rightarrow> bool \<Rightarrow> nat \<Rightarrow> bytes \<Rightarrow> ('f, 'u) Reader \<Rightarrow> ('f, 'u) physical option" where
  "deliver_payload env want_checksum type payload r =
     (case uncompress r of
        Some u \<Rightarrow>
          if type = rt_code kSetCompressionType \<or> type = rt_code kPredecessorWALInfoType \<or>
             type = rt_code kRecyclePredecessorWALInfoType \<or> type = rt_code kUserDefinedTimestampSizeType \<or>
             type = rt_code kRecyclableUserDefinedTimestampSizeType
          then Some (type, payload, 0, None, r)
          else
            (case uncompress_loop env u (Some payload) [] of
               None \<Rightarrow> None
             | Some (None, u) \<Rightarrow> Some (kBadRecord, [], 0, None, r\<lparr>rd_buffer := [], uncompress := Some u\<rparr>)
             | Some (Some data, u) \<Rightarrow>
                 Some (type, data, 0, if want_checksum then Some (XXH3_64bits env data) else None,
                       r\<lparr>uncompress := Some u\<rparr>))
      | None \<Rightarrow> Some (type, payload, 0, None, r))"

definition parse_physical ::
  "('f, 'u) wal_env \<Rightarrow> bool \<Rightarrow> ('f, 'u) Reader \<Rightarrow> ('f, 'u) physical option" where
  "parse_physical env want_checksum r =
     (let header = rd_buffer r;
          type = unat (header ! 6);
          len = header_length header;
          recyclable = is_recyclable_type type;
          header_size = (if recyclable then kRecyclableHeaderSize else kHeaderSize)
      in if header_size + len > length header
         then Some (kBadRecordLen, [], length header, None, r\<lparr>rd_buffer := []\<rparr>)
         else if recyclable \<and> unat (DecodeFixed32 (drop 7 header)) \<noteq> log_number r
         then Some (kOldRecord, [], 0, None, r\<lparr>rd_buffer := drop (header_size + len) header\<rparr>)
         else if type = rt_code kZeroType \<and> len = 0
         then Some (kBadRecord, [], 0, None, r\<lparr>rd_buffer := []\<rparr>)
         else if checksum r \<and> \<not> is_no_checksum type \<and>
                 crc32c_Value env (read_at header 6 (len + header_size - 6)) \<noteq>
                 crc32c_Unmask env (DecodeFixed32 header)
         then Some (kBadRecordChecksum, [], length header, None, r\<lparr>rd_buffer := []\<rparr>)
         else deliver_payload env want_checksum type (read_at header header_size len)
                (r\<lparr>rd_buffer := drop (header_size + len) header\<rparr>))"

lemma ReadMore_progress:
  "ReadMore env r = (True, d, e, r') \<Longrightarrow>
     \<not> rd_eof r \<and> \<not> read_error r \<and> (rd_eof r' \<or> length (rd_buffer r') \<ge> kBlockSize)"
  by (auto simp: ReadMore_def Let_def split: if_splits prod.splits)

function ReadPhysicalRecord ::
  "('f, 'u) wal_env \<Rightarrow> bool \<Rightarrow> ('f, 'u) Reader \<Rightarrow> ('f, 'u) physical option" where
  "ReadPhysicalRecord env want_checksum r =
     (if length (rd_buffer r) < kHeaderSize
      then
        (case ReadMore env r of
           (True, drop_size, e, r) \<Rightarrow> ReadPhysicalRecord env want_checksum r
         | (False, drop_size, e, r) \<Rightarrow> Some (e, [], drop_size, None, r))
      else if \<not> is_recyclable_type (unat (rd_buffer r ! 6)) then parse_physical env want_checksum r
      else if first_record_read r \<and> \<not> recycled r then Some (kBadRecord, [], 0, None, r)
      else if length (rd_buffer r) < kRecyclableHeaderSize
      then
        (case ReadMore env (r\<lparr>recycled := True\<rparr>) of
           (True, drop_size, e, r) \<Rightarrow> ReadPhysicalRecord env want_checksum r
         | (False, drop_size, e, r) \<Rightarrow> Some (e, [], drop_size, None, r))
      else parse_physical env want_checksum (r\<lparr>recycled := True\<rparr>))"
  by pat_completeness auto

termination
proof (relation "measure (\<lambda>(env, want, r). if rd_eof r \<or> read_error r then 0
        else if length (rd_buffer r) < kRecyclableHeaderSize then 2 else 1)", goal_cases)
  case (2 env want r)
  then show ?case by (auto simp: wal_sizes dest!: ReadMore_progress [OF sym])
next
  case (3 env want r)
  then show ?case by (auto simp: wal_sizes dest!: ReadMore_progress [OF sym])
qed simp

declare ReadPhysicalRecord.simps [simp del]

section \<open>Logical records\<close>

text \<open>
  The local variables of \<open>ReadRecord\<close>. One round of its loop either ends the call, with the truth value
  returned and the record, or goes on.
\<close>

record ('f, 'u) rr_state =
  rr_reader :: "('f, 'u) Reader"
  in_fragmented_record :: bool
  scratch :: bytes
  prospective_record_offset :: nat
  record_checksum :: "u64 option"

datatype 'a loop_step = Stop bool bytes 'a | Continue 'a

definition strict_mode :: "WALRecoveryMode \<Rightarrow> bool" where
  "strict_mode mode \<longleftrightarrow> mode = kAbsoluteConsistency \<or> mode = kPointInTimeRecovery"

definition upd_reader ::
  "(('f, 'u) Reader \<Rightarrow> ('f, 'u) Reader) \<Rightarrow> ('f, 'u) rr_state \<Rightarrow> ('f, 'u) rr_state" where
  "upd_reader f st = st\<lparr>rr_reader := f (rr_reader st)\<rparr>"

definition report_if :: "bool \<Rightarrow> nat \<Rightarrow> string \<Rightarrow> ('f, 'u) rr_state \<Rightarrow> ('f, 'u) rr_state" where
  "report_if c n reason st = (if c then upd_reader (ReportCorruption n reason) st else st)"

definition hash_reset :: "('f, 'u) rr_state \<Rightarrow> ('f, 'u) rr_state" where
  "hash_reset = upd_reader (\<lambda>r. r\<lparr>hash_state := map_option (\<lambda>_. []) (hash_state r)\<rparr>)"

definition hash_update :: "bytes \<Rightarrow> ('f, 'u) rr_state \<Rightarrow> ('f, 'u) rr_state" where
  "hash_update data = upd_reader (\<lambda>r. r\<lparr>hash_state := map_option (\<lambda>h. h @ data) (hash_state r)\<rparr>)"

definition on_full ::
  "('f, 'u) wal_env \<Rightarrow> bool \<Rightarrow> nat \<Rightarrow> bytes \<Rightarrow> ('f, 'u) rr_state \<Rightarrow> ('f, 'u) rr_state loop_step" where
  "on_full env want_checksum offset fragment st =
     (let st = report_if (in_fragmented_record st \<and> scratch st \<noteq> []) (length (scratch st))
                 ''partial record without end(1)'' st;
          st = (if want_checksum \<and> uncompress (rr_reader st) = None
                then st\<lparr>record_checksum := Some (XXH3_64bits env fragment)\<rparr> else st);
          st = st\<lparr>prospective_record_offset := offset, scratch := []\<rparr>;
          st = upd_reader (\<lambda>r. r\<lparr>last_record_offset := offset, first_record_read := True\<rparr>) st
      in Stop True fragment st)"

definition on_first ::
  "bool \<Rightarrow> nat \<Rightarrow> bytes \<Rightarrow> ('f, 'u) rr_state \<Rightarrow> ('f, 'u) rr_state loop_step" where
  "on_first want_checksum offset fragment st =
     (let st = (if in_fragmented_record st \<and> scratch st \<noteq> []
                then hash_reset (report_if True (length (scratch st)) ''partial record without end(2)'' st)
                else st);
          st = (if want_checksum then hash_update fragment st else st)
      in Continue (st\<lparr>prospective_record_offset := offset, scratch := fragment,
                      in_fragmented_record := True\<rparr>))"

definition on_middle ::
  "bool \<Rightarrow> bytes \<Rightarrow> ('f, 'u) rr_state \<Rightarrow> ('f, 'u) rr_state loop_step" where
  "on_middle want_checksum fragment st =
     (if \<not> in_fragmented_record st
      then Continue (report_if True (length fragment) ''missing start of fragmented record(1)'' st)
      else
        let st = (if want_checksum then hash_update fragment st else st)
        in Continue (st\<lparr>scratch := scratch st @ fragment\<rparr>))"

definition on_last ::
  "('f, 'u) wal_env \<Rightarrow> bool \<Rightarrow> bytes \<Rightarrow> ('f, 'u) rr_state \<Rightarrow> ('f, 'u) rr_state loop_step" where
  "on_last env want_checksum fragment st =
     (if \<not> in_fragmented_record st
      then Continue (report_if True (length fragment) ''missing start of fragmented record(2)'' st)
      else
        let st = (if want_checksum
                  then let st = hash_update fragment st
                       in st\<lparr>record_checksum := map_option (XXH3_64bits env) (hash_state (rr_reader st))\<rparr>
                  else st);
            st = st\<lparr>scratch := scratch st @ fragment\<rparr>;
            st = upd_reader (\<lambda>r. r\<lparr>last_record_offset := prospective_record_offset st,
                                   first_record_read := True\<rparr>) st
        in Stop True (scratch st) st)"

definition begin_meta_record :: "nat \<Rightarrow> ('f, 'u) rr_state \<Rightarrow> ('f, 'u) rr_state" where
  "begin_meta_record offset st =
     upd_reader (\<lambda>r. r\<lparr>last_record_offset := offset\<rparr>)
       (st\<lparr>prospective_record_offset := offset, scratch := []\<rparr>)"

definition on_set_compression ::
  "('f, 'u) wal_env \<Rightarrow> nat \<Rightarrow> bytes \<Rightarrow> ('f, 'u) rr_state \<Rightarrow> ('f, 'u) rr_state loop_step" where
  "on_set_compression env offset fragment st =
     (let st = report_if (compression_type_record_read (rr_reader st)) (length fragment)
                 ''read multiple SetCompressionType records'' st;
          st = report_if (first_record_read (rr_reader st)) (length fragment)
                 ''SetCompressionType not the first record'' st;
          st = begin_meta_record offset st
      in Continue
           (case decode_compression env fragment of
              None \<Rightarrow> report_if True (length fragment) ''could not decode SetCompressionType record'' st
            | Some ct \<Rightarrow> upd_reader (InitCompression env ct) st))"

definition on_predecessor ::
  "('f, 'u) wal_env \<Rightarrow> WALRecoveryMode \<Rightarrow> nat \<Rightarrow> bytes \<Rightarrow> ('f, 'u) rr_state \<Rightarrow> ('f, 'u) rr_state loop_step" where
  "on_predecessor env mode offset fragment st =
     (let st = begin_meta_record offset st
      in Continue
           (case decode_predecessor env fragment of
              None \<Rightarrow> report_if True (length fragment) ''could not decode PredecessorWALInfoType record'' st
            | Some info \<Rightarrow> upd_reader (MaybeVerifyPredecessorWALInfo mode fragment info) st))"

definition on_timestamp_size ::
  "('f, 'u) wal_env \<Rightarrow> nat \<Rightarrow> bytes \<Rightarrow> ('f, 'u) rr_state \<Rightarrow> ('f, 'u) rr_state loop_step" where
  "on_timestamp_size env offset fragment st =
     (let st = report_if (in_fragmented_record st \<and> scratch st \<noteq> []) (length (scratch st))
                 ''user-defined timestamp size record interspersed partial record'' st;
          st = begin_meta_record offset st
      in Continue
           (case decode_timestamp_size env fragment of
              None \<Rightarrow> report_if True (length fragment) ''could not decode user-defined timestamp size record'' st
            | Some sizes \<Rightarrow>
                (case UpdateRecordedTimestampSize sizes (rr_reader st) of
                   (None, r) \<Rightarrow> st\<lparr>rr_reader := r\<rparr>
                 | (Some reason, r) \<Rightarrow> report_if True (length fragment) reason (st\<lparr>rr_reader := r\<rparr>))))"

text \<open>Errors and the end of the file.\<close>

definition on_eof :: "WALRecoveryMode \<Rightarrow> ('f, 'u) rr_state \<Rightarrow> ('f, 'u) rr_state loop_step" where
  "on_eof mode st =
     (if in_fragmented_record st
      then Stop False []
             ((report_if (strict_mode mode) (length (scratch st))
                 ''error reading trailing data due to encountering EOF'' st)\<lparr>scratch := []\<rparr>)
      else Stop False [] st)"

definition on_bad_record :: "('f, 'u) rr_state \<Rightarrow> ('f, 'u) rr_state loop_step" where
  "on_bad_record st =
     Continue
       (if in_fragmented_record st
        then (report_if True (length (scratch st)) ''error in middle of record'' st)
               \<lparr>in_fragmented_record := False, scratch := []\<rparr>
        else st)"

definition on_old_record :: "WALRecoveryMode \<Rightarrow> ('f, 'u) rr_state \<Rightarrow> ('f, 'u) rr_state loop_step" where
  "on_old_record mode st =
     (if mode \<noteq> kSkipAnyCorruptedRecords
      then
        if in_fragmented_record st
        then Stop False []
               ((report_if (strict_mode mode) (length (scratch st))
                   ''error reading trailing data due to encountering old record'' st)\<lparr>scratch := []\<rparr>)
        else Stop False []
               (if mode = kPointInTimeRecovery
                then upd_reader (ReportOldLogRecord (length (scratch st))) st else st)
      else on_bad_record st)"

definition on_bad_checksum ::
  "WALRecoveryMode \<Rightarrow> nat \<Rightarrow> nat \<Rightarrow> ('f, 'u) rr_state \<Rightarrow> ('f, 'u) rr_state loop_step" where
  "on_bad_checksum mode type drop_size st =
     (if recycled (rr_reader st) \<and> mode = kTolerateCorruptedTailRecords
      then Stop False [] (st\<lparr>scratch := []\<rparr>)
      else on_bad_record
             (report_if True drop_size
                (if type = kBadRecordLen then ''bad record length'' else ''checksum mismatch'') st))"

definition on_bad_length ::
  "WALRecoveryMode \<Rightarrow> nat \<Rightarrow> ('f, 'u) rr_state \<Rightarrow> ('f, 'u) rr_state loop_step" where
  "on_bad_length mode drop_size st =
     (if rd_eof (rr_reader st)
      then Stop False [] (report_if (strict_mode mode) drop_size ''truncated record body'' st)
      else on_bad_checksum mode kBadRecordLen drop_size st)"

definition on_unknown :: "nat \<Rightarrow> bytes \<Rightarrow> ('f, 'u) rr_state \<Rightarrow> ('f, 'u) rr_state loop_step" where
  "on_unknown type fragment st =
     Continue
       ((report_if (type AND kRecordTypeSafeIgnoreMask = 0)
           (length fragment + (if in_fragmented_record st then length (scratch st) else 0))
           ''unknown record type'' st)\<lparr>in_fragmented_record := False, scratch := []\<rparr>)"

text \<open>The switch over the code a physical record came with, in the order of the cases.\<close>

definition dispatch_record ::
  "('f, 'u) wal_env \<Rightarrow> WALRecoveryMode \<Rightarrow> bool \<Rightarrow> nat \<Rightarrow> nat \<Rightarrow> bytes \<Rightarrow> nat \<Rightarrow> ('f, 'u) rr_state \<Rightarrow>
   ('f, 'u) rr_state loop_step" where
  "dispatch_record env mode want_checksum offset type fragment drop_size st =
     (if type \<in> rt_code ` {kFullType, kRecyclableFullType, kNoChecksumFullType, kRecyclableNoChecksumFullType}
      then on_full env want_checksum offset fragment st
      else if type \<in> rt_code ` {kFirstType, kRecyclableFirstType, kNoChecksumFirstType, kRecyclableNoChecksumFirstType}
      then on_first want_checksum offset fragment st
      else if type \<in> rt_code ` {kMiddleType, kRecyclableMiddleType, kNoChecksumMiddleType, kRecyclableNoChecksumMiddleType}
      then on_middle want_checksum fragment st
      else if type \<in> rt_code ` {kLastType, kRecyclableLastType, kNoChecksumLastType, kRecyclableNoChecksumLastType}
      then on_last env want_checksum fragment st
      else if type = rt_code kSetCompressionType
      then on_set_compression env offset fragment st
      else if type \<in> rt_code ` {kPredecessorWALInfoType, kRecyclePredecessorWALInfoType}
      then on_predecessor env mode offset fragment st
      else if type \<in> rt_code ` {kUserDefinedTimestampSizeType, kRecyclableUserDefinedTimestampSizeType}
      then on_timestamp_size env offset fragment st
      else if type = kBadHeader
      then on_eof mode (report_if (strict_mode mode) drop_size ''truncated header'' st)
      else if type = kEof then on_eof mode st
      else if type = kOldRecord then on_old_record mode st
      else if type = kBadRecord then on_bad_record st
      else if type = kBadRecordLen then on_bad_length mode drop_size st
      else if type = kBadRecordChecksum then on_bad_checksum mode kBadRecordChecksum drop_size st
      else on_unknown type fragment st)"

definition LastRecordEnd :: "('f, 'u) Reader \<Rightarrow> nat" where
  "LastRecordEnd r = end_of_buffer_offset r - length (rd_buffer r)"

definition ReadRecord_round ::
  "('f, 'u) wal_env \<Rightarrow> WALRecoveryMode \<Rightarrow> bool \<Rightarrow> ('f, 'u) rr_state \<Rightarrow> ('f, 'u) rr_state loop_step option" where
  "ReadRecord_round env mode want_checksum st =
     (let physical_record_offset = LastRecordEnd (rr_reader st)
      in case ReadPhysicalRecord env want_checksum (rr_reader st) of
           None \<Rightarrow> None
         | Some (type, fragment, drop_size, fragment_checksum, r) \<Rightarrow>
             let st = st\<lparr>rr_reader := r\<rparr>;
                 st = (if fragment_checksum \<noteq> None then st\<lparr>record_checksum := fragment_checksum\<rparr> else st)
             in Some (dispatch_record env mode want_checksum physical_record_offset type fragment drop_size st))"

partial_function (option) ReadRecord_loop ::
  "('f, 'u) wal_env \<Rightarrow> WALRecoveryMode \<Rightarrow> bool \<Rightarrow> ('f, 'u) rr_state \<Rightarrow>
   (bool \<times> bytes \<times> ('f, 'u) rr_state) option" where
  "ReadRecord_loop env mode want_checksum st =
     (case ReadRecord_round env mode want_checksum st of
        None \<Rightarrow> None
      | Some step \<Rightarrow>
          (case step of
             Stop b record st \<Rightarrow> Some (b, record, st)
           | Continue st \<Rightarrow> ReadRecord_loop env mode want_checksum st))"

definition ReadRecord ::
  "('f, 'u) wal_env \<Rightarrow> WALRecoveryMode \<Rightarrow> bool \<Rightarrow> ('f, 'u) Reader \<Rightarrow>
   (bool \<times> bytes \<times> u64 option \<times> ('f, 'u) Reader) option" where
  "ReadRecord env mode want_checksum r =
     (let r = (if want_checksum then r\<lparr>hash_state := Some []\<rparr> else r);
          r = r\<lparr>uncompress := map_option (uncompress_Reset env) (uncompress r)\<rparr>
      in case ReadRecord_loop env mode want_checksum
                \<lparr>rr_reader = r, in_fragmented_record = False, scratch = [], prospective_record_offset = 0,
                 record_checksum = None\<rparr> of
           None \<Rightarrow> None
         | Some (b, record, st) \<Rightarrow> Some (b, record, record_checksum st, rr_reader st))"

section \<open>Resuming at the end of the file\<close>

definition UnmarkEOFInternal :: "('f, 'u) wal_env \<Rightarrow> ('f, 'u) Reader \<Rightarrow> ('f, 'u) Reader" where
  "UnmarkEOFInternal env r =
     (let remaining = kBlockSize - eof_offset r;
          (ok, data, f) = file_Read env (rd_file r) remaining;
          added = length data;
          r = r\<lparr>rd_file := f, end_of_buffer_offset := end_of_buffer_offset r + added\<rparr>
      in if \<not> ok
         then (if added > 0 then ReportCorruption added ''read error'' r else r)\<lparr>read_error := True\<rparr>
         else
           let r = r\<lparr>rd_buffer := rd_buffer r @ data\<rparr>
           in if added < remaining
              then r\<lparr>rd_eof := True, eof_offset := eof_offset r + added\<rparr>
              else r\<lparr>eof_offset := 0\<rparr>)"

definition UnmarkEOF :: "('f, 'u) wal_env \<Rightarrow> ('f, 'u) Reader \<Rightarrow> ('f, 'u) Reader" where
  "UnmarkEOF env r =
     (if read_error r then r
      else
        let r = r\<lparr>rd_eof := False\<rparr>
        in if eof_offset r = 0 then r else UnmarkEOFInternal env r)"

end
