(* ===== verification/MLKV_Write_Batch.thy ===== *)
theory MLKV_Write_Batch
  imports MLKV_Coding MLKV_Config GPU_Kernel
begin

text \<open>
  The GPU write batch generator (\<^verbatim>\<open>gds/write_batch_generator.cuh\<close>): it turns arrays of keys and
  values in device memory into one RocksDB write batch in device memory, with one kernel that computes
  the size of every record, a prefix sum over the sizes, and one kernel that writes header and records.

  Keys and values are device memory, that is byte lists; \<open>sizeof_Key\<close> and \<open>sizeof_Value\<close> are the
  sizes of the template parameters, and a pointer into one of the arrays is the byte offset of its
  target. The kernels are thread bodies for \<open>GPU_Kernel.launch\<close>, so every property holds for
  every interleaving of the threads. What CUDA and Thrust provide is the record \<open>gpu_env\<close>: the
  memory \<^verbatim>\<open>cudaMalloc\<close> returns (\<open>None\<close> when it fails), whether the synchronisation after a
  kernel and the release of a buffer succeed, and the two Thrust algorithms.

  The reference is \<open>write_batch\<close>, the byte format RocksDB documents: sequence number, count, and
  per record a tag and two length-prefixed strings. The generator produces exactly it, and the parser
  \<open>parse_write_batch\<close> reads the pairs back.
\<close>

section \<open>Kernels\<close>

definition kWriteBatchHeader :: nat where "kWriteBatchHeader = 12"
definition kTypeValue :: byte where "kTypeValue = 1"

record TypedGPUKeyValue =
  kv_key :: nat
  kv_value :: nat
  kv_value_array_size :: nat

definition len_varint_size :: "nat \<Rightarrow> nat" where
  "len_varint_size n =
     1 + (if n \<ge> 2 ^ 7 then 1 else 0) + (if n \<ge> 2 ^ 14 then 1 else 0) +
     (if n \<ge> 2 ^ 21 then 1 else 0) + (if n \<ge> 2 ^ 28 then 1 else 0)"

definition CalculateTypedRecordSizesKernel ::
  "nat \<Rightarrow> nat \<Rightarrow> TypedGPUKeyValue list \<Rightarrow> nat \<Rightarrow> nat \<Rightarrow> nat store list" where
  "CalculateTypedRecordSizesKernel sizeof_Key sizeof_Value kv_pairs num_pairs idx =
     (if idx \<ge> num_pairs then []
      else
        let kv = kv_pairs ! idx;
            key_size = sizeof_Key;
            value_size = sizeof_Value * kv_value_array_size kv
        in [(idx, [1 + len_varint_size key_size + key_size + len_varint_size value_size + value_size])])"

text \<open>This kernel writes two arrays; the two components are its writes to each of them.\<close>

definition InitializeAndCalculateKernel ::
  "nat \<Rightarrow> nat \<Rightarrow> nat \<Rightarrow> nat \<Rightarrow> nat \<Rightarrow> TypedGPUKeyValue store list \<times> nat store list" where
  "InitializeAndCalculateKernel sizeof_Key sizeof_Value num_pairs value_array_size idx =
     (if idx \<ge> num_pairs then ([], [])
      else
        let key_size = sizeof_Key;
            value_size = sizeof_Value * value_array_size
        in ([(idx, [\<lparr>kv_key = idx * sizeof_Key,
                     kv_value = idx * value_array_size * sizeof_Value,
                     kv_value_array_size = value_array_size\<rparr>])],
            [(idx, [1 + len_varint_size key_size + key_size + len_varint_size value_size + value_size])]))"

definition GenerateTypedWriteBatchKernel ::
  "nat \<Rightarrow> nat \<Rightarrow> bytes \<Rightarrow> bytes \<Rightarrow> TypedGPUKeyValue list \<Rightarrow> nat \<Rightarrow> nat list \<Rightarrow> u64 \<Rightarrow> nat \<Rightarrow>
   byte store list" where
  "GenerateTypedWriteBatchKernel sizeof_Key sizeof_Value d_keys d_values kv_pairs num_pairs
       record_offsets sequence_number idx =
     (if idx = 0
      then map (\<lambda>i. (i, [0])) [0..<kWriteBatchHeader] @
           [(0, PutFixed64 sequence_number), (8, PutFixed32 (word_of_nat num_pairs))]
      else []) @
     (if idx < num_pairs
      then
        let kv = kv_pairs ! idx;
            ptr0 = record_offsets ! idx;
            ptr1 = ptr0 + 1;
            key_size = sizeof_Key;
            key_len = PutVarint32 (word_of_nat key_size);
            ptr2 = ptr1 + length key_len;
            ptr3 = ptr2 + key_size;
            value_size = sizeof_Value * kv_value_array_size kv;
            value_len = PutVarint32 (word_of_nat value_size);
            ptr4 = ptr3 + length value_len
        in [(ptr0, [kTypeValue]), (ptr1, key_len), (ptr2, read_at d_keys (kv_key kv) key_size),
            (ptr3, value_len), (ptr4, read_at d_values (kv_value kv) value_size)]
      else [])"

section \<open>The generator\<close>

record gpu_env =
  malloc_kv_pairs :: "nat \<Rightarrow> TypedGPUKeyValue list option"
  malloc_bytes :: "nat \<Rightarrow> bytes option"
  sync_sizes :: bool
  sync_batch :: bool
  free_output :: bool
  free_kv_pairs :: bool
  exclusive_scan :: "nat list \<Rightarrow> nat \<Rightarrow> nat list"
  thrust_reduce :: "nat list \<Rightarrow> nat"

record GPUWriteBatchGenerator =
  gen_max_batch_size :: nat
  gen_total_batch_size :: nat
  d_record_sizes :: "nat list"
  d_record_offsets :: "nat list"
  d_output_buffer :: "bytes option"

definition new_GPUWriteBatchGenerator ::
  "(nat \<Rightarrow> nat list option) \<Rightarrow> nat \<Rightarrow> GPUWriteBatchGenerator outcome" where
  "new_GPUWriteBatchGenerator cudaMalloc max_batch_size =
     (case cudaMalloc max_batch_size of
        None \<Rightarrow> Throws ''cudaMalloc d_record_sizes_''
      | Some sizes \<Rightarrow> (case cudaMalloc max_batch_size of
          None \<Rightarrow> Throws ''cudaMalloc d_record_offsets_''
        | Some offsets \<Rightarrow>
            Returns \<lparr>gen_max_batch_size = max_batch_size, gen_total_batch_size = 0,
                     d_record_sizes = sizes, d_record_offsets = offsets, d_output_buffer = None\<rparr>))"

text \<open>
  \<open>grid_threads\<close> is the size of the launch: blocks of 256 threads, as many as cover the pairs. The
  two scratch arrays have \<open>gen_max_batch_size\<close> entries and are not resized: a larger batch writes
  outside them.
\<close>

definition grid_threads :: "nat \<Rightarrow> nat" where
  "grid_threads num_pairs = (num_pairs + 256 - 1) div 256 * 256"

definition GenerateTypedWriteBatch ::
  "gpu_env \<Rightarrow> nat list \<Rightarrow> nat list \<Rightarrow> nat \<Rightarrow> nat \<Rightarrow> bytes \<Rightarrow> bytes \<Rightarrow> nat \<Rightarrow> nat \<Rightarrow> u64 \<Rightarrow>
   GPUWriteBatchGenerator \<Rightarrow> (IOStatus \<times> GPUWriteBatchGenerator) outcome" where
  "GenerateTypedWriteBatch env sched1 sched2 sizeof_Key sizeof_Value d_keys d_values num_pairs
       value_array_size latest_sequence_number gen =
     (if num_pairs = 0 then Returns (io_InvalidParam ''No key-value pairs to process'', gen)
      else case malloc_kv_pairs env num_pairs of
        None \<Rightarrow> Throws ''cudaMalloc d_typed_kv_pairs''
      | Some kv_mem \<Rightarrow>
          if gen_max_batch_size gen < num_pairs then Undefined ''write beyond d_record_sizes_''
          else
            let kernel1 = InitializeAndCalculateKernel sizeof_Key sizeof_Value num_pairs value_array_size;
                kv_pairs = launch sched1 (\<lambda>i. fst (kernel1 i)) (grid_threads num_pairs) kv_mem;
                sizes = launch sched1 (\<lambda>i. snd (kernel1 i)) (grid_threads num_pairs) (d_record_sizes gen)
            in if \<not> sync_sizes env then Throws ''cudaDeviceSynchronize''
               else
                 let offsets = write_at (d_record_offsets gen) 0
                                 (exclusive_scan env (take num_pairs sizes) kWriteBatchHeader);
                     total = kWriteBatchHeader + thrust_reduce env (take num_pairs sizes)
                 in if d_output_buffer gen \<noteq> None \<and> \<not> free_output env then Throws ''cudaFree''
                    else case malloc_bytes env total of
                      None \<Rightarrow> Throws ''cudaMalloc d_output_buffer_''
                    | Some out_mem \<Rightarrow>
                        if length d_keys < num_pairs * sizeof_Key \<or>
                           length d_values < num_pairs * value_array_size * sizeof_Value
                        then Undefined ''read beyond d_keys or d_values''
                        else
                        let out = launch sched2
                              (GenerateTypedWriteBatchKernel sizeof_Key sizeof_Value d_keys d_values
                                 kv_pairs num_pairs offsets latest_sequence_number)
                              (grid_threads num_pairs) out_mem
                        in if \<not> sync_batch env then Throws ''cudaDeviceSynchronize''
                           else if \<not> free_kv_pairs env then Throws ''cudaFree''
                           else Returns (io_OK, gen\<lparr>gen_total_batch_size := total,
                                                    d_record_sizes := sizes,
                                                    d_record_offsets := offsets,
                                                    d_output_buffer := Some out\<rparr>))"

definition gen_Clear :: "GPUWriteBatchGenerator \<Rightarrow> GPUWriteBatchGenerator" where "gen_Clear gen = gen"

definition GetMaxBatchSize :: "GPUWriteBatchGenerator \<Rightarrow> nat" where "GetMaxBatchSize gen = gen_max_batch_size gen"

definition GetWriteBatchData :: "GPUWriteBatchGenerator \<Rightarrow> bytes option" where "GetWriteBatchData gen = d_output_buffer gen"

definition GetWriteBatchSize :: "GPUWriteBatchGenerator \<Rightarrow> nat" where "GetWriteBatchSize gen = gen_total_batch_size gen"

section \<open>Reference format\<close>

definition batch_record :: "bytes \<times> bytes \<Rightarrow> bytes" where
  "batch_record kv = kTypeValue # PutLengthPrefixedSlice (fst kv) @ PutLengthPrefixedSlice (snd kv)"

definition write_batch :: "u64 \<Rightarrow> (bytes \<times> bytes) list \<Rightarrow> bytes" where
  "write_batch seq kvs =
     PutFixed64 seq @ PutFixed32 (word_of_nat (length kvs)) @ concat (map batch_record kvs)"

definition input_pairs :: "nat \<Rightarrow> nat \<Rightarrow> bytes \<Rightarrow> bytes \<Rightarrow> nat \<Rightarrow> (bytes \<times> bytes) list" where
  "input_pairs key_size value_size d_keys d_values n =
     map (\<lambda>i. (read_at d_keys (i * key_size) key_size, read_at d_values (i * value_size) value_size)) [0..<n]"

definition parse_batch_record :: "bytes \<Rightarrow> ((bytes \<times> bytes) \<times> bytes) option" where
  "parse_batch_record p =
     (case p of [] \<Rightarrow> None
      | tag # p \<Rightarrow>
          if tag \<noteq> kTypeValue then None
          else (case GetLengthPrefixedSlice p of None \<Rightarrow> None
                | Some (k, p) \<Rightarrow> (case GetLengthPrefixedSlice p of None \<Rightarrow> None
                    | Some (v, p) \<Rightarrow> Some ((k, v), p))))"

definition parse_write_batch :: "bytes \<Rightarrow> (u64 \<times> (bytes \<times> bytes) list) option" where
  "parse_write_batch p =
     (if length p < kWriteBatchHeader then None
      else case decode_seq parse_batch_record (unat (DecodeFixed32 (drop 8 p))) (drop kWriteBatchHeader p) of
             Some (kvs, []) \<Rightarrow> Some (DeviceDecodeFixed64 p, kvs)
           | _ \<Rightarrow> None)"

interpretation batch_record: codec
  "\<lambda>kv. length (fst kv) < 2 ^ 32 \<and> length (snd kv) < 2 ^ 32" batch_record parse_batch_record
  by unfold_locales (simp add: batch_record_def parse_batch_record_def slice.dec_enc)

lemma parse_write_batch_write_batch:
  assumes "length kvs < 2 ^ 32"
    and "list_all (\<lambda>kv. length (fst kv) < 2 ^ 32 \<and> length (snd kv) < 2 ^ 32) kvs"
  shows "parse_write_batch (write_batch seq kvs) = Some (seq, kvs)"
proof -
  have n: "unat (word_of_nat (length kvs) :: u32) = length kvs"
    using assms(1) by (simp add: unat_of_nat take_bit_nat_eq_self)
  have "decode_seq parse_batch_record (length kvs) (concat (map batch_record kvs)) = Some (kvs, [])"
    using batch_record.decode_seq_enc [OF assms(2), of "[]"] by simp
  then show ?thesis
    by (simp add: parse_write_batch_def write_batch_def kWriteBatchHeader_def n)
qed

section \<open>Record sizes\<close>

lemma len_varint_size_PutVarint32:
  "n < 2 ^ 32 \<Longrightarrow> len_varint_size n = length (PutVarint32 (word_of_nat n))"
  by (simp add: len_varint_size_def length_PutVarint32 unat_of_nat take_bit_nat_eq_self)

definition record_size :: "nat \<Rightarrow> nat \<Rightarrow> nat" where
  "record_size key_size value_size =
     1 + len_varint_size key_size + key_size + len_varint_size value_size + value_size"

lemma length_batch_record:
  assumes "length (fst kv) < 2 ^ 32" and "length (snd kv) < 2 ^ 32"
  shows "length (batch_record kv) = record_size (length (fst kv)) (length (snd kv))"
  using assms
  by (simp add: batch_record_def PutLengthPrefixedSlice_def record_size_def len_varint_size_PutVarint32)

lemma grid_covers: "n \<le> grid_threads n"
proof -
  have "n + 255 < 256 * ((n + 255) div 256) + 256"
    using mult_div_mod_eq [of 256 "n + 255"] mod_less_divisor [of 256 "n + 255"] by linarith
  then show ?thesis by (simp add: grid_threads_def)
qed

section \<open>What the launches leave behind\<close>

lemma launch_kv_pairs:
  assumes "length mem = n"
  shows "launch sched (\<lambda>i. fst (InitializeAndCalculateKernel ks vs n k i)) (grid_threads n) mem =
         map (\<lambda>i. \<lparr>kv_key = i * ks, kv_value = i * k * vs, kv_value_array_size = k\<rparr>) [0..<n]"
  using launch_cells [of n "grid_threads n" mem
      "\<lambda>i. fst (InitializeAndCalculateKernel ks vs n k i)" _ sched] assms grid_covers [of n]
  by (simp add: InitializeAndCalculateKernel_def Let_def)

lemma launch_record_sizes:
  assumes "n \<le> length mem"
  shows "take n (launch sched (\<lambda>i. snd (InitializeAndCalculateKernel ks vs n k i)) (grid_threads n) mem) =
         replicate n (record_size ks (vs * k))"
  using launch_cells [of n "grid_threads n" mem "\<lambda>i. snd (InitializeAndCalculateKernel ks vs n k i)"
      "\<lambda>_. record_size ks (vs * k)" sched] assms grid_covers [of n]
  by (simp add: InitializeAndCalculateKernel_def record_size_def Let_def map_replicate_const)

text \<open>A thread's writes to its record are one write of the encoded record.\<close>

definition record_stores :: "nat \<Rightarrow> bytes \<Rightarrow> bytes \<Rightarrow> byte store list" where
  "record_stores off k v =
     (let klen = PutVarint32 (word_of_nat (length k)); vlen = PutVarint32 (word_of_nat (length v))
      in [(off, [kTypeValue]), (off + 1, klen), (off + 1 + length klen, k),
          (off + 1 + length klen + length k, vlen), (off + 1 + length klen + length k + length vlen, v)])"

definition header_stores :: "u64 \<Rightarrow> nat \<Rightarrow> byte store list" where
  "header_stores seq n = map (\<lambda>i. (i, [0])) [0..<12] @ [(0, PutFixed64 seq), (8, PutFixed32 (word_of_nat n))]"

lemma run_record_stores:
  assumes "off + length (batch_record (k, v)) \<le> length buf"
  shows "run_stores (record_stores off k v) buf = write_at buf off (batch_record (k, v))"
  using assms
  by (simp add: record_stores_def batch_record_def PutLengthPrefixedSlice_def Let_def write_at_consecutive)

lemma record_stores_inside:
  "w \<in> set (record_stores off k v) \<Longrightarrow>
     off \<le> fst w \<and> fst w + length (snd w) \<le> off + length (batch_record (k, v))"
  by (auto simp: record_stores_def batch_record_def PutLengthPrefixedSlice_def Let_def)

lemma run_header_stores:
  assumes "12 \<le> length buf"
  shows "run_stores (header_stores seq n) buf = write_at buf 0 (PutFixed64 seq @ PutFixed32 (word_of_nat n))"
  using assms
  by (simp add: header_stores_def upt_rec write_at_consecutive write_at_covered)

lemma header_stores_inside: "w \<in> set (header_stores seq n) \<Longrightarrow> fst w + length (snd w) \<le> 12"
  by (auto simp: header_stores_def)

lemma index_inside: "i < n \<Longrightarrow> n * s \<le> len \<Longrightarrow> i * s + s \<le> (len :: nat)"
  by (metis Suc_leI add.commute le_trans mult_Suc mult_le_mono1)

lemma nth_input_pairs:
  assumes "i < n" and "n * ks \<le> length d_keys" and "n * vs \<le> length d_values"
  shows "length (fst (input_pairs ks vs d_keys d_values n ! i)) = ks"
    and "length (snd (input_pairs ks vs d_keys d_values n ! i)) = vs"
  using assms index_inside [OF assms(1,2)] index_inside [OF assms(1,3)]
  by (simp_all add: input_pairs_def)

lemma length_input_pairs [simp]: "length (input_pairs ks vs d_keys d_values n) = n"
  by (simp add: input_pairs_def)

text \<open>With the offsets of the prefix sum, a thread of the batch kernel is a header and a record writer.\<close>

lemma batch_kernel_stores:
  assumes kvp: "kv_pairs = map (\<lambda>i. \<lparr>kv_key = i * ks, kv_value = i * k * vs, kv_value_array_size = k\<rparr>) [0..<n]"
    and "n * ks \<le> length d_keys" and "n * k * vs \<le> length d_values"
    and kvs: "kvs = input_pairs ks (vs * k) d_keys d_values n"
  shows "GenerateTypedWriteBatchKernel ks vs d_keys d_values kv_pairs n offs seq i =
           (if i = 0 then header_stores seq n else []) @
           (if i < n then record_stores (offs ! i) (fst (kvs ! i)) (snd (kvs ! i)) else [])"
proof -
  have "length (fst (kvs ! i)) = ks" "length (snd (kvs ! i)) = vs * k" if "i < n"
    using nth_input_pairs [OF that assms(2)] assms(3) by (simp_all add: kvs ac_simps)
  then show ?thesis
    by (auto simp: GenerateTypedWriteBatchKernel_def kvp header_stores_def record_stores_def
        kWriteBatchHeader_def Let_def kvs input_pairs_def ac_simps)
qed

definition batch_segments :: "u64 \<Rightarrow> (bytes \<times> bytes) list \<Rightarrow> bytes list" where
  "batch_segments seq kvs =
     (case map batch_record kvs of [] \<Rightarrow> []
      | r # rs \<Rightarrow> (PutFixed64 seq @ PutFixed32 (word_of_nat (length kvs)) @ r) # rs)"

lemma batch_segments_props:
  assumes "kvs \<noteq> []"
  shows "concat (batch_segments seq kvs) = write_batch seq kvs"
    and "length (batch_segments seq kvs) = length kvs"
    and "i < length kvs \<Longrightarrow> batch_segments seq kvs ! i =
           (if i = 0 then PutFixed64 seq @ PutFixed32 (word_of_nat (length kvs)) else []) @ batch_record (kvs ! i)"
    and "length (concat (take i (batch_segments seq kvs))) =
           (if i = 0 then 0 else 12 + length (concat (map batch_record (take i kvs))))"
  using assms
  by (auto simp: batch_segments_def write_batch_def neq_Nil_conv nth_Cons' take_Cons' take_map)

lemma length_concat_uniform:
  "(\<And>x. x \<in> set xs \<Longrightarrow> length (f x) = r) \<Longrightarrow> length (concat (map f xs)) = length xs * r"
  by (induction xs) auto

lemma launch_write_batch:
  assumes n: "0 < n" and lens: "ks < 2 ^ 32" "vs * k < 2 ^ 32"
    and "n * ks \<le> length d_keys" and "n * k * vs \<le> length d_values"
    and kvp: "kv_pairs = map (\<lambda>i. \<lparr>kv_key = i * ks, kv_value = i * k * vs, kv_value_array_size = k\<rparr>) [0..<n]"
    and offs: "\<And>i. i < n \<Longrightarrow> offs ! i = 12 + i * record_size ks (vs * k)"
    and mem: "length mem = 12 + n * record_size ks (vs * k)"
  shows "launch sched (GenerateTypedWriteBatchKernel ks vs d_keys d_values kv_pairs n offs seq)
           (grid_threads n) mem = write_batch seq (input_pairs ks (vs * k) d_keys d_values n)"
proof -
  define kvs where "kvs = input_pairs ks (vs * k) d_keys d_values n"
  let ?segs = "batch_segments seq kvs" and ?r = "record_size ks (vs * k)"
  have len: "length kvs = n" by (simp add: kvs_def)
  have ne: "kvs \<noteq> []" using n len by auto
  have pair: "length (fst kv) = ks \<and> length (snd kv) = vs * k" if "kv \<in> set kvs" for kv
    using that nth_input_pairs [of _ n ks d_keys "vs * k" d_values] assms(4,5)
    by (auto simp: in_set_conv_nth kvs_def ac_simps)
  have rec: "length (batch_record kv) = ?r" if "kv \<in> set kvs" for kv
    using pair [OF that] lens by (simp add: length_batch_record)
  have pre: "length (concat (map batch_record (take i kvs))) = i * ?r" if "i \<le> n" for i
    using length_concat_uniform [of "take i kvs" batch_record ?r] rec that len
    by (auto dest: in_set_takeD)
  have total: "length (concat ?segs) = 12 + n * ?r"
    using batch_segments_props(1,2) [OF ne] pre [of n] len by (simp add: write_batch_def)
  note body = batch_kernel_stores [OF kvp assms(4,5) kvs_def, of offs seq]
  have "launch sched (GenerateTypedWriteBatchKernel ks vs d_keys d_values kv_pairs n offs seq)
          (grid_threads n) mem = concat ?segs"
  proof (rule launch_segments)
    fix i assume i: "i < length ?segs"
    then have i': "i < n" using batch_segments_props(2) [OF ne] len by simp
    have ri: "length (batch_record (kvs ! i)) = ?r" using rec len i' by simp
    have top: "12 + i * ?r + ?r \<le> length mem" using index_inside [OF i', of ?r] mem by simp
    have start: "length (concat (take i ?segs)) = (if i = 0 then 0 else 12 + i * ?r)"
      using batch_segments_props(4) [OF ne, of i seq] pre [of i] i' by simp
    have seg: "?segs ! i = (if i = 0 then PutFixed64 seq @ PutFixed32 (word_of_nat n) else []) @
                 batch_record (kvs ! i)"
      using batch_segments_props(3) [OF ne] i' len by simp
    show "run_stores (GenerateTypedWriteBatchKernel ks vs d_keys d_values kv_pairs n offs seq i) mem =
            write_at mem (length (concat (take i ?segs))) (?segs ! i)"
      unfolding body start seg using i' offs [OF i'] top ri
      by (cases "i = 0")
        (simp_all add: run_stores_append run_header_stores run_record_stores write_at_consecutive)
    fix w assume "w \<in> set (GenerateTypedWriteBatchKernel ks vs d_keys d_values kv_pairs n offs seq i)"
    then show "length (concat (take i ?segs)) \<le> fst w \<and>
           fst w + length (snd w) \<le> length (concat (take i ?segs)) + length (?segs ! i)"
      unfolding body start seg using i' offs [OF i'] ri
      by (auto split: if_splits dest!: header_stores_inside record_stores_inside)
  qed (use grid_covers batch_segments_props(2) [OF ne] len mem total body in auto)
  then show ?thesis using batch_segments_props(1) [OF ne] kvs_def by simp
qed

section \<open>Correctness of the generator\<close>

text \<open>
  What the code relies on: allocations succeed and have the requested size, the CUDA calls succeed, and
  the two Thrust algorithms compute what their documentation says.
\<close>

definition scan_spec :: "(nat list \<Rightarrow> nat \<Rightarrow> nat list) \<Rightarrow> bool" where
  "scan_spec scan \<longleftrightarrow>
     (\<forall>xs init. length (scan xs init) = length xs \<and>
        (\<forall>i < length xs. scan xs init ! i = init + sum_list (take i xs)))"

definition gpu_env_ok :: "gpu_env \<Rightarrow> bool" where
  "gpu_env_ok env \<longleftrightarrow>
     (\<forall>n. \<exists>m. malloc_kv_pairs env n = Some m \<and> length m = n) \<and>
     (\<forall>n. \<exists>m. malloc_bytes env n = Some m \<and> length m = n) \<and>
     sync_sizes env \<and> sync_batch env \<and> free_output env \<and> free_kv_pairs env \<and>
     scan_spec (exclusive_scan env) \<and> (\<forall>xs. thrust_reduce env xs = sum_list xs)"

definition generator_ok :: "GPUWriteBatchGenerator \<Rightarrow> bool" where
  "generator_ok gen \<longleftrightarrow>
     length (d_record_sizes gen) = gen_max_batch_size gen \<and>
     length (d_record_offsets gen) = gen_max_batch_size gen"

lemma new_generator_ok:
  assumes "\<And>n m. cudaMalloc n = Some m \<Longrightarrow> length m = n"
    and "new_GPUWriteBatchGenerator cudaMalloc n = Returns gen"
  shows "generator_ok gen \<and> gen_max_batch_size gen = n"
  using assms by (auto simp: new_GPUWriteBatchGenerator_def generator_ok_def split: option.splits)

lemma scan_replicate:
  assumes "scan_spec scan" and "i < n"
  shows "write_at offs 0 (scan (replicate n r) 12) ! i = 12 + i * r"
    and "n \<le> length offs \<Longrightarrow> length (write_at offs 0 (scan (replicate n r) 12)) = length offs"
  using assms
  by (simp_all add: scan_spec_def write_at_def nth_append min_def sum_list_replicate)

lemma length_write_batch_input_pairs:
  assumes "ks < 2 ^ 32" "vs < 2 ^ 32" "n * ks \<le> length d_keys" "n * vs \<le> length d_values"
  shows "length (write_batch seq (input_pairs ks vs d_keys d_values n)) = 12 + n * record_size ks vs"
proof -
  have "length (batch_record kv) = record_size ks vs" if "kv \<in> set (input_pairs ks vs d_keys d_values n)" for kv
    using that nth_input_pairs [OF _ assms(3,4)] assms(1,2)
    by (auto simp: in_set_conv_nth length_batch_record)
  then show ?thesis by (simp add: write_batch_def length_concat_uniform)
qed

lemma GenerateTypedWriteBatch_result:
  assumes env: "gpu_env_ok env" and gen: "generator_ok gen"
    and n: "0 < n" "n \<le> gen_max_batch_size gen" and lens: "ks < 2 ^ 32" "vs * k < 2 ^ 32"
    and mem: "n * ks \<le> length d_keys" "n * k * vs \<le> length d_values"
  shows "\<exists>gen'. GenerateTypedWriteBatch env sched1 sched2 ks vs d_keys d_values n k seq gen =
             Returns (io_OK, gen') \<and>
           d_output_buffer gen' = Some (write_batch seq (input_pairs ks (vs * k) d_keys d_values n)) \<and>
           gen_total_batch_size gen' = length (write_batch seq (input_pairs ks (vs * k) d_keys d_values n)) \<and>
           gen_max_batch_size gen' = gen_max_batch_size gen \<and> generator_ok gen'"
proof -
  let ?r = "record_size ks (vs * k)"
  let ?sizes = "launch sched1 (\<lambda>i. snd (InitializeAndCalculateKernel ks vs n k i)) (grid_threads n) (d_record_sizes gen)"
  obtain kvm where kvm: "malloc_kv_pairs env n = Some kvm" "length kvm = n"
    using env unfolding gpu_env_ok_def by blast
  obtain out where out: "malloc_bytes env (12 + n * ?r) = Some out" "length out = 12 + n * ?r"
    using env unfolding gpu_env_ok_def by blast
  have sizes: "take n ?sizes = replicate n ?r"
    using launch_record_sizes [of n "d_record_sizes gen" sched1 ks vs k] gen n by (simp add: generator_ok_def)
  have len_sizes: "length ?sizes = gen_max_batch_size gen"
    using gen n by (subst length_launch)
      (auto simp: InitializeAndCalculateKernel_def generator_ok_def in_bounds_def Let_def split: if_splits)
  have scan: "scan_spec (exclusive_scan env)" and red: "thrust_reduce env (replicate n ?r) = n * ?r"
    using env by (auto simp: gpu_env_ok_def sum_list_replicate)
  have offs_len: "n \<le> length (d_record_offsets gen)" using gen n by (simp add: generator_ok_def)
  have batch: "launch sched2 (GenerateTypedWriteBatchKernel ks vs d_keys d_values
                   (launch sched1 (\<lambda>i. fst (InitializeAndCalculateKernel ks vs n k i)) (grid_threads n) kvm) n
                   (write_at (d_record_offsets gen) 0 (exclusive_scan env (replicate n ?r) 12)) seq)
                 (grid_threads n) out = write_batch seq (input_pairs ks (vs * k) d_keys d_values n)"
    by (rule launch_write_batch) (use n lens mem out kvm scan_replicate [OF scan] launch_kv_pairs in auto)
  have "length (write_batch seq (input_pairs ks (vs * k) d_keys d_values n)) = 12 + n * ?r"
    using length_write_batch_input_pairs [OF lens mem(1), of d_values seq] mem(2) by (simp add: ac_simps)
  then show ?thesis
    using env gen n mem kvm(1) out(1) sizes len_sizes red batch scan_replicate(2) [OF scan n(1) offs_len]
    by (simp add: GenerateTypedWriteBatch_def Let_def kWriteBatchHeader_def gpu_env_ok_def generator_ok_def)
qed

text \<open>A runtime that satisfies the hypotheses, for the witnesses.\<close>

definition sample_env :: gpu_env where
  "sample_env =
     \<lparr>malloc_kv_pairs = \<lambda>n. Some (replicate n \<lparr>kv_key = 0, kv_value = 0, kv_value_array_size = 0\<rparr>),
      malloc_bytes = \<lambda>n. Some (replicate n 0xcd), sync_sizes = True, sync_batch = True,
      free_output = True, free_kv_pairs = True,
      exclusive_scan = \<lambda>xs init. map (\<lambda>i. init + sum_list (take i xs)) [0..<length xs],
      thrust_reduce = sum_list\<rparr>"

definition sample_generator :: GPUWriteBatchGenerator where
  "sample_generator =
     \<lparr>gen_max_batch_size = 4, gen_total_batch_size = 0, d_record_sizes = replicate 4 0,
      d_record_offsets = replicate 4 0, d_output_buffer = None\<rparr>"

lemma sample_env_ok [simp]: "gpu_env_ok sample_env"
  by (simp add: gpu_env_ok_def sample_env_def scan_spec_def)

lemma sample_generator_ok [simp]:
  "generator_ok sample_generator" "gen_max_batch_size sample_generator = 4"
  by (simp_all add: generator_ok_def sample_generator_def)

section \<open>Properties\<close>







text \<open>The two size kernels agree: the stand-alone one computes what the fused one stores.\<close>

lemma size_kernels_agree:
  assumes "kv_pairs = map (\<lambda>i. \<lparr>kv_key = i * ks, kv_value = i * k * vs, kv_value_array_size = k\<rparr>) [0..<n]"
  shows "CalculateTypedRecordSizesKernel ks vs kv_pairs n idx = snd (InitializeAndCalculateKernel ks vs n k idx)"
  using assms by (simp add: CalculateTypedRecordSizesKernel_def InitializeAndCalculateKernel_def Let_def)

end
