(* ===== verification/WAL_Roundtrip.thy ===== *)
theory WAL_Roundtrip
  imports GWAL_Paths WAL_Reader MLKV_Write_Batch
begin

text \<open>
  What the GPU writer logs, RocksDB recovers: the physical records the writer emits are read back one by
  one by \<open>ReadPhysicalRecord\<close>, whatever the unused bytes at the end of a block contain, and
  \<open>ReadRecord\<close> puts their payloads together to the records that were added. With the file layer and
  the batch generator this gives the path of a write: device arrays, write batch, log record, file,
  recovery, parsed batch.
\<close>

section \<open>The position of a reader in a log\<close>

definition seq_file_spec :: "('f \<Rightarrow> bytes) \<Rightarrow> ('f, 'u) wal_env \<Rightarrow> bool" where
  "seq_file_spec remaining env \<longleftrightarrow>
     (\<forall>f n. \<exists>f'. file_Read env f n = (True, take n (remaining f), f') \<and> remaining f' = drop n (remaining f))"

text \<open>
  \<open>reader_at remaining off S r\<close>: the bytes still to be read are \<open>S\<close>, and the first of them is at
  offset \<open>off\<close> of its block. Before the end of the file the buffer reaches to the end of the block.
\<close>

definition reader_at :: "('f \<Rightarrow> bytes) \<Rightarrow> nat \<Rightarrow> bytes \<Rightarrow> ('f, 'u) Reader \<Rightarrow> bool" where
  "reader_at remaining off S r \<longleftrightarrow>
     rd_buffer r @ remaining (rd_file r) = S \<and> \<not> read_error r \<and> off \<le> kBlockSize \<and>
     (if rd_eof r then remaining (rd_file r) = [] \<and> off + length (rd_buffer r) \<le> kBlockSize
      else off + length (rd_buffer r) = kBlockSize)"

text \<open>The fields that reading a physical record of the GPU writer leaves alone.\<close>

definition same_context :: "('f, 'u) Reader \<Rightarrow> ('f, 'u) Reader \<Rightarrow> bool" where
  "same_context r r' \<longleftrightarrow>
     reports r' = reports r \<and> uncompress r' = uncompress r \<and> hash_state r' = hash_state r \<and>
     first_record_read r' = first_record_read r \<and> recycled r' = recycled r \<and> checksum r' = checksum r \<and>
     log_number r' = log_number r \<and> reporter r' = reporter r"

lemma same_context_refl [simp]: "same_context r r"
  by (simp add: same_context_def)

lemma same_context_trans: "same_context r s \<Longrightarrow> same_context s t \<Longrightarrow> same_context r t"
  by (simp add: same_context_def)

lemma new_Reader_at:
  "remaining f = S \<Longrightarrow> reader_at remaining kBlockSize S (new_Reader f rep chk n tr st mw ob)"
  by (simp add: reader_at_def new_Reader_def)

lemma wal_fragments_block_end: "wal_fragments kBlockSize first data = wal_fragments 0 first data"
proof -
  have "block_skip kBlockSize = block_skip 0" "block_start kBlockSize = block_start 0"
    "block_avail kBlockSize = block_avail 0"
    by (simp_all add: block_skip_def block_start_def block_avail_def wal_sizes)
  then show ?thesis by (subst (1 2) wal_fragments.simps) (simp add: Let_def)
qed

lemma log_fragments_block_end: "log_fragments kBlockSize ds = log_fragments 0 ds"
proof (cases ds)
  case (Cons d ds')
  have "frags_end kBlockSize (wal_fragments 0 True d) = frags_end 0 (wal_fragments 0 True d)"
    by (subst (1 2) wal_fragments.simps)
      (simp add: Let_def block_start_def wal_sizes)
  then show ?thesis by (simp add: Cons wal_fragments_block_end)
qed simp

section \<open>One physical record\<close>

lemma header_length_wal_header:
  assumes "n < 2 ^ 16"
  shows "header_length (wal_header t n @ rest) = n"
proof -
  have high: "\<not> bit n i" if "16 \<le> i" for i
  proof -
    have "take_bit 16 n = n" using assms by (simp add: take_bit_nat_eq_self_iff)
    then show ?thesis using that by (metis bit_take_bit_iff leD)
  qed
  have low: "n AND 0xff = take_bit 8 n" by (simp add: take_bit_eq_mask mask_eq_exp_minus_1)
  have "(ucast (word_of_nat (n AND 0xff) :: byte) AND 0xff) OR
        push_bit 8 (ucast (word_of_nat (drop_bit 8 n) :: byte) AND 0xff) = (word_of_nat n :: u32)"
  proof (rule bit_word_eqI)
    fix i assume "i < LENGTH(32)"
    then consider "i < 8" | "8 \<le> i" "i < 16" | "16 \<le> i" "i < 32" by fastforce
    then show "bit ((ucast (word_of_nat (n AND 0xff) :: byte) AND 0xff) OR
        push_bit 8 (ucast (word_of_nat (drop_bit 8 n) :: byte) AND 0xff) :: u32) i = bit (word_of_nat n :: u32) i"
      by cases (auto simp: and_0xff low bit_simps high)
  qed
  then show ?thesis
    using assms by (simp add: header_length_def wal_header_def unat_of_nat take_bit_nat_eq_self)
qed

lemma writer_type_code:
  "unat (word_of_nat (rt_code t) :: byte) = rt_code t"
  by (cases t) simp_all

definition writer_type :: "RecordType \<Rightarrow> bool" where
  "writer_type t \<longleftrightarrow> t \<in> {kNoChecksumFullType, kNoChecksumFirstType, kNoChecksumMiddleType, kNoChecksumLastType}"

lemma writer_type_fragment [simp]: "writer_type (fragment_type f l)"
  by (simp add: writer_type_def fragment_type_def)

lemma writer_type_facts:
  assumes "writer_type t"
  shows "\<not> is_recyclable_type (rt_code t)" "is_no_checksum (rt_code t)" "rt_code t \<noteq> rt_code kZeroType"
  using assms by (auto simp: writer_type_def is_recyclable_type_def is_no_checksum_def)

lemma parse_physical_frame:
  assumes buf: "rd_buffer r = wal_header t (length p) @ p @ rest" and t: "writer_type t"
    and p: "length p < 2 ^ 16" and u: "uncompress r = None"
  shows "parse_physical env want r = Some (rt_code t, p, 0, None, r\<lparr>rd_buffer := rest\<rparr>)"
proof -
  have type: "unat (rd_buffer r ! 6) = rt_code t"
    by (simp add: buf wal_header_def writer_type_code)
  have len: "header_length (rd_buffer r) = length p"
    using header_length_wal_header [OF p, of t "p @ rest"] by (simp add: buf)
  show ?thesis
    using writer_type_facts [OF t] u
    by (simp add: parse_physical_def Let_def type len deliver_payload_def) (simp add: buf read_at_def)
qed

text \<open>
  A frame at the current position is read whether it is in the buffer or starts the next block; the unused
  bytes in front of it are skipped without looking at them.
\<close>

lemma ReadPhysical_in_block:
  assumes at: "reader_at remaining off (wal_header t (length p) @ p @ S) r"
    and fits: "off + kHeaderSize + length p \<le> kBlockSize"
    and t: "writer_type t" and u: "uncompress r = None"
  shows "\<exists>r'. ReadPhysicalRecord env want r = Some (rt_code t, p, 0, None, r') \<and>
              reader_at remaining (off + kHeaderSize + length p) S r' \<and> same_context r r'"
proof -
  let ?frame = "wal_header t (length p) @ p"
  have eq: "rd_buffer r @ remaining (rd_file r) = ?frame @ S" using at by (simp add: reader_at_def)
  have "length (rd_buffer r) + length (remaining (rd_file r)) = length ?frame + length S"
    using arg_cong [OF eq, of length] by simp
  then have le: "length ?frame \<le> length (rd_buffer r)"
    using at fits by (cases "rd_eof r") (simp_all add: reader_at_def)
  define rest where "rest = drop (length ?frame) (rd_buffer r)"
  have "take (length ?frame) (rd_buffer r) = ?frame"
    using arg_cong [OF eq, of "take (length ?frame)"] le by simp
  then have buf: "rd_buffer r = ?frame @ rest" unfolding rest_def by (metis append_take_drop_id)
  have type: "unat (rd_buffer r ! 6) = rt_code t" by (simp add: buf wal_header_def writer_type_code)
  have "length p < 2 ^ 16" using fits by (simp add: wal_sizes)
  then have "parse_physical env want r = Some (rt_code t, p, 0, None, r\<lparr>rd_buffer := rest\<rparr>)"
    using parse_physical_frame [of r t p rest env want] buf t u by simp
  moreover have "\<not> is_recyclable_type (unat (rd_buffer r ! 6))" "\<not> length (rd_buffer r) < kHeaderSize"
    using writer_type_facts(1) [OF t] type le by simp_all
  ultimately have "ReadPhysicalRecord env want r = Some (rt_code t, p, 0, None, r\<lparr>rd_buffer := rest\<rparr>)"
    by (subst ReadPhysicalRecord.simps) simp
  moreover have "reader_at remaining (off + kHeaderSize + length p) S (r\<lparr>rd_buffer := rest\<rparr>)"
    using at fits by (auto simp: reader_at_def buf)
  ultimately show ?thesis by (auto simp: same_context_def)
qed

lemma ReadMore_at:
  assumes spec: "seq_file_spec remaining env" and "\<not> rd_eof r" "\<not> read_error r"
    and rem: "remaining (rd_file r) = S"
  shows "\<exists>r'. ReadMore env r = (True, 0, kEof, r') \<and> reader_at remaining 0 S r' \<and> same_context r r'"
proof -
  obtain f' where f': "file_Read env (rd_file r) kBlockSize = (True, take kBlockSize S, f')"
    "remaining f' = drop kBlockSize S"
    using spec rem unfolding seq_file_spec_def by blast
  then show ?thesis
    using assms by (auto simp: ReadMore_def Let_def reader_at_def same_context_def)
qed

lemma ReadPhysical_frame:
  assumes spec: "seq_file_spec remaining env" and fill: "kHeaderSize - 1 \<le> length filler"
    and at: "reader_at remaining off (frame_bytes filler (block_skip off, t, p) @ S) r"
    and fits: "block_start off + kHeaderSize + length p \<le> kBlockSize"
    and t: "writer_type t" and u: "uncompress r = None"
  shows "\<exists>r'. ReadPhysicalRecord env want r = Some (rt_code t, p, 0, None, r') \<and>
              reader_at remaining (block_start off + kHeaderSize + length p) S r' \<and> same_context r r'"
proof (cases "kBlockSize - off < kHeaderSize")
  case False
  then have "block_skip off = 0" "block_start off = off" by (simp_all add: block_skip_def block_start_def)
  then show ?thesis using ReadPhysical_in_block [of remaining off t p S r env want] at fits t u
    by (simp add: frame_bytes_def)
next
  case True
  then have sk: "block_skip off = kBlockSize - off" "block_start off = 0"
    by (simp_all add: block_skip_def block_start_def)
  have skl: "length (take (block_skip off) filler) = kBlockSize - off"
    using True fill sk by (simp add: wal_sizes)
  have le: "off \<le> kBlockSize" using at by (simp add: reader_at_def)
  have neof: "\<not> rd_eof r"
  proof
    assume "rd_eof r"
    then have "length (rd_buffer r) = kBlockSize - off + kHeaderSize + length p + length S"
      "off + length (rd_buffer r) \<le> kBlockSize"
      using at skl by (auto simp: reader_at_def frame_bytes_def dest: arg_cong [of _ _ length])
    then show False using le by (simp add: wal_sizes)
  qed
  then have "length (rd_buffer r) = kBlockSize - off" using at by (auto simp: reader_at_def)
  then have rem: "remaining (rd_file r) = wal_header t (length p) @ p @ S"
    and short: "length (rd_buffer r) < kHeaderSize"
    using at skl True by (auto simp: reader_at_def frame_bytes_def)
  obtain r1 where r1: "ReadMore env r = (True, 0, kEof, r1)"
    "reader_at remaining 0 (wal_header t (length p) @ p @ S) r1" "same_context r r1"
    using ReadMore_at [OF spec neof _ rem] at by (auto simp: reader_at_def)
  have "uncompress r1 = None" using r1(3) u by (simp add: same_context_def)
  then obtain r2 where "ReadPhysicalRecord env want r1 = Some (rt_code t, p, 0, None, r2)"
    "reader_at remaining (kHeaderSize + length p) S r2" "same_context r1 r2"
    using ReadPhysical_in_block [OF r1(2)] fits t sk(2) by fastforce
  moreover have "ReadPhysicalRecord env want r = ReadPhysicalRecord env want r1"
    using short r1(1) by (subst ReadPhysicalRecord.simps) simp
  ultimately show ?thesis using same_context_trans [OF r1(3)] sk(2) by auto
qed

lemma ReadPhysical_end:
  assumes spec: "seq_file_spec remaining env" and at: "reader_at remaining off [] r"
  shows "\<exists>r'. ReadPhysicalRecord env want r = Some (kEof, [], 0, None, r') \<and> reports r' = reports r"
proof -
  have stop: "ReadPhysicalRecord env want q = Some (kEof, [], 0, None, q)"
    if "rd_buffer q = []" "rd_eof q" for q
  proof -
    have "q\<lparr>rd_buffer := []\<rparr> = q" using that(1) by simp
    then show ?thesis
      using that by (subst ReadPhysicalRecord.simps) (simp add: wal_sizes ReadMore_def)
  qed
  have emp: "rd_buffer r = []" "remaining (rd_file r) = []" "\<not> read_error r"
    using at by (auto simp: reader_at_def)
  show ?thesis
  proof (cases "rd_eof r")
    case True
    then show ?thesis using stop emp by blast
  next
    case False
    obtain r1 where r1: "ReadMore env r = (True, 0, kEof, r1)" "reader_at remaining 0 [] r1" "same_context r r1"
      using ReadMore_at [OF spec False emp(3,2)] by blast
    then have "rd_buffer r1 = []" "rd_eof r1" by (auto simp: reader_at_def wal_sizes split: if_splits)
    moreover have "ReadPhysicalRecord env want r = ReadPhysicalRecord env want r1"
      using emp(1) r1(1) by (subst ReadPhysicalRecord.simps) (simp add: wal_sizes)
    ultimately show ?thesis using stop r1(3) by (auto simp: same_context_def)
  qed
qed

section \<open>Logical records\<close>

lemma dispatch_writer_types:
  "dispatch_record env mode want k (rt_code kNoChecksumFullType) f d st = on_full env want k f st"
  "dispatch_record env mode want k (rt_code kNoChecksumFirstType) f d st = on_first want k f st"
  "dispatch_record env mode want k (rt_code kNoChecksumMiddleType) f d st = on_middle want f st"
  "dispatch_record env mode want k (rt_code kNoChecksumLastType) f d st = on_last env want f st"
  by (simp_all add: dispatch_record_def)

lemma reader_at_update [simp]:
  "reader_at remaining off S (r\<lparr>last_record_offset := a\<rparr>) = reader_at remaining off S r"
  "reader_at remaining off S (r\<lparr>first_record_read := b\<rparr>) = reader_at remaining off S r"
  "reader_at remaining off S (r\<lparr>hash_state := h\<rparr>) = reader_at remaining off S r"
  "reader_at remaining off S (r\<lparr>uncompress := u\<rparr>) = reader_at remaining off S r"
  by (simp_all add: reader_at_def)

lemma dispatch_eof: "dispatch_record env mode want k kEof f d st = on_eof mode st"
  by (simp add: dispatch_record_def reader_codes)

text \<open>
  The state of a call of \<open>ReadRecord\<close> in the middle of a record: \<open>acc\<close> is what has been read of it.
\<close>

definition mid_record :: "bool \<Rightarrow> bool \<Rightarrow> bytes \<Rightarrow> ('f, 'u) rr_state \<Rightarrow> bool" where
  "mid_record want first acc st \<longleftrightarrow>
     in_fragmented_record st = (\<not> first) \<and> scratch st = acc \<and> (first \<longrightarrow> acc = []) \<and>
     record_checksum st = None \<and> uncompress (rr_reader st) = None \<and>
     (want \<longrightarrow> hash_state (rr_reader st) = Some acc)"

definition record_read ::
  "('f, 'u) wal_env \<Rightarrow> bool \<Rightarrow> ('f \<Rightarrow> bytes) \<Rightarrow> nat \<Rightarrow> bytes \<Rightarrow> bytes \<Rightarrow> ('f, 'u) rr_state \<Rightarrow>
   (bool \<times> bytes \<times> ('f, 'u) rr_state) option \<Rightarrow> bool" where
  "record_read env want remaining off S data st result \<longleftrightarrow>
     (\<exists>st'. result = Some (True, data, st') \<and> reader_at remaining off S (rr_reader st') \<and>
        uncompress (rr_reader st') = None \<and> reports (rr_reader st') = reports (rr_reader st) \<and>
        record_checksum st' = (if want then Some (XXH3_64bits env data) else None))"

lemma round_of_frame:
  assumes "seq_file_spec remaining env" and "kHeaderSize - 1 \<le> length filler"
    and "reader_at remaining off (frame_bytes filler (block_skip off, t, p) @ S) (rr_reader st)"
    and "length p \<le> block_avail off" and "writer_type t" and "uncompress (rr_reader st) = None"
  obtains r where
    "ReadRecord_round env mode want st =
       Some (dispatch_record env mode want (LastRecordEnd (rr_reader st)) (rt_code t) p 0 (st\<lparr>rr_reader := r\<rparr>))"
    "reader_at remaining (block_start off + kHeaderSize + length p) S r" "same_context (rr_reader st) r"
proof -
  have fits: "block_start off + kHeaderSize + length p \<le> kBlockSize"
    using assms(4) block_start_bound [of off] by (simp add: block_avail_def)
  obtain r where r: "ReadPhysicalRecord env want (rr_reader st) = Some (rt_code t, p, 0, None, r)"
    "reader_at remaining (block_start off + kHeaderSize + length p) S r" "same_context (rr_reader st) r"
    using ReadPhysical_frame [OF assms(1-3) fits assms(5,6)] by blast
  then show ?thesis using that [of r] by (simp add: ReadRecord_round_def Let_def)
qed

lemma ReadRecord_loop_frames:
  assumes spec: "seq_file_spec remaining env" and fill: "kHeaderSize - 1 \<le> length filler"
    and "reader_at remaining off (concat (map (frame_bytes filler) (wal_fragments off first data)) @ S) (rr_reader st)"
    and "mid_record want first acc st"
  shows "record_read env want remaining (frags_end off (wal_fragments off first data)) S (acc @ data) st
           (ReadRecord_loop env mode want st)"
  using assms(3,4)
proof (induction off first data arbitrary: st acc rule: wal_fragments.induct)
  case (1 off first data)
  define n where "n = min (length data) (block_avail off)"
  let ?t = "fragment_type first (length data = n)" and ?p = "take n data"
  let ?o = "block_start off + kHeaderSize + n"
  let ?rest = "if 0 < length data - n then wal_fragments ?o False (drop n data) else []"
  have frs: "wal_fragments off first data = (block_skip off, ?t, ?p) # ?rest"
    by (rule wal_fragments_step [OF n_def])
  have len: "length ?p = n" "length ?p \<le> block_avail off" by (simp_all add: n_def)
  have u: "uncompress (rr_reader st) = None" using "1.prems"(2) by (simp add: mid_record_def)
  let ?S = "concat (map (frame_bytes filler) ?rest) @ S"
  have at: "reader_at remaining off (frame_bytes filler (block_skip off, ?t, ?p) @ ?S) (rr_reader st)"
    using "1.prems"(1) unfolding frs by simp
  obtain r where r: "ReadRecord_round env mode want st =
       Some (dispatch_record env mode want (LastRecordEnd (rr_reader st)) (rt_code ?t) ?p 0 (st\<lparr>rr_reader := r\<rparr>))"
    "reader_at remaining ?o ?S r" "same_context (rr_reader st) r"
    using round_of_frame [OF spec fill at len(2) writer_type_fragment u] len(1) by metis
  have ctx: "reports r = reports (rr_reader st)" "uncompress r = None" "hash_state r = hash_state (rr_reader st)"
    using r(3) u by (simp_all add: same_context_def)
  note mid = "1.prems"(2) [unfolded mid_record_def]
  show ?case
  proof (cases "length data = n")
    case last: True
    then have fin: "?rest = []" "frags_end off (wal_fragments off first data) = ?o" "?p = data"
      unfolding frs using len by simp_all
    have at': "reader_at remaining ?o S r" using r(2) unfolding fin by simp
    show ?thesis
    proof (cases first)
      case True
      then show ?thesis
        using r(1) at' mid ctx last fin
        by (subst ReadRecord_loop.simps)
          (simp add: fragment_type_def dispatch_writer_types [simplified] on_full_def report_if_def upd_reader_def Let_def
            record_read_def)
    next
      case False
      then show ?thesis
        using r(1) at' mid ctx last fin
        by (subst ReadRecord_loop.simps)
          (simp add: fragment_type_def dispatch_writer_types [simplified] on_last_def hash_update_def upd_reader_def Let_def
            record_read_def)
    qed
  next
    case more: False
    then have pos: "0 < length data - n" by (simp add: n_def)
    then have fin: "?rest = wal_fragments ?o False (drop n data)"
      "frags_end off (wal_fragments off first data) = frags_end ?o (wal_fragments ?o False (drop n data))"
      unfolding frs using len by simp_all
    have at': "reader_at remaining ?o (concat (map (frame_bytes filler) (wal_fragments ?o False (drop n data))) @ S) r"
      using r(2) unfolding fin .
    have step: "\<exists>st'. ReadRecord_loop env mode want st = ReadRecord_loop env mode want st' \<and>
        reader_at remaining ?o (concat (map (frame_bytes filler) (wal_fragments ?o False (drop n data))) @ S)
          (rr_reader st') \<and> mid_record want False (acc @ ?p) st' \<and> reports (rr_reader st') = reports (rr_reader st)"
    proof (cases first)
      case True
      then show ?thesis
        using r(1) at' mid ctx more
        by (subst ReadRecord_loop.simps)
          (auto simp: fragment_type_def dispatch_writer_types [simplified] on_first_def hash_update_def upd_reader_def Let_def
            mid_record_def intro!: exI)
    next
      case False
      then show ?thesis
        using r(1) at' mid ctx more
        by (subst ReadRecord_loop.simps)
          (auto simp: fragment_type_def dispatch_writer_types [simplified] on_middle_def hash_update_def upd_reader_def Let_def
            mid_record_def intro!: exI)
    qed
    then obtain st' where st': "ReadRecord_loop env mode want st = ReadRecord_loop env mode want st'"
      "reader_at remaining ?o (concat (map (frame_bytes filler) (wal_fragments ?o False (drop n data))) @ S)
          (rr_reader st')" "mid_record want False (acc @ ?p) st'" "reports (rr_reader st') = reports (rr_reader st)"
      by blast
    have "record_read env want remaining (frags_end ?o (wal_fragments ?o False (drop n data))) S
        ((acc @ ?p) @ drop n data) st' (ReadRecord_loop env mode want st')"
      using "1.IH" [OF n_def refl pos st'(2,3)] .
    then show ?thesis using st'(1,4) fin(2) by (simp add: record_read_def)
  qed
qed

lemma ReadRecord_frames:
  assumes "seq_file_spec remaining env" and "kHeaderSize - 1 \<le> length filler" and "uncompress r = None"
    and "reader_at remaining off (concat (map (frame_bytes filler) (wal_fragments off True data)) @ S) r"
  shows "\<exists>r'. ReadRecord env mode want r =
             Some (True, data, if want then Some (XXH3_64bits env data) else None, r') \<and>
           reader_at remaining (frags_end off (wal_fragments off True data)) S r' \<and>
           uncompress r' = None \<and> reports r' = reports r"
proof -
  let ?r = "(if want then r\<lparr>hash_state := Some []\<rparr> else r)\<lparr>uncompress := None\<rparr>"
  let ?st = "\<lparr>rr_reader = ?r, in_fragmented_record = False, scratch = [], prospective_record_offset = 0,
              record_checksum = None\<rparr>"
  have "reader_at remaining off (concat (map (frame_bytes filler) (wal_fragments off True data)) @ S) (rr_reader ?st)"
    using assms(4) by (cases want) simp_all
  moreover have "mid_record want True [] ?st" by (simp add: mid_record_def)
  ultimately have "record_read env want remaining (frags_end off (wal_fragments off True data)) S data ?st
      (ReadRecord_loop env mode want ?st)"
    using ReadRecord_loop_frames [OF assms(1,2), of off True data S ?st want "[]" mode] by simp
  then show ?thesis using assms(3) by (auto simp: record_read_def ReadRecord_def Let_def)
qed

lemma ReadRecord_end:
  assumes "seq_file_spec remaining env" and "reader_at remaining off [] r"
  shows "\<exists>r'. ReadRecord env mode want r = Some (False, [], None, r') \<and> reports r' = reports r"
proof -
  let ?r = "(if want then r\<lparr>hash_state := Some []\<rparr> else r)
              \<lparr>uncompress := map_option (uncompress_Reset env) (uncompress r)\<rparr>"
  have "reader_at remaining off [] ?r" using assms(2) by (cases want) simp_all
  then obtain r' where "ReadPhysicalRecord env want ?r = Some (kEof, [], 0, None, r')" "reports r' = reports ?r"
    using ReadPhysical_end [OF assms(1)] by blast
  then show ?thesis
    by (auto simp: ReadRecord_def Let_def ReadRecord_loop.simps ReadRecord_round_def dispatch_eof on_eof_def
        split: if_splits)
qed

section \<open>A whole log\<close>

text \<open>Recovery as its callers do it: read records until \<open>ReadRecord\<close> returns false, at most \<open>n\<close> times.\<close>

primrec read_records ::
  "('f, 'u) wal_env \<Rightarrow> WALRecoveryMode \<Rightarrow> bool \<Rightarrow> nat \<Rightarrow> ('f, 'u) Reader \<Rightarrow>
   (bytes list \<times> ('f, 'u) Reader) option" where
  "read_records env mode want 0 r = Some ([], r)"
| "read_records env mode want (Suc n) r =
     (case ReadRecord env mode want r of
        None \<Rightarrow> None
      | Some (found, record, csum, r) \<Rightarrow>
          if found
          then map_option (\<lambda>(rs, r). (record # rs, r)) (read_records env mode want n r)
          else Some ([], r))"

lemma read_records_log:
  assumes "seq_file_spec remaining env" and "kHeaderSize - 1 \<le> length filler" and "uncompress r = None"
    and "reader_at remaining off (concat (map (frame_bytes filler) (log_fragments off ds))) r"
    and "length ds < n"
  shows "\<exists>r'. read_records env mode want n r = Some (ds, r') \<and> reports r' = reports r"
  using assms(3-)
proof (induction ds arbitrary: off r n)
  case Nil
  then obtain k where "n = Suc k" by (cases n) auto
  then show ?case using ReadRecord_end [OF assms(1), of off r mode want] Nil.prems by auto
next
  case (Cons d ds)
  then obtain k where n: "n = Suc k" "length ds < k" by (cases n) auto
  let ?S = "concat (map (frame_bytes filler) (log_fragments (frags_end off (wal_fragments off True d)) ds))"
  have "reader_at remaining off (concat (map (frame_bytes filler) (wal_fragments off True d)) @ ?S) r"
    using Cons.prems(2) by simp
  then obtain r' where r': "ReadRecord env mode want r =
         Some (True, d, if want then Some (XXH3_64bits env d) else None, r')"
      "reader_at remaining (frags_end off (wal_fragments off True d)) ?S r'"
      "uncompress r' = None" "reports r' = reports r"
    using ReadRecord_frames [OF assms(1,2) Cons.prems(1)] by blast
  then show ?case using Cons.IH [OF r'(3,2) n(2)] n(1) by auto
qed

lemma writer_filler: "gwal_ok w \<Longrightarrow> kHeaderSize - 1 \<le> length (gwal_trailer w)"
  by (simp add: gwal_trailer_length wal_sizes)

text \<open>Writing through the buffered file: what is in the file after closing is the framing of the records.\<close>

lemma logged_file_contents:
  assumes "open_env_ok contents default_GDSOptions oenv h" and "contents (cu_state h) = []"
    and "rel \<noteq> []" and "malloc_header genv = Some hb" "malloc_trailer genv = Some tb" "malloc_temp genv = Some mb"
    and "length hb = kRecyclableHeaderSize" "length tb = 16" "length mb = kBlockSize"
  shows "\<exists>w w'. new_GWALWriter (\<lambda>f. new_GDSFileSystem no_handle oenv f default_GDSOptions) genv True True rel db = Returns w \<and>
           AddRecords AppendFromGPU ds w = Returns w' \<and> kHeaderSize - 1 \<le> length (gwal_trailer w) \<and>
           gds_contents contents (delete_GWALWriter delete_GDSFileSystem w') =
             concat (map (frame_bytes (gwal_trailer w)) (log_fragments 0 ds))"
proof -
  let ?fname = "path_append db (if hd rel = CHR ''/'' then tl rel else rel)"
  obtain s where s: "new_GDSFileSystem no_handle oenv ?fname default_GDSOptions = Returns s"
    "gds_ready contents s" "gds_logical contents s = []"
    using new_GDSFileSystem_ok [OF assms(1), of no_handle ?fname] assms(2) by (auto simp: gds_ready_def)
  obtain w where w: "new_GWALWriter (\<lambda>f. new_GDSFileSystem no_handle oenv f default_GDSOptions) genv True True rel db = Returns w"
    "gwal_ok w" "dest w = s" "block_offset w = 0"
    using new_GWALWriter_result [OF assms(3), of "\<lambda>f. new_GDSFileSystem no_handle oenv f default_GDSOptions" db s
        genv hb tb mb] s(1) assms(4-) by blast
  obtain w' where w': "AddRecords AppendFromGPU ds w = Returns w'" "gds_ready contents (dest w')"
    "gds_logical contents (dest w') = concat (map (frame_bytes (gwal_trailer w)) (log_fragments 0 ds))"
    using gds.add_records_ok [OF w(2), of contents ds] w(3,4) s(2,3) by auto
  have "gds_contents contents (delete_GWALWriter delete_GDSFileSystem w') = gds_logical contents (dest w')"
    using w'(2) by (simp add: delete_GWALWriter_def CleanupGPUBuffers_def delete_contents gds_ready_def)
  then show ?thesis using w w' writer_filler [OF w(2)] by auto
qed

section \<open>Sample environments for the witnesses\<close>

definition list_wal_env :: "(bytes, unit) wal_env" where
  "list_wal_env =
     \<lparr>file_Read = \<lambda>f n. (True, take n f, drop n f), crc32c_Value = \<lambda>_. 0, crc32c_Unmask = \<lambda>x. x,
      decode_compression = \<lambda>_. None, decode_predecessor = \<lambda>_. None, decode_timestamp_size = \<lambda>_. None,
      uncompress_Create = \<lambda>_. (), uncompress_Reset = \<lambda>u. u, Uncompress = \<lambda>u i. (0, [], u),
      XXH3_64bits = \<lambda>_. 0\<rparr>"

definition sample_gwal_env :: gwal_env where
  "sample_gwal_env =
     \<lparr>malloc_header = Some (replicate kRecyclableHeaderSize 0xab),
      malloc_trailer = Some (replicate 16 0xab), malloc_temp = Some (replicate kBlockSize 0xab)\<rparr>"

definition no_info :: PredecessorWALInfo where
  "no_info = \<lparr>pw_log_number = 0, pw_size_bytes = 0, pw_last_seqno_recorded = 0, pw_initialized = False\<rparr>"

lemma list_wal_env_spec [simp]: "seq_file_spec (\<lambda>f. f) list_wal_env"
  by (simp add: seq_file_spec_def list_wal_env_def)

lemma default_alignment [simp]: "GDSAlignment default_GDSOptions = 4096"
  by (simp add: default_GDSOptions_def)

section \<open>Properties\<close>

text \<open>
  C2: the recovery round trip. Records added by a \<open>GWALWriter\<close> on a new log through the buffered
  \<open>GDSFileSystem\<close>, in any number and of any sizes, are in the file after the writer is destroyed, and the
  RocksDB reader returns exactly these records in order and then the end of the log, in every recovery
  mode, with and without checksum verification, and without reporting a single dropped byte.
\<close>

theorem gwal_recovery_roundtrip:
  assumes "open_env_ok contents default_GDSOptions oenv h" and "contents (cu_state h) = []"
    and "rel \<noteq> []" and "malloc_header genv = Some hb" "malloc_trailer genv = Some tb" "malloc_temp genv = Some mb"
    and "length hb = kRecyclableHeaderSize" "length tb = 16" "length mb = kBlockSize"
    and "seq_file_spec remaining env"
  shows "\<exists>w w'. new_GWALWriter (\<lambda>f. new_GDSFileSystem no_handle oenv f default_GDSOptions) genv True True rel db = Returns w \<and>
           AddRecords AppendFromGPU ds w = Returns w' \<and>
           (\<forall>f n. remaining f = gds_contents contents (delete_GWALWriter delete_GDSFileSystem w') \<and> length ds < n \<longrightarrow>
              (\<exists>r. read_records env mode want n (new_Reader f rep chk num tr stp mw ob) = Some (ds, r) \<and>
                   reports r = []))"
proof -
  obtain w w' where w: "new_GWALWriter (\<lambda>f. new_GDSFileSystem no_handle oenv f default_GDSOptions) genv True True rel db = Returns w"
    "AddRecords AppendFromGPU ds w = Returns w'" "kHeaderSize - 1 \<le> length (gwal_trailer w)"
    "gds_contents contents (delete_GWALWriter delete_GDSFileSystem w') =
       concat (map (frame_bytes (gwal_trailer w)) (log_fragments kBlockSize ds))"
    using logged_file_contents [OF assms(1-9), of no_handle db ds] log_fragments_block_end by metis
  have "\<exists>r. read_records env mode want n (new_Reader f rep chk num tr stp mw ob) = Some (ds, r) \<and> reports r = []"
    if "remaining f = gds_contents contents (delete_GWALWriter delete_GDSFileSystem w')" "length ds < n" for f n
    using read_records_log [OF assms(10) w(3) _ new_Reader_at that(2)] that(1) w(4)
    by (fastforce simp: new_Reader_def)
  then show ?thesis using w(1,2) by blast
qed

theorem gwal_recovery_roundtrip_witness:
  "\<exists>w w'. new_GWALWriter (\<lambda>f. new_GDSFileSystem (list_device []) (list_open_env default_GDSOptions []) f default_GDSOptions)
            sample_gwal_env True True ''/000012.log'' ''/db'' = Returns w \<and>
     AddRecords AppendFromGPU [[1, 2, 3], replicate 40000 7, []] w = Returns w' \<and>
     (\<forall>f n. f = gds_contents (\<lambda>f. f) (delete_GWALWriter delete_GDSFileSystem w') \<and> length [[1, 2, 3], replicate 40000 (7 :: byte), []] < n \<longrightarrow>
        (\<exists>r. read_records list_wal_env kAbsoluteConsistency True n (new_Reader f True True 12 False False 0 no_info) =
                Some ([[1, 2, 3], replicate 40000 7, []], r) \<and> reports r = []))"
  by (rule gwal_recovery_roundtrip [where contents = "\<lambda>f. f" and remaining = "\<lambda>f. f" and h = "list_device []" and hb = "replicate kRecyclableHeaderSize 0xab"
        and tb = "replicate 16 0xab" and mb = "replicate kBlockSize 0xab"])
    (simp_all add: sample_gwal_env_def)



section \<open>A log the reader does not get past\<close>

text \<open>
  Once a record has been read from a log that is not recycled, a header with a recyclable type makes
  \<open>ReadPhysicalRecord\<close> return \<open>kBadRecord\<close> without consuming it; \<open>ReadRecord\<close> goes on and finds it again.
\<close>

definition stuck :: "('f, 'u) Reader \<Rightarrow> bool" where
  "stuck r \<longleftrightarrow> first_record_read r \<and> \<not> recycled r \<and> kHeaderSize \<le> length (rd_buffer r) \<and>
     is_recyclable_type (unat (rd_buffer r ! 6))"

lemma stuck_round:
  assumes "stuck (rr_reader st)"
  shows "\<exists>st'. ReadRecord_round env mode want st = Some (Continue st') \<and> stuck (rr_reader st')"
proof -
  have "ReadPhysicalRecord env want (rr_reader st) = Some (kBadRecord, [], 0, None, rr_reader st)"
    using assms by (subst ReadPhysicalRecord.simps) (simp add: stuck_def)
  moreover have "dispatch_record env mode want k kBadRecord [] 0 st' = on_bad_record st'" for k st'
    by (simp add: dispatch_record_def reader_codes)
  moreover have "stuck (ReportCorruption n m r) = stuck r" for n m and r :: "('a, 'b) Reader"
    by (simp add: stuck_def ReportCorruption_def)
  ultimately show ?thesis
    using assms by (simp add: ReadRecord_round_def Let_def on_bad_record_def report_if_def upd_reader_def)
qed

lemma stuck_loop:
  assumes "ReadRecord_loop env mode want st = Some y" shows "\<not> stuck (rr_reader st)"
proof (rule ReadRecord_loop.raw_induct [of "\<lambda>env mode want st y. \<not> stuck (rr_reader st)", OF _ assms], rule notI)
  fix loop env mode want and st :: "('a, 'b) rr_state" and y
  assume IH: "\<And>env mode want st y. loop env mode want st = Some y \<Longrightarrow> \<not> stuck (rr_reader st)"
    and body: "(case ReadRecord_round env mode want st of None \<Rightarrow> None
                | Some (Stop b rec st) \<Rightarrow> Some (b, rec, st)
                | Some (Continue st) \<Rightarrow> loop env mode want st) = Some y"
    and "stuck (rr_reader st)"
  then obtain st' where "ReadRecord_round env mode want st = Some (Continue st')" "stuck (rr_reader st')"
    using stuck_round by blast
  then show False using IH body by auto
qed

text \<open>
  C28: in such a state \<open>ReadRecord\<close> never returns, in any recovery mode: recovery of a log without
  checksums hangs on one flipped type byte.
\<close>

theorem ReadRecord_diverges:
  assumes "first_record_read r" and "\<not> recycled r" and "kHeaderSize \<le> length (rd_buffer r)"
    and "is_recyclable_type (unat (rd_buffer r ! 6))"
  shows "ReadRecord env mode want r = None"
proof -
  let ?r = "(if want then r\<lparr>hash_state := Some []\<rparr> else r)\<lparr>uncompress := map_option (uncompress_Reset env) (uncompress r)\<rparr>"
  let ?st = "\<lparr>rr_reader = ?r, in_fragmented_record = False, scratch = [], prospective_record_offset = 0, record_checksum = None\<rparr>"
  have "stuck (rr_reader ?st)" using assms by (simp add: stuck_def)
  then have "ReadRecord_loop env mode want ?st = None"
    using stuck_loop by (metis not_None_eq)
  then show ?thesis by (cases want) (simp_all add: ReadRecord_def Let_def)
qed

definition corrupted_reader :: "(bytes, unit) Reader" where
  "corrupted_reader =
     (new_Reader [] True True 12 False False 0 no_info)
       \<lparr>first_record_read := True, rd_eof := True, rd_buffer := [0, 0, 0, 0, 1, 0, 5, 42]\<rparr>"

theorem ReadRecord_diverges_witness:
  "ReadRecord list_wal_env kTolerateCorruptedTailRecords False corrupted_reader = None"
  by (rule ReadRecord_diverges)
    (simp_all add: corrupted_reader_def new_Reader_def wal_sizes is_recyclable_type_def)

end
