(* ===== verification/GDS_Block.thy ===== *)
theory GDS_Block
  imports MLKV_Coding MLKV_Config "HOL-Library.List_Lexorder"
begin

text \<open>
  Data blocks in device memory and their iterator: \<^verbatim>\<open>gds/gds_block.cu\<close> and the buffers of
  \<^verbatim>\<open>gds/format.cuh\<close>. The kernels run in one thread and are functions of the iterator state and
  the pinned buffer. Pointers into the block are offsets; an access outside the block or the key buffer
  is undefined. Offsets and lengths are 32-bit words where the code has \<^verbatim>\<open>uint32_t\<close>, and the
  lengths the kernels hand to the host are signed. The pinned buffer is mapped memory, so its host and
  device pointers name the same cells.

  The linear scan of \<open>SeekKernel\<close> and the loop of \<open>SeekToLastImpl\<close> follow lengths stored in the block and
  are \<open>partial_function\<close>s; the binary search is a \<open>function\<close> with its termination proof.

  The contract \<open>comparator\<close> is what the search relies on of a comparison. It is interpreted on both
  comparison functions of the kernels.
\<close>

section \<open>Comparison\<close>

fun compare_loop :: "bytes \<Rightarrow> bytes \<Rightarrow> int" where
  "compare_loop (x # a) (y # b) = (if x < y then -1 else if x > y then 1 else compare_loop a b)"
| "compare_loop _ _ = 0"

definition CompareSlices :: "bytes \<Rightarrow> bytes \<Rightarrow> int" where
  "CompareSlices a b =
     (let c = compare_loop a b
      in if c \<noteq> 0 then c
         else if length a < length b then -1
         else if length a > length b then 1
         else 0)"

definition kInternalKeyTail :: nat where "kInternalKeyTail = 8"

definition tail_num :: "bytes \<Rightarrow> nat \<Rightarrow> u64" where
  "tail_num a user_len =
     fold (\<lambda>i num. num OR push_bit (i * 8) (ucast (a ! (user_len + i)))) [0..<kInternalKeyTail] 0"

definition CompareInternalKeys :: "bytes \<Rightarrow> bytes \<Rightarrow> int" where
  "CompareInternalKeys a b =
     (if length a < kInternalKeyTail \<or> length b < kInternalKeyTail then CompareSlices a b
      else
        let a_user_len = length a - kInternalKeyTail;
            b_user_len = length b - kInternalKeyTail;
            c = compare_loop (take a_user_len a) (take b_user_len b)
        in if c \<noteq> 0 then c
           else if a_user_len < b_user_len then -1
           else if a_user_len > b_user_len then 1
           else
             let a_num = tail_num a a_user_len;
                 b_num = tail_num b b_user_len
             in if a_num > b_num then -1 else if a_num < b_num then 1 else 0)"

section \<open>Block metadata\<close>

record DeviceBlockMetadata =
  md_num_restarts :: u32
  md_restart_offset :: u32
  md_index_type :: u32
  md_block_size :: u32

definition kMaxBlockSizeSupportedByHashIndex :: u32 where
  "kMaxBlockSizeSupportedByHashIndex = push_bit 16 1"

definition kNumRestartsMask :: u32 where "kNumRestartsMask = 0x7FFFFFFF"

text \<open>The kernel writes the metadata and then asserts that the block has no hash index.\<close>

definition InitializeBlockMetadataKernel :: "bytes \<Rightarrow> u32 \<Rightarrow> (DeviceBlockMetadata \<times> bool) outcome" where
  "InitializeBlockMetadataKernel d_data block_size =
     (if block_size < 4
      then Returns (\<lparr>md_num_restarts = 0, md_restart_offset = block_size, md_index_type = 0, md_block_size = block_size\<rparr>, True)
      else if unat block_size > length d_data then Undefined ''read beyond the block''
      else
        let block_footer = DecodeFixed32 (drop (unat (block_size - 4)) d_data);
            (num_restarts, index_type) =
              (if block_size > kMaxBlockSizeSupportedByHashIndex then (block_footer, 0)
               else (block_footer AND kNumRestartsMask, if block_footer AND push_bit 31 1 \<noteq> 0 then 1 else 0));
            restart_offset = (if num_restarts > 0 then block_size - (1 + num_restarts) * 4 else block_size)
        in Returns (\<lparr>md_num_restarts = num_restarts, md_restart_offset = restart_offset,
                     md_index_type = index_type, md_block_size = block_size\<rparr>, index_type \<noteq> 1))"

section \<open>Iterator state and buffers\<close>

record GDSDataBlockIterState =
  bi_data :: bytes
  bi_size :: u32
  bi_num_restarts :: u32
  bi_restarts :: u32
  bi_current :: u32
  bi_restart_index :: u32
  bi_error_code :: int

definition kKeyBufferSize :: nat where "kKeyBufferSize = 512"

record GDSDataBlockIterDevicePinnedBuffer =
  pb_is_allocated :: bool
  pb_valid_flag :: int
  pb_key_buffer :: bytes
  pb_key_length :: int
  pb_value_length :: int
  pb_value_ptr :: nat

definition InitializeIteratorStateKernel :: "bytes \<Rightarrow> DeviceBlockMetadata \<Rightarrow> GDSDataBlockIterState" where
  "InitializeIteratorStateKernel d_data m =
     \<lparr>bi_data = d_data, bi_size = md_block_size m, bi_num_restarts = md_num_restarts m,
      bi_restarts = md_restart_offset m, bi_current = md_restart_offset m, bi_restart_index = 0, bi_error_code = 0\<rparr>"

section \<open>Entries\<close>

definition block_GetRestartPoint :: "bytes \<Rightarrow> u32 \<Rightarrow> u32 \<Rightarrow> u32 outcome" where
  "block_GetRestartPoint dat restarts index =
     (let pos = unat restarts + unat index * 4
      in if pos + 4 > length dat then Undefined ''read beyond the block''
         else Returns (DecodeFixed32 (drop pos dat)))"

text \<open>The lengths of the entry at an offset and the offset of its key bytes.\<close>

definition decode_entry_at :: "GDSDataBlockIterState \<Rightarrow> nat \<Rightarrow> (u32 \<times> u32 \<times> u32 \<times> nat) option outcome" where
  "decode_entry_at s off =
     (let limit = unat (bi_restarts s)
      in if limit > length (bi_data s) then Undefined ''read beyond the block''
         else Returns
           (case DecodeEntry (drop off (take limit (bi_data s))) of
              None \<Rightarrow> None
            | Some (shared, non_shared, value_length, p) \<Rightarrow> Some (shared, non_shared, value_length, limit - length p)))"

text \<open>
  The copy loops: the key bytes go behind the shared prefix, up to a bound of the key buffer that is
  \<open>kKeyBufferSize * sizeof(char*)\<close> in the seek kernels and \<open>kKeyBufferSize\<close> in \<open>NextKernel\<close>.
\<close>

definition copy_key :: "nat \<Rightarrow> bytes \<Rightarrow> nat \<Rightarrow> u32 \<Rightarrow> u32 \<Rightarrow> bytes \<Rightarrow> bytes outcome" where
  "copy_key bound dat key_ptr shared non_shared key_buffer =
     (let m = min (unat non_shared) (bound - unat shared)
      in if m = 0 then Returns key_buffer
         else if key_ptr + m > length dat then Undefined ''read beyond the block''
         else if unat shared + m > length key_buffer then Undefined ''write beyond the key buffer''
         else Returns (write_at key_buffer (unat shared) (read_at dat key_ptr m)))"

definition seek_bound :: nat where "seek_bound = kKeyBufferSize * 8"

text \<open>The buffer after an entry was read.\<close>

definition set_entry ::
  "bytes \<Rightarrow> u32 \<Rightarrow> nat \<Rightarrow> u32 \<Rightarrow> GDSDataBlockIterDevicePinnedBuffer \<Rightarrow> GDSDataBlockIterDevicePinnedBuffer" where
  "set_entry key_buffer key_length value_ptr value_length b =
     b\<lparr>pb_key_buffer := key_buffer, pb_key_length := sint key_length, pb_value_ptr := value_ptr,
       pb_value_length := sint value_length\<rparr>"

section \<open>Kernels\<close>

type_synonym iter = "GDSDataBlockIterState \<times> GDSDataBlockIterDevicePinnedBuffer"

definition iter_error :: "iter \<Rightarrow> iter" where
  "iter_error i = (case i of (s, b) \<Rightarrow> (s\<lparr>bi_error_code := 1\<rparr>, b\<lparr>pb_valid_flag := 0\<rparr>))"

definition iter_valid :: "iter \<Rightarrow> iter" where
  "iter_valid i = (case i of (s, b) \<Rightarrow> (s\<lparr>bi_error_code := 0\<rparr>, b\<lparr>pb_valid_flag := 1\<rparr>))"

definition iter_end :: "iter \<Rightarrow> iter" where
  "iter_end i = (case i of (s, b) \<Rightarrow> (s\<lparr>bi_error_code := 0\<rparr>, b\<lparr>pb_valid_flag := 0\<rparr>))"

definition SeekToFirstKernel :: "iter \<Rightarrow> iter outcome" where
  "SeekToFirstKernel i =
     (case i of (s, b) \<Rightarrow>
        bind_outcome (block_GetRestartPoint (bi_data s) (bi_restarts s) 0)
          (\<lambda>current.
             let s = s\<lparr>bi_restart_index := 0, bi_current := current\<rparr>;
                 b = b\<lparr>pb_key_length := 0\<rparr>
             in bind_outcome (decode_entry_at s (unat current))
                  (\<lambda>r. case r of
                         None \<Rightarrow> Returns (iter_error (s, b))
                       | Some (shared, non_shared, value_length, p) \<Rightarrow>
                           if shared \<noteq> 0 then Returns (iter_error (s, b))
                           else
                             bind_outcome (copy_key seek_bound (bi_data s) p 0 non_shared (pb_key_buffer b))
                               (\<lambda>kb. Returns (iter_valid
                                  (s, set_entry kb non_shared (p + unat non_shared) value_length b))))))"

text \<open>The binary search over the restart points; \<open>None\<close> is the error return.\<close>

function restart_search :: "GDSDataBlockIterState \<Rightarrow> bytes \<Rightarrow> int \<Rightarrow> int \<Rightarrow> int option outcome" where
  "restart_search s target_key left right =
     (if left < right
      then
        let mid = left + (right - left + 1) div 2
        in bind_outcome (block_GetRestartPoint (bi_data s) (bi_restarts s) (word_of_int mid))
             (\<lambda>region_offset.
                bind_outcome (decode_entry_at s (unat region_offset))
                  (\<lambda>r. case r of
                         None \<Rightarrow> Returns None
                       | Some (shared, non_shared, value_length, p) \<Rightarrow>
                           if shared \<noteq> 0 then Returns None
                           else if p + unat non_shared > length (bi_data s) then Undefined ''read beyond the block''
                           else
                             let cmp = CompareInternalKeys (read_at (bi_data s) p (unat non_shared)) target_key
                             in if cmp < 0 then restart_search s target_key mid right
                                else if cmp > 0 then restart_search s target_key left (mid - 1)
                                else Returns (Some mid)))
      else Returns (Some left))"
  by pat_completeness auto
termination
  by (relation "measure (\<lambda>(s, target_key, left, right). nat (right - left))") auto

declare restart_search.simps [simp del]

text \<open>One round of the linear scan: it ends, or goes on with the next entry.\<close>

datatype scan_step = ScanEnd iter | ScanNext iter

definition seek_scan_round :: "bytes \<Rightarrow> iter \<Rightarrow> scan_step outcome" where
  "seek_scan_round target_key i =
     (case i of (s, b) \<Rightarrow>
        if bi_current s < bi_restarts s
        then
          bind_outcome (decode_entry_at s (unat (bi_current s)))
            (\<lambda>r. case r of
                   None \<Rightarrow> Returns (ScanEnd (iter_error (s, b)))
                 | Some (shared, non_shared, value_length, p) \<Rightarrow>
                     bind_outcome (copy_key seek_bound (bi_data s) p shared non_shared (pb_key_buffer b))
                       (\<lambda>kb.
                          let b = set_entry kb (shared + non_shared) (p + unat non_shared) value_length b
                          in if pb_key_length b < 0 \<or> nat (pb_key_length b) > length kb
                             then Undefined ''read beyond the key buffer''
                             else if CompareInternalKeys (take (nat (pb_key_length b)) kb) target_key \<ge> 0
                             then Returns (ScanEnd (iter_valid (s, b)))
                             else Returns (ScanNext
                               (s\<lparr>bi_current := word_of_nat (pb_value_ptr b) + value_length\<rparr>, b))))
        else Returns (ScanEnd (iter_end (s\<lparr>bi_current := bi_restarts s\<rparr>, b))))"

partial_function (option) seek_scan :: "bytes \<Rightarrow> iter \<Rightarrow> iter outcome option" where
  "seek_scan target_key i =
     (case seek_scan_round target_key i of
        Returns st \<Rightarrow>
          (case st of
             ScanEnd i \<Rightarrow> Some (Returns i)
           | ScanNext i \<Rightarrow> seek_scan target_key i)
      | Throws e \<Rightarrow> Some (Throws e)
      | Exits e \<Rightarrow> Some (Exits e)
      | Undefined e \<Rightarrow> Some (Undefined e))"

definition seek_from :: "bytes \<Rightarrow> iter \<Rightarrow> int \<Rightarrow> iter outcome option" where
  "seek_from target_key i left =
     (case i of (s, b) \<Rightarrow>
        let restart_idx = (if left = -1 then 0 else word_of_int left)
        in case block_GetRestartPoint (bi_data s) (bi_restarts s) restart_idx of
             Returns current \<Rightarrow>
               seek_scan target_key (s\<lparr>bi_restart_index := restart_idx, bi_current := current\<rparr>, b\<lparr>pb_key_length := 0\<rparr>)
           | Throws e \<Rightarrow> Some (Throws e)
           | Exits e \<Rightarrow> Some (Exits e)
           | Undefined e \<Rightarrow> Some (Undefined e))"

definition SeekKernel :: "bytes \<Rightarrow> iter \<Rightarrow> iter outcome option" where
  "SeekKernel target_key i =
     (case restart_search (fst i) target_key (-1) (int (unat (bi_num_restarts (fst i) - 1))) of
        Returns r \<Rightarrow>
          (case r of
             None \<Rightarrow> Some (Returns (iter_error i))
           | Some left \<Rightarrow> seek_from target_key i left)
      | Throws e \<Rightarrow> Some (Throws e)
      | Exits e \<Rightarrow> Some (Exits e)
      | Undefined e \<Rightarrow> Some (Undefined e))"

definition NextKernel :: "iter \<Rightarrow> iter outcome" where
  "NextKernel i =
     (case i of (s, b) \<Rightarrow>
        if pb_valid_flag b = 0 then Returns (s, b)
        else
          let s = s\<lparr>bi_current := word_of_nat (pb_value_ptr b) + word_of_int (pb_value_length b)\<rparr>
          in if bi_current s \<ge> bi_restarts s then Returns (iter_end (s, b))
             else
               bind_outcome (decode_entry_at s (unat (bi_current s)))
                 (\<lambda>r. case r of
                        None \<Rightarrow> Returns (iter_error (s, b))
                      | Some (shared, non_shared, value_length, p) \<Rightarrow>
                          bind_outcome (copy_key kKeyBufferSize (bi_data s) p shared non_shared (pb_key_buffer b))
                            (\<lambda>kb. Returns (iter_valid
                               (s, set_entry kb (shared + non_shared) (p + unat non_shared) value_length b)))))"

section \<open>Pinned buffers\<close>

text \<open>
  The five pinned host allocations of a buffer, and the allocations that are live in the process.
\<close>

datatype pinned_cell = h_valid_flag | h_key_buffer | h_key_length | h_value_length | h_d_value_ptr

definition Allocate :: "bytes \<Rightarrow> pinned_cell list \<Rightarrow> GDSDataBlockIterDevicePinnedBuffer \<times> pinned_cell list" where
  "Allocate memory live =
     (\<lparr>pb_is_allocated = True, pb_valid_flag = 0, pb_key_buffer = take kKeyBufferSize memory, pb_key_length = 0,
       pb_value_length = 0, pb_value_ptr = 0\<rparr>,
      live @ [h_valid_flag, h_key_buffer, h_key_length, h_value_length, h_d_value_ptr])"

definition Free :: "GDSDataBlockIterDevicePinnedBuffer \<Rightarrow> pinned_cell list \<Rightarrow> pinned_cell list" where
  "Free buffer live =
     (if \<not> pb_is_allocated buffer then live
      else remove1 h_key_length (remove1 h_key_buffer (remove1 h_valid_flag live)))"

section \<open>The iterator\<close>

datatype Status =
    StOK
  | StNotFound
  | StCorruption string
  | StNotSupported string
  | StInvalidArgument string
  | StIOError string
  | StMergeInProgress
  | StIncomplete string
  | StTimedOut
  | StAborted

definition status_ok :: "Status \<Rightarrow> bool" where
  "status_ok s \<longleftrightarrow> s = StOK"

record GDSDataBlockIter =
  gi_state :: "GDSDataBlockIterState option"
  gi_comparator :: "string option"
  gi_buffer :: "GDSDataBlockIterDevicePinnedBuffer option"
  gi_status :: Status

definition new_GDSDataBlockIter :: GDSDataBlockIter where
  "new_GDSDataBlockIter = \<lparr>gi_state = None, gi_comparator = None, gi_buffer = None, gi_status = StOK\<rparr>"

definition gi_Cleanup :: "GDSDataBlockIter \<Rightarrow> GDSDataBlockIter" where
  "gi_Cleanup it = (if gi_state it \<noteq> None then it\<lparr>gi_state := None\<rparr> else it)"

fun starts_with :: "string \<Rightarrow> string \<Rightarrow> bool" where
  "starts_with [] s = True"
| "starts_with (c # p) [] = False"
| "starts_with (c # p) (d # s) = (c = d \<and> starts_with p s)"

fun contains :: "string \<Rightarrow> string \<Rightarrow> bool" where
  "contains p [] = (p = [])"
| "contains p (c # s) = (starts_with p (c # s) \<or> contains p s)"

definition gi_Initialize ::
  "bool \<Rightarrow> string option \<Rightarrow> bytes \<Rightarrow> DeviceBlockMetadata \<Rightarrow> GDSDataBlockIterDevicePinnedBuffer option \<Rightarrow>
     GDSDataBlockIter \<Rightarrow> GDSDataBlockIter outcome" where
  "gi_Initialize malloc_ok raw_ucmp d_data d_metadata buffer it =
     (let it = (gi_Cleanup it)\<lparr>gi_comparator := raw_ucmp\<rparr>
      in if (case raw_ucmp of Some comparator_name \<Rightarrow> \<not> contains ''Bytewise'' comparator_name | None \<Rightarrow> False)
         then Returns (it\<lparr>gi_status := StNotSupported ''GDS GPU iterator only supports BytewiseComparator. ''\<rparr>)
         else if \<not> malloc_ok then Throws ''CUDA error''
         else Returns (it\<lparr>gi_buffer := buffer, gi_state := Some (InitializeIteratorStateKernel d_data d_metadata),
                          gi_status := StOK\<rparr>))"

definition gi_Valid :: "GDSDataBlockIter \<Rightarrow> bool" where
  "gi_Valid it =
     (if gi_state it = None then False
      else case gi_buffer it of None \<Rightarrow> False | Some b \<Rightarrow> pb_valid_flag b = 1)"

definition gi_key :: "GDSDataBlockIter \<Rightarrow> bytes outcome" where
  "gi_key it =
     (if \<not> gi_Valid it then Undefined ''assert(Valid())''
      else case gi_buffer it of
             None \<Rightarrow> Returns []
           | Some b \<Rightarrow>
               if pb_key_length b < 0 \<or> nat (pb_key_length b) > length (pb_key_buffer b)
               then Undefined ''read beyond the key buffer''
               else Returns (take (nat (pb_key_length b)) (pb_key_buffer b)))"

definition gi_Invalidate :: "Status \<Rightarrow> GDSDataBlockIter \<Rightarrow> GDSDataBlockIter" where
  "gi_Invalidate st it =
     (let it = it\<lparr>gi_status := st\<rparr>
      in case gi_buffer it of None \<Rightarrow> it | Some b \<Rightarrow> it\<lparr>gi_buffer := Some (b\<lparr>pb_valid_flag := 0\<rparr>)\<rparr>)"

text \<open>The value of the current entry: an offset into the block and a size, or an empty slice.\<close>

definition gi_DKey :: "GDSDataBlockIter \<Rightarrow> (bytes \<times> int) option" where
  "gi_DKey it =
     (case gi_buffer it of
        None \<Rightarrow> None
      | Some b \<Rightarrow> if gi_state it = None \<or> pb_valid_flag b = 0 then None else Some (pb_key_buffer b, pb_key_length b))"

definition gi_DValue :: "GDSDataBlockIter \<Rightarrow> (nat \<times> int) option" where
  "gi_DValue it =
     (case gi_buffer it of
        None \<Rightarrow> None
      | Some b \<Rightarrow> if pb_valid_flag b = 0 then None else Some (pb_value_ptr b, pb_value_length b))"

text \<open>A kernel launch on the iterator's state and buffer; a null buffer is dereferenced by the code.\<close>

definition set_iter :: "GDSDataBlockIter \<Rightarrow> iter \<Rightarrow> GDSDataBlockIter" where
  "set_iter it i = it\<lparr>gi_state := Some (fst i), gi_buffer := Some (snd i)\<rparr>"

definition launch_on :: "(iter \<Rightarrow> iter outcome) \<Rightarrow> GDSDataBlockIter \<Rightarrow> GDSDataBlockIter outcome" where
  "launch_on k it =
     (case gi_state it of
        None \<Rightarrow> Returns (it\<lparr>gi_status := StNotSupported ''Iterator not initialized''\<rparr>)
      | Some s \<Rightarrow>
          (case gi_buffer it of
             None \<Rightarrow> Undefined ''null buffer''
           | Some b \<Rightarrow> bind_outcome (k (s, b)) (\<lambda>i. Returns (set_iter it i))))"

definition SeekToFirstImpl :: "GDSDataBlockIter \<Rightarrow> GDSDataBlockIter outcome" where
  "SeekToFirstImpl it = launch_on SeekToFirstKernel it"

definition NextImpl :: "GDSDataBlockIter \<Rightarrow> GDSDataBlockIter outcome" where
  "NextImpl it =
     (case gi_state it of
        None \<Rightarrow> Returns it
      | Some s \<Rightarrow>
          (case gi_buffer it of
             None \<Rightarrow> Undefined ''null buffer''
           | Some b \<Rightarrow> if pb_valid_flag b = 0 then Returns it else launch_on NextKernel it))"

definition SeekImpl :: "bytes \<Rightarrow> GDSDataBlockIter \<Rightarrow> GDSDataBlockIter outcome option" where
  "SeekImpl d_target it =
     (case gi_state it of
        None \<Rightarrow> Some (Returns (it\<lparr>gi_status := StNotSupported ''Iterator not initialized''\<rparr>))
      | Some s \<Rightarrow>
          (case gi_buffer it of
             None \<Rightarrow> Some (Undefined ''null buffer'')
           | Some b \<Rightarrow> map_option (\<lambda>r. bind_outcome r (\<lambda>i. Returns (set_iter it i))) (SeekKernel d_target (s, b))))"

definition SeekForGet :: "bytes \<Rightarrow> GDSDataBlockIter \<Rightarrow> (bool \<times> GDSDataBlockIter) outcome option" where
  "SeekForGet d_target it = map_option (\<lambda>r. bind_outcome r (\<lambda>it. Returns (True, it))) (SeekImpl d_target it)"

partial_function (option) next_until_invalid :: "GDSDataBlockIter \<Rightarrow> GDSDataBlockIter outcome option" where
  "next_until_invalid it =
     (case NextImpl it of
        Returns it \<Rightarrow>
          (case gi_buffer it of
             None \<Rightarrow> Some (Undefined ''null buffer'')
           | Some b \<Rightarrow> if pb_valid_flag b = 0 then Some (Returns it) else next_until_invalid it)
      | Throws e \<Rightarrow> Some (Throws e)
      | Exits e \<Rightarrow> Some (Exits e)
      | Undefined e \<Rightarrow> Some (Undefined e))"

definition SeekToLastImpl :: "GDSDataBlockIter \<Rightarrow> GDSDataBlockIter outcome option" where
  "SeekToLastImpl it =
     (case gi_state it of
        None \<Rightarrow> Some (Returns (it\<lparr>gi_status := StNotSupported ''Iterator not initialized''\<rparr>))
      | Some s \<Rightarrow>
          (case SeekToFirstImpl it of
             Returns it \<Rightarrow>
               (case gi_buffer it of
                  None \<Rightarrow> Some (Undefined ''null buffer'')
                | Some b \<Rightarrow> if pb_valid_flag b = 0 then Some (Returns it) else next_until_invalid it)
           | Throws e \<Rightarrow> Some (Throws e)
           | Exits e \<Rightarrow> Some (Exits e)
           | Undefined e \<Rightarrow> Some (Undefined e)))"

definition PrevImpl :: "GDSDataBlockIter \<Rightarrow> GDSDataBlockIter outcome" where
  "PrevImpl it =
     (case gi_buffer it of
        None \<Rightarrow> Undefined ''null buffer''
      | Some b \<Rightarrow> Returns (it\<lparr>gi_status := StNotSupported ''Prev not supported in GPU iterator'',
                             gi_buffer := Some (b\<lparr>pb_valid_flag := 0\<rparr>)\<rparr>))"

section \<open>Blocks\<close>

record DeviceBlock =
  blk_contents :: bytes
  blk_own_bytes :: bool
  blk_metadata :: "DeviceBlockMetadata option"
  blk_h_metadata :: DeviceBlockMetadata
  blk_metadata_cached :: bool

definition InitializeMetadataGPU :: "bool \<Rightarrow> DeviceBlock \<Rightarrow> DeviceBlock outcome" where
  "InitializeMetadataGPU malloc_ok d =
     (let block_size = length (blk_contents d)
      in if block_size < 4 then Throws ''[GDS ERROR] Block size is too small to contain footer''
         else if \<not> malloc_ok then Throws ''CUDA error''
         else
           bind_outcome (InitializeBlockMetadataKernel (blk_contents d) (word_of_nat block_size))
             (\<lambda>(m, assertion). if assertion then Returns (d\<lparr>blk_metadata := Some m\<rparr>) else Throws ''CUDA error''))"

definition new_DeviceBlock :: "bool \<Rightarrow> bytes \<Rightarrow> bool \<Rightarrow> DeviceBlock outcome" where
  "new_DeviceBlock malloc_ok contents own =
     (if contents = [] then Undefined ''assert(!contents_.empty())''
      else InitializeMetadataGPU malloc_ok
             \<lparr>blk_contents = contents, blk_own_bytes = own, blk_metadata = None,
              blk_h_metadata = \<lparr>md_num_restarts = 0, md_restart_offset = 0, md_index_type = 0, md_block_size = 0\<rparr>,
              blk_metadata_cached = False\<rparr>)"

definition delete_DeviceBlock :: "DeviceBlock \<Rightarrow> DeviceBlock" where
  "delete_DeviceBlock d =
     (let d = (if blk_metadata d \<noteq> None then d\<lparr>blk_metadata := None\<rparr> else d)
      in if blk_own_bytes d then d\<lparr>blk_contents := [], blk_own_bytes := False\<rparr> else d)"

definition SyncMetadataToHost :: "bool \<Rightarrow> DeviceBlock \<Rightarrow> DeviceBlock outcome" where
  "SyncMetadataToHost memcpy_ok d =
     (if blk_metadata_cached d then Returns d
      else case blk_metadata d of
             None \<Rightarrow> Throws ''[GDS ERROR] GPU metadata not initialized''
           | Some m \<Rightarrow>
               if \<not> memcpy_ok then Throws ''[GDS ERROR] Failed to sync block metadata from GPU: ''
               else Returns (d\<lparr>blk_h_metadata := m, blk_metadata_cached := True\<rparr>))"

definition NumRestarts :: "bool \<Rightarrow> DeviceBlock \<Rightarrow> (u32 \<times> DeviceBlock) outcome" where
  "NumRestarts memcpy_ok d =
     bind_outcome (SyncMetadataToHost memcpy_ok d) (\<lambda>d. Returns (md_num_restarts (blk_h_metadata d), d))"

definition IndexType :: "bool \<Rightarrow> DeviceBlock \<Rightarrow> (u32 \<times> DeviceBlock) outcome" where
  "IndexType memcpy_ok d =
     bind_outcome (SyncMetadataToHost memcpy_ok d) (\<lambda>d. Returns (md_index_type (blk_h_metadata d), d))"

definition GetRestartOffset :: "bool \<Rightarrow> DeviceBlock \<Rightarrow> (u32 \<times> DeviceBlock) outcome" where
  "GetRestartOffset memcpy_ok d =
     bind_outcome (SyncMetadataToHost memcpy_ok d) (\<lambda>d. Returns (md_restart_offset (blk_h_metadata d), d))"

definition NewDataIterator ::
  "bool \<Rightarrow> string option \<Rightarrow> GDSDataBlockIterDevicePinnedBuffer option \<Rightarrow> GDSDataBlockIter option \<Rightarrow> DeviceBlock \<Rightarrow>
     GDSDataBlockIter outcome" where
  "NewDataIterator malloc_ok raw_ucmp buffer iter_opt d =
     (let it = (case iter_opt of None \<Rightarrow> new_GDSDataBlockIter | Some it \<Rightarrow> it)
      in case blk_metadata d of
           None \<Rightarrow> Undefined ''null metadata''
         | Some m \<Rightarrow> gi_Initialize malloc_ok raw_ucmp (blk_contents d) m buffer it)"

definition DeviceBlock_GetRestartPoint :: "bool \<Rightarrow> bool \<Rightarrow> u32 \<Rightarrow> DeviceBlock \<Rightarrow> (u32 \<times> DeviceBlock) outcome" where
  "DeviceBlock_GetRestartPoint sync_ok memcpy_ok index d =
     bind_outcome (SyncMetadataToHost sync_ok d)
       (\<lambda>d. let m = blk_h_metadata d
            in if index \<ge> md_num_restarts m then Returns (md_restart_offset m, d)
               else
                 let restart_array_offset = md_restart_offset m + index * 4
                 in if \<not> memcpy_ok then Returns (md_restart_offset m, d)
                    else if unat restart_array_offset + 4 > length (blk_contents d)
                    then Undefined ''read beyond the block''
                    else Returns (DecodeFixed32 (drop (unat restart_array_offset) (blk_contents d)), d))"

section \<open>The order of keys\<close>

lemma CompareSlices_Nil [simp]:
  "CompareSlices [] [] = 0" "CompareSlices [] (y # b) = -1" "CompareSlices (x # a) [] = 1"
  by (simp_all add: CompareSlices_def)

lemma CompareSlices_Cons [simp]:
  "CompareSlices (x # a) (y # b) = (if x < y then -1 else if x > y then 1 else CompareSlices a b)"
  by (simp add: CompareSlices_def)

lemma CompareSlices_sign:
  "(CompareSlices a b < 0 \<longleftrightarrow> a < b) \<and> (CompareSlices a b > 0 \<longleftrightarrow> b < a) \<and> (CompareSlices a b = 0 \<longleftrightarrow> a = b)"
proof (induction a arbitrary: b)
  case Nil
  then show ?case by (cases b) auto
next
  case (Cons x a)
  note IH = Cons.IH
  show ?case
  proof (cases b)
    case (Cons y b')
    consider "x < y" | "x = y" | "y < x" by (rule linorder_cases)
    then show ?thesis using IH [of b'] Cons by cases auto
  qed simp
qed

definition user_key_of :: "bytes \<Rightarrow> bytes" where
  "user_key_of k = take (length k - kInternalKeyTail) k"

definition seq_type_of :: "bytes \<Rightarrow> u64" where
  "seq_type_of k = tail_num k (length k - kInternalKeyTail)"

definition internal_key :: "bytes \<Rightarrow> bool" where
  "internal_key k \<longleftrightarrow> kInternalKeyTail \<le> length k"

definition ikey_less :: "bytes \<Rightarrow> bytes \<Rightarrow> bool" where
  "ikey_less a b \<longleftrightarrow> user_key_of a < user_key_of b \<or> user_key_of a = user_key_of b \<and> seq_type_of b < seq_type_of a"

lemma CompareInternalKeys_eq:
  assumes "internal_key a" "internal_key b"
  shows "CompareInternalKeys a b =
     (let c = CompareSlices (user_key_of a) (user_key_of b)
      in if c \<noteq> 0 then c
         else if seq_type_of a > seq_type_of b then -1 else if seq_type_of a < seq_type_of b then 1 else 0)"
  using assms
  by (auto simp: CompareInternalKeys_def CompareSlices_def internal_key_def user_key_of_def seq_type_of_def Let_def)

lemma CompareInternalKeys_sign:
  assumes "internal_key a" "internal_key b"
  shows "CompareInternalKeys a b < 0 \<longleftrightarrow> ikey_less a b" "CompareInternalKeys a b > 0 \<longleftrightarrow> ikey_less b a"
  using CompareSlices_sign [of "user_key_of a" "user_key_of b"]
  by (auto simp: CompareInternalKeys_eq [OF assms] ikey_less_def Let_def)

section \<open>The contract of a comparison\<close>

text \<open>The position of the first key that is not below the target.\<close>

definition lower_bound :: "('k \<Rightarrow> 'k \<Rightarrow> int) \<Rightarrow> 'k \<Rightarrow> 'k list \<Rightarrow> nat" where
  "lower_bound cmp t ks = length (takeWhile (\<lambda>k. cmp k t < 0) ks)"

lemma lower_bound_below: "i < lower_bound cmp t ks \<Longrightarrow> cmp (ks ! i) t < 0"
  unfolding lower_bound_def by (metis nth_mem set_takeWhileD takeWhile_nth)

lemma lower_bound_le: "lower_bound cmp t ks \<le> length ks"
  by (simp add: lower_bound_def length_takeWhile_le)

lemma lower_bound_at: "lower_bound cmp t ks < length ks \<Longrightarrow> \<not> cmp (ks ! lower_bound cmp t ks) t < 0"
  unfolding lower_bound_def by (rule nth_length_takeWhile)

lemma lower_bound_unique:
  assumes "j \<le> length ks" and "\<And>i. i < j \<Longrightarrow> cmp (ks ! i) t < 0" and "j < length ks \<Longrightarrow> \<not> cmp (ks ! j) t < 0"
  shows "lower_bound cmp t ks = j"
proof (rule ccontr)
  assume "lower_bound cmp t ks \<noteq> j"
  then consider "lower_bound cmp t ks < j" | "j < lower_bound cmp t ks" by linarith
  then show False
    using assms lower_bound_at [of cmp t ks] lower_bound_below [of j cmp t ks] lower_bound_le [of cmp t ks]
    by cases auto
qed

locale comparator =
  fixes ok :: "'k \<Rightarrow> bool" and cmp :: "'k \<Rightarrow> 'k \<Rightarrow> int"
  assumes cmp_swap: "ok a \<Longrightarrow> ok b \<Longrightarrow> cmp a b < 0 \<longleftrightarrow> cmp b a > 0"
    and cmp_trans: "ok a \<Longrightarrow> ok b \<Longrightarrow> ok c \<Longrightarrow> cmp a b < 0 \<Longrightarrow> cmp b c \<le> 0 \<Longrightarrow> cmp a c < 0"
begin

lemma cmp_refl: "ok a \<Longrightarrow> cmp a a = 0"
  using cmp_swap [of a a] by linarith

lemma sorted_below:
  assumes "sorted_wrt (\<lambda>a b. cmp a b < 0) ks" and "\<forall>k \<in> set ks. ok k" and "ok t"
    and "i < j" and "j < length ks" and "cmp (ks ! j) t \<le> 0"
  shows "cmp (ks ! i) t < 0"
  using assms cmp_trans [of "ks ! i" "ks ! j" t] sorted_wrt_nth_less [OF assms(1,4,5)] by simp

lemma lower_bound_at_most:
  assumes "sorted_wrt (\<lambda>a b. cmp a b < 0) ks" and "\<forall>k \<in> set ks. ok k" and "ok t"
    and "j < length ks" and "cmp (ks ! j) t \<le> 0"
  shows "j \<le> lower_bound cmp t ks"
proof (rule ccontr)
  assume "\<not> j \<le> lower_bound cmp t ks"
  then have "lower_bound cmp t ks < j" by simp
  moreover from this have "cmp (ks ! lower_bound cmp t ks) t < 0"
    using sorted_below [OF assms(1-3) _ assms(4,5)] by blast
  moreover have "lower_bound cmp t ks < length ks" using calculation(1) assms(4) by simp
  ultimately show False using lower_bound_at [of cmp t ks] by blast
qed

end

interpretation slices: comparator "\<lambda>_. True" CompareSlices
proof unfold_locales
  fix a b c :: bytes
  show "CompareSlices a b < 0 \<longleftrightarrow> CompareSlices b a > 0" using CompareSlices_sign by blast
  show "CompareSlices a c < 0" if "CompareSlices a b < 0" "CompareSlices b c \<le> 0"
    using that CompareSlices_sign [of a b] CompareSlices_sign [of b c] CompareSlices_sign [of a c] by auto
qed

lemma ikey_less_trans: "ikey_less a b \<Longrightarrow> \<not> ikey_less c b \<Longrightarrow> ikey_less a c"
  by (auto simp: ikey_less_def)

interpretation ikeys: comparator internal_key CompareInternalKeys
proof unfold_locales
  fix a b c
  assume "internal_key a" "internal_key b"
  then show "CompareInternalKeys a b < 0 \<longleftrightarrow> CompareInternalKeys b a > 0" by (simp add: CompareInternalKeys_sign)
next
  fix a b c
  assume ok: "internal_key a" "internal_key b" "internal_key c"
    and "CompareInternalKeys a b < 0" "CompareInternalKeys b c \<le> 0"
  then have "ikey_less a b" "\<not> ikey_less c b"
    using CompareInternalKeys_sign [OF ok(1,2)] CompareInternalKeys_sign [OF ok(2,3)] by auto
  then show "CompareInternalKeys a c < 0" using CompareInternalKeys_sign [OF ok(1,3)] ikey_less_trans by blast
qed

end
