(* ===== verification/WAL_Log_Writer.thy ===== *)
theory WAL_Log_Writer
  imports WAL_Roundtrip GDS_Block
begin

text \<open>
  RocksDB's own log writer (\<^verbatim>\<open>rocksdb/db/log_writer.cc\<close>, class \<open>Writer\<close>), as extended in this repository by the
  record types without a checksum. It frames records on the host; the GPU writer of \<open>GWAL_Writer\<close> has to produce a log
  that is as good as its.

  External code is the record \<open>lw_env\<close>: the buffered file with its error flag, crc32c, the encoders of the three kinds of
  meta records, and the streaming compressor, whose state is \<open>'c\<close>. \<open>'f\<close> is the state of the file and \<open>'o\<close> the type of the
  write options, of which the writer uses only the status of \<open>PrepareIOOptions\<close>. The loop of \<open>AddRecord\<close> ends when the
  compressor says so, and is a \<open>partial_function\<close>.
\<close>

section \<open>State\<close>

record ('f, 'c, 'o) lw_env =
  lw_Append :: "'f \<Rightarrow> bytes \<Rightarrow> Status \<times> 'f"
  lw_Flush :: "'f \<Rightarrow> Status \<times> 'f"
  lw_Close_file :: "'f \<Rightarrow> Status \<times> 'f"
  lw_seen_error :: "'f \<Rightarrow> bool"
  lw_IsClosed :: "'f \<Rightarrow> bool"
  lw_file_BufferIsEmpty :: "'f \<Rightarrow> bool"
  PrepareIOOptions :: "'o \<Rightarrow> Status"
  crc_Value :: "bytes \<Rightarrow> u32"
  crc_Extend :: "u32 \<Rightarrow> bytes \<Rightarrow> u32"
  Crc32cCombine :: "u32 \<Rightarrow> u32 \<Rightarrow> nat \<Rightarrow> u32"
  crc_Mask :: "u32 \<Rightarrow> u32"
  encode_compression :: "nat \<Rightarrow> bytes"
  encode_predecessor :: "PredecessorWALInfo \<Rightarrow> bytes"
  encode_timestamp_sizes :: "(u32 \<times> nat) list \<Rightarrow> bytes"
  compress_Create :: "nat \<Rightarrow> nat \<Rightarrow> 'c"
  compress_Reset :: "'c \<Rightarrow> 'c"
  Compress :: "'c \<Rightarrow> bytes \<Rightarrow> int \<times> bytes \<times> 'c"

record ('f, 'c) log_Writer =
  lw_dest :: "'f option"
  lw_block_offset :: nat
  lw_log_number :: u64
  lw_recycle_log_files :: bool
  lw_header_size :: nat
  lw_manual_flush :: bool
  lw_compression_type :: nat
  lw_compress :: "'c option"
  lw_track_and_verify_wals :: bool
  lw_last_seqno_recorded :: nat
  lw_wal_with_checksum :: bool
  lw_type_crc :: "u32 list"
  lw_recorded_cf_to_ts_sz :: "u32 \<rightharpoonup> nat"

definition new_log_Writer ::
  "('f, 'c, 'o) lw_env \<Rightarrow> 'f \<Rightarrow> u64 \<Rightarrow> bool \<Rightarrow> bool \<Rightarrow> nat \<Rightarrow> bool \<Rightarrow> bool \<Rightarrow> ('f, 'c) log_Writer" where
  "new_log_Writer env file_writer num recycle manual ct track with_checksum =
     \<lparr>lw_dest = Some file_writer, lw_block_offset = 0, lw_log_number = num, lw_recycle_log_files = recycle,
      lw_header_size = (if recycle then kRecyclableHeaderSize else kHeaderSize), lw_manual_flush = manual,
      lw_compression_type = ct, lw_compress = None, lw_track_and_verify_wals = track, lw_last_seqno_recorded = 0,
      lw_wal_with_checksum = with_checksum, lw_type_crc = map (\<lambda>i. crc_Value env [word_of_nat i]) [0..<kMaxRecordType + 1],
      lw_recorded_cf_to_ts_sz = Map.empty\<rparr>"

section \<open>The file\<close>

definition MaybeHandleSeenFileWriterError :: "('f, 'c, 'o) lw_env \<Rightarrow> ('f, 'c) log_Writer \<Rightarrow> Status outcome" where
  "MaybeHandleSeenFileWriterError env w =
     (case lw_dest w of
        None \<Rightarrow> Undefined ''null dest_''
      | Some f \<Rightarrow> Returns (if lw_seen_error env f then StIOError ''Seen error. Skip writing buffer.'' else StOK))"

text \<open>A call on the file: its status and the writer with the changed file.\<close>

definition on_dest ::
  "('f \<Rightarrow> Status \<times> 'f) \<Rightarrow> ('f, 'c) log_Writer \<Rightarrow> (Status \<times> ('f, 'c) log_Writer) outcome" where
  "on_dest call w =
     (case lw_dest w of
        None \<Rightarrow> Undefined ''null dest_''
      | Some f \<Rightarrow> (case call f of (s, f) \<Rightarrow> Returns (s, w\<lparr>lw_dest := Some f\<rparr>)))"

definition WriteBuffer ::
  "('f, 'c, 'o) lw_env \<Rightarrow> 'o \<Rightarrow> ('f, 'c) log_Writer \<Rightarrow> (Status \<times> ('f, 'c) log_Writer) outcome" where
  "WriteBuffer env wo w =
     bind_outcome (MaybeHandleSeenFileWriterError env w)
       (\<lambda>s. if \<not> status_ok s then Returns (s, w)
            else if \<not> status_ok (PrepareIOOptions env wo) then Returns (PrepareIOOptions env wo, w)
            else on_dest (lw_Flush env) w)"

definition lw_Close ::
  "('f, 'c, 'o) lw_env \<Rightarrow> 'o \<Rightarrow> ('f, 'c) log_Writer \<Rightarrow> Status \<times> ('f, 'c) log_Writer" where
  "lw_Close env wo w =
     (let s = PrepareIOOptions env wo
      in case lw_dest w of
           Some f \<Rightarrow> if status_ok s then (fst (lw_Close_file env f), w\<lparr>lw_dest := None\<rparr>) else (s, w)
         | None \<Rightarrow> (s, w))"

definition PublishIfClosed :: "('f, 'c, 'o) lw_env \<Rightarrow> ('f, 'c) log_Writer \<Rightarrow> (bool \<times> ('f, 'c) log_Writer) outcome" where
  "PublishIfClosed env w =
     (case lw_dest w of
        None \<Rightarrow> Undefined ''null dest_''
      | Some f \<Rightarrow> Returns (if lw_IsClosed env f then (True, w\<lparr>lw_dest := None\<rparr>) else (False, w)))"

definition BufferIsEmpty :: "('f, 'c, 'o) lw_env \<Rightarrow> ('f, 'c) log_Writer \<Rightarrow> bool outcome" where
  "BufferIsEmpty env w =
     (case lw_dest w of None \<Rightarrow> Undefined ''null dest_'' | Some f \<Rightarrow> Returns (lw_file_BufferIsEmpty env f))"

text \<open>The destructor flushes the file with default write options and ignores the status.\<close>

definition delete_log_Writer ::
  "('f, 'c, 'o) lw_env \<Rightarrow> 'o \<Rightarrow> ('f, 'c) log_Writer \<Rightarrow> 'f option outcome" where
  "delete_log_Writer env default_options w =
     (case lw_dest w of
        None \<Rightarrow> Returns None
      | Some f \<Rightarrow> bind_outcome (WriteBuffer env default_options w) (\<lambda>(_, w). Returns (lw_dest w)))"

section \<open>Physical records\<close>

definition legacy_header :: "RecordType \<Rightarrow> bool" where
  "legacy_header t \<longleftrightarrow>
     t < kRecyclableFullType \<or> t = kSetCompressionType \<or> t = kPredecessorWALInfoType \<or> t = kUserDefinedTimestampSizeType \<or>
     (t \<ge> kNoChecksumFullType \<and> t \<le> kNoChecksumLastType)"

definition EmitPhysicalRecord ::
  "('f, 'c, 'o) lw_env \<Rightarrow> 'o \<Rightarrow> RecordType \<Rightarrow> bytes \<Rightarrow> ('f, 'c) log_Writer \<Rightarrow> (Status \<times> ('f, 'c) log_Writer) outcome" where
  "EmitPhysicalRecord env wo t payload w =
     (let n = length payload;
          no_checksum = (t \<ge> kNoChecksumFullType \<and> t \<le> kRecyclableNoChecksumLastType);
          header_size = (if legacy_header t then kHeaderSize else kRecyclableHeaderSize);
          log_number_bytes = (if legacy_header t then [] else PutFixed32 (ucast (lw_log_number w)));
          type_crc = lw_type_crc w ! rt_code t;
          crc = (if legacy_header t then type_crc else crc_Extend env type_crc log_number_bytes);
          payload_crc = crc_Value env payload;
          masked = crc_Mask env (Crc32cCombine env crc payload_crc n);
          checksum_bytes = (if no_checksum then [0, 0, 0, 0] else PutFixed32 masked);
          buf = checksum_bytes @ [word_of_nat (n AND 0xff), word_of_nat (drop_bit 8 n), word_of_nat (rt_code t)] @ log_number_bytes
      in if n > 0xffff then Undefined ''assert(n <= 0xffff)''
         else if lw_block_offset w + header_size + n > kBlockSize then Undefined ''assert(block_offset_ + header_size + n <= kBlockSize)''
         else
           bind_outcome
             (if \<not> status_ok (PrepareIOOptions env wo) then Returns (PrepareIOOptions env wo, w)
              else
                bind_outcome (on_dest (\<lambda>f. lw_Append env f buf) w)
                  (\<lambda>(s, w). if \<not> status_ok s then Returns (s, w) else on_dest (\<lambda>f. lw_Append env f payload) w))
             (\<lambda>(s, w). Returns (s, w\<lparr>lw_block_offset := lw_block_offset w + header_size + n\<rparr>)))"

definition MaybeSwitchToNewBlock ::
  "('f, 'c, 'o) lw_env \<Rightarrow> 'o \<Rightarrow> bytes \<Rightarrow> ('f, 'c) log_Writer \<Rightarrow> (Status \<times> ('f, 'c) log_Writer) outcome" where
  "MaybeSwitchToNewBlock env wo content_to_write w =
     (let leftover = kBlockSize - lw_block_offset w
      in if lw_block_offset w > kBlockSize \<or> leftover < lw_header_size w + length content_to_write
         then
           if \<not> status_ok (PrepareIOOptions env wo) then Returns (PrepareIOOptions env wo, w)
           else if lw_block_offset w > kBlockSize then Throws ''std::length_error''
           else
             bind_outcome (on_dest (\<lambda>f. lw_Append env f (replicate leftover 0)) w)
               (\<lambda>(s, w). Returns (s, if status_ok s then w\<lparr>lw_block_offset := 0\<rparr> else w))
         else Returns (StOK, w))"

section \<open>Records\<close>

definition flush_unless_manual ::
  "('f, 'c, 'o) lw_env \<Rightarrow> 'o \<Rightarrow> ('f, 'c) log_Writer \<Rightarrow> (Status \<times> ('f, 'c) log_Writer) outcome" where
  "flush_unless_manual env wo w =
     (if lw_manual_flush w then Returns (StOK, w)
      else if \<not> status_ok (PrepareIOOptions env wo) then Returns (PrepareIOOptions env wo, w)
      else on_dest (lw_Flush env) w)"

definition lw_switch ::
  "('f, 'c, 'o) lw_env \<Rightarrow> ('f, 'c) log_Writer \<Rightarrow> (Status \<times> ('f, 'c) log_Writer) outcome" where
  "lw_switch env w =
     (let leftover = kBlockSize - lw_block_offset w
      in if lw_block_offset w > kBlockSize then Undefined ''assert(leftover >= 0)''
         else if leftover < lw_header_size w
         then if leftover > 0
              then if lw_header_size w > 11 then Undefined ''assert(header_size_ <= 11)''
                   else bind_outcome (on_dest (\<lambda>f. lw_Append env f (replicate leftover 0)) w)
                          (\<lambda>(s, w). Returns (s, if status_ok s then w\<lparr>lw_block_offset := 0\<rparr> else w))
              else Returns (StOK, w\<lparr>lw_block_offset := 0\<rparr>)
         else Returns (StOK, w))"

definition lw_record_type :: "('f, 'c) log_Writer \<Rightarrow> bool \<Rightarrow> bool \<Rightarrow> RecordType" where
  "lw_record_type w is_first is_last =
     (let r = lw_recycle_log_files w
      in if \<not> lw_wal_with_checksum w
         then
           if is_first \<and> is_last then if r then kRecyclableNoChecksumFullType else kNoChecksumFullType
           else if is_first then if r then kRecyclableNoChecksumFirstType else kNoChecksumFirstType
           else if is_last then if r then kRecyclableNoChecksumLastType else kNoChecksumLastType
           else if r then kRecyclableNoChecksumMiddleType else kNoChecksumMiddleType
         else
           if is_first \<and> is_last then if r then kRecyclableFullType else kFullType
           else if is_first then if r then kRecyclableFirstType else kFirstType
           else if is_last then if r then kRecyclableLastType else kLastType
           else if r then kRecyclableMiddleType else kMiddleType)"

text \<open>
  The compression step of one round: \<open>Inl\<close> ends the loop with a status, \<open>Inr\<close> gives what is left to write, the
  result of the compressor and the flag \<open>compress_start\<close>.
\<close>

definition lw_compress_step ::
  "('f, 'c, 'o) lw_env \<Rightarrow> bytes \<Rightarrow> bool \<Rightarrow> int \<Rightarrow> bytes \<Rightarrow> ('f, 'c) log_Writer \<Rightarrow>
     (Status + bytes \<times> int \<times> bool) \<times> ('f, 'c) log_Writer" where
  "lw_compress_step env record_data compress_start compress_remaining left w =
     (case lw_compress w of
        Some c \<Rightarrow>
          if compress_start \<or> left = []
          then
            case Compress env c record_data of (compress_remaining, out, c) \<Rightarrow>
              let w = w\<lparr>lw_compress := Some c\<rparr>
              in if compress_remaining < 0 then (Inl (StIOError ''Unexpected WAL compression error''), w)
                 else if out = [] \<and> \<not> compress_start then (Inl StOK, w)
                 else (Inr (out, compress_remaining, False), w)
          else (Inr (left, compress_remaining, compress_start), w)
      | None \<Rightarrow> (Inr (left, compress_remaining, compress_start), w))"

partial_function (option) lw_AddRecord_loop ::
  "('f, 'c, 'o) lw_env \<Rightarrow> 'o \<Rightarrow> bytes \<Rightarrow> bool \<Rightarrow> bool \<Rightarrow> int \<Rightarrow> bytes \<Rightarrow> ('f, 'c) log_Writer \<Rightarrow>
     (Status \<times> ('f, 'c) log_Writer) outcome option" where
  "lw_AddRecord_loop env wo record_data is_first compress_start compress_remaining left w =
     (case lw_switch env w of
        Returns (s, w) \<Rightarrow>
          if \<not> status_ok s then Some (Returns (s, w))
          else if lw_block_offset w + lw_header_size w > kBlockSize then Some (Undefined ''assert(kBlockSize - block_offset_ >= header_size_)'')
          else
            (case lw_compress_step env record_data compress_start compress_remaining left w of
               (Inl s, w) \<Rightarrow> Some (Returns (s, w))
             | (Inr (left, compress_remaining, compress_start), w) \<Rightarrow>
                 let avail = kBlockSize - lw_block_offset w - lw_header_size w;
                     fragment_length = (if length left < avail then length left else avail);
                     is_last = (length left = fragment_length \<and> compress_remaining = 0)
                 in case EmitPhysicalRecord env wo (lw_record_type w is_first is_last) (take fragment_length left) w of
                      Returns (s, w) \<Rightarrow>
                        if status_ok s \<and> (length left - fragment_length > 0 \<or> compress_remaining > 0)
                        then lw_AddRecord_loop env wo record_data False compress_start compress_remaining (drop fragment_length left) w
                        else Some (Returns (s, w))
                    | Throws e \<Rightarrow> Some (Throws e)
                    | Exits e \<Rightarrow> Some (Exits e)
                    | Undefined e \<Rightarrow> Some (Undefined e))
      | Throws e \<Rightarrow> Some (Throws e)
      | Exits e \<Rightarrow> Some (Exits e)
      | Undefined e \<Rightarrow> Some (Undefined e))"

definition lw_AddRecord ::
  "('f, 'c, 'o) lw_env \<Rightarrow> 'o \<Rightarrow> bytes \<Rightarrow> nat \<Rightarrow> ('f, 'c) log_Writer \<Rightarrow> (Status \<times> ('f, 'c) log_Writer) outcome option" where
  "lw_AddRecord env wo record_data seqno w =
     bind_run (Some (MaybeHandleSeenFileWriterError env w))
       (\<lambda>s. if \<not> status_ok s then Some (Returns (s, w))
            else
              let compress_start = (lw_compress w \<noteq> None);
                  w = w\<lparr>lw_compress := map_option (compress_Reset env) (lw_compress w)\<rparr>
              in bind_run
                   (if \<not> status_ok (PrepareIOOptions env wo) then Some (Returns (PrepareIOOptions env wo, w))
                    else lw_AddRecord_loop env wo record_data True compress_start 0 record_data w)
                   (\<lambda>(s, w).
                      bind_run (Some (if status_ok s \<and> \<not> lw_manual_flush w then on_dest (lw_Flush env) w else Returns (s, w)))
                        (\<lambda>(s, w). Some (Returns (s,
                           if status_ok s then w\<lparr>lw_last_seqno_recorded := max (lw_last_seqno_recorded w) seqno\<rparr> else w)))))"

section \<open>Meta records\<close>

definition AddCompressionTypeRecord ::
  "('f, 'c, 'o) lw_env \<Rightarrow> 'o \<Rightarrow> ('f, 'c) log_Writer \<Rightarrow> (Status \<times> ('f, 'c) log_Writer) outcome" where
  "AddCompressionTypeRecord env wo w =
     (if lw_block_offset w \<noteq> 0 then Undefined ''assert(block_offset_ == 0)''
      else if lw_compression_type w = 0 then Returns (StOK, w)
      else
        bind_outcome (MaybeHandleSeenFileWriterError env w)
          (\<lambda>s. if \<not> status_ok s then Returns (s, w)
               else
                 bind_outcome (EmitPhysicalRecord env wo kSetCompressionType (encode_compression env (lw_compression_type w)) w)
                   (\<lambda>(s, w).
                      if \<not> status_ok s then Returns (s, w\<lparr>lw_compression_type := 0\<rparr>)
                      else
                        bind_outcome (flush_unless_manual env wo w)
                          (\<lambda>(s, w). Returns (s, w\<lparr>lw_compress :=
                             Some (compress_Create env (lw_compression_type w) (kBlockSize - lw_header_size w))\<rparr>)))))"

definition MaybeAddPredecessorWALInfo ::
  "('f, 'c, 'o) lw_env \<Rightarrow> 'o \<Rightarrow> PredecessorWALInfo \<Rightarrow> ('f, 'c) log_Writer \<Rightarrow> (Status \<times> ('f, 'c) log_Writer) outcome" where
  "MaybeAddPredecessorWALInfo env wo info w =
     bind_outcome (MaybeHandleSeenFileWriterError env w)
       (\<lambda>s. if \<not> status_ok s then Returns (s, w)
            else if \<not> lw_track_and_verify_wals w \<or> \<not> pw_initialized info then Returns (StOK, w)
            else
              let encode = encode_predecessor env info
              in bind_outcome (MaybeSwitchToNewBlock env wo encode w)
                   (\<lambda>(s, w).
                      if \<not> status_ok s then Returns (s, w)
                      else
                        bind_outcome (EmitPhysicalRecord env wo
                            (if lw_recycle_log_files w then kRecyclePredecessorWALInfoType else kPredecessorWALInfoType) encode w)
                          (\<lambda>(s, w). if \<not> status_ok s then Returns (s, w) else flush_unless_manual env wo w)))"

text \<open>The column families whose timestamp size is not recorded yet, in the order of the hash map.\<close>

fun ts_sz_to_record ::
  "(u32 \<times> nat) list \<Rightarrow> (u32 \<rightharpoonup> nat) \<Rightarrow> ((u32 \<times> nat) list \<times> (u32 \<rightharpoonup> nat)) outcome" where
  "ts_sz_to_record [] recorded = Returns ([], recorded)"
| "ts_sz_to_record ((cf_id, ts_sz) # rest) recorded =
     (case recorded cf_id of
        Some old \<Rightarrow> if old = ts_sz then ts_sz_to_record rest recorded else Undefined ''assert(recorded_cf_to_ts_sz_[cf_id] == ts_sz)''
      | None \<Rightarrow>
          if ts_sz \<noteq> 0
          then bind_outcome (ts_sz_to_record rest (recorded(cf_id \<mapsto> ts_sz))) (\<lambda>(xs, recorded). Returns ((cf_id, ts_sz) # xs, recorded))
          else ts_sz_to_record rest recorded)"

definition MaybeAddUserDefinedTimestampSizeRecord ::
  "('f, 'c, 'o) lw_env \<Rightarrow> 'o \<Rightarrow> (u32 \<times> nat) list \<Rightarrow> ('f, 'c) log_Writer \<Rightarrow> (Status \<times> ('f, 'c) log_Writer) outcome" where
  "MaybeAddUserDefinedTimestampSizeRecord env wo cf_to_ts_sz w =
     bind_outcome (ts_sz_to_record cf_to_ts_sz (lw_recorded_cf_to_ts_sz w))
       (\<lambda>(to_record, recorded).
          let w = w\<lparr>lw_recorded_cf_to_ts_sz := recorded\<rparr>
          in if to_record = [] then Returns (StOK, w)
             else
               let encoded = encode_timestamp_sizes env to_record
               in bind_outcome (MaybeSwitchToNewBlock env wo encoded w)
                    (\<lambda>(s, w).
                       if \<not> status_ok s then Returns (s, w)
                       else EmitPhysicalRecord env wo
                              (if lw_recycle_log_files w then kRecyclableUserDefinedTimestampSizeType else kUserDefinedTimestampSizeType)
                              encoded w))"

section \<open>Logs without checksums\<close>

text \<open>
  What the writer relies on of its file: appends and flushes succeed, appended bytes are behind the bytes already there, and
  flushing changes none. \<open>plain_writer\<close> is a writer as this repository configures it by default: no recycling, no
  compression and no checksums.
\<close>

definition writable_file :: "('f, 'c, 'o) lw_env \<Rightarrow> ('f \<Rightarrow> bytes) \<Rightarrow> bool" where
  "writable_file env contents \<longleftrightarrow>
     (\<forall>f data. fst (lw_Append env f data) = StOK \<and> contents (snd (lw_Append env f data)) = contents f @ data) \<and>
     (\<forall>f. fst (lw_Flush env f) = StOK \<and> contents (snd (lw_Flush env f)) = contents f \<and> \<not> lw_seen_error env f) \<and>
     (\<forall>wo. PrepareIOOptions env wo = StOK)"

definition plain_writer :: "('f, 'c) log_Writer \<Rightarrow> bool" where
  "plain_writer w \<longleftrightarrow>
     lw_block_offset w \<le> kBlockSize \<and> \<not> lw_recycle_log_files w \<and> lw_header_size w = kHeaderSize \<and>
     \<not> lw_wal_with_checksum w \<and> lw_compress w = None \<and> lw_dest w \<noteq> None"

definition lw_bytes :: "('f \<Rightarrow> bytes) \<Rightarrow> ('f, 'c) log_Writer \<Rightarrow> bytes" where
  "lw_bytes contents w = contents (the (lw_dest w))"

lemma on_dest_append:
  assumes "writable_file env contents" "lw_dest w \<noteq> None"
  obtains f where "on_dest (\<lambda>f. lw_Append env f data) w = Returns (StOK, w\<lparr>lw_dest := Some f\<rparr>)"
    "contents f = lw_bytes contents w @ data"
proof -
  obtain f where f: "lw_dest w = Some f" using assms(2) by blast
  have "fst (lw_Append env f data) = StOK" "contents (snd (lw_Append env f data)) = contents f @ data"
    using assms(1) by (simp_all add: writable_file_def)
  then show thesis using that [of "snd (lw_Append env f data)"] f
    by (cases "lw_Append env f data") (simp add: on_dest_def lw_bytes_def)
qed

lemma on_dest_flush:
  assumes "writable_file env contents" "lw_dest w \<noteq> None"
  obtains f where "on_dest (lw_Flush env) w = Returns (StOK, w\<lparr>lw_dest := Some f\<rparr>)" "contents f = lw_bytes contents w"
proof -
  obtain f where f: "lw_dest w = Some f" using assms(2) by blast
  have "fst (lw_Flush env f) = StOK" "contents (snd (lw_Flush env f)) = contents f"
    using assms(1) by (simp_all add: writable_file_def)
  then show thesis using that [of "snd (lw_Flush env f)"] f by (cases "lw_Flush env f") (simp add: on_dest_def lw_bytes_def)
qed

definition zero_filler :: bytes where "zero_filler = replicate 16 0"

lemma lw_switch_ok:
  assumes env: "writable_file env contents" and w: "plain_writer w"
  shows "\<exists>w'. lw_switch env w = Returns (StOK, w') \<and> plain_writer w' \<and>
     lw_bytes contents w' = lw_bytes contents w @ take (block_skip (lw_block_offset w)) zero_filler \<and>
     lw_block_offset w' = block_start (lw_block_offset w)"
proof (cases "kBlockSize - lw_block_offset w < kHeaderSize \<and> 0 < kBlockSize - lw_block_offset w")
  case True
  let ?l = "kBlockSize - lw_block_offset w"
  obtain f where f: "on_dest (\<lambda>f. lw_Append env f (replicate ?l 0)) w = Returns (StOK, w\<lparr>lw_dest := Some f\<rparr>)"
    "contents f = lw_bytes contents w @ replicate ?l 0"
    by (rule on_dest_append [OF env]) (use w in \<open>auto simp: plain_writer_def\<close>)
  have "?l \<le> 16" using True by (simp add: kHeaderSize_def)
  then show ?thesis
    using True w f
    by (auto simp: lw_switch_def plain_writer_def Let_def status_ok_def lw_bytes_def block_skip_def block_start_def
        zero_filler_def min_absorb1 wal_sizes)
next
  case False
  then show ?thesis
    using w by (auto simp: lw_switch_def plain_writer_def Let_def lw_bytes_def block_skip_def block_start_def)
qed

lemma Emit_plain:
  assumes env: "writable_file env contents" and w: "plain_writer w"
    and fits: "lw_block_offset w + kHeaderSize + length p \<le> kBlockSize"
    and t: "kNoChecksumFullType \<le> t" "t \<le> kNoChecksumLastType"
  shows "\<exists>w'. EmitPhysicalRecord env wo t p w = Returns (StOK, w') \<and> plain_writer w' \<and>
     lw_bytes contents w' = lw_bytes contents w @ wal_header t (length p) @ p \<and>
     lw_block_offset w' = lw_block_offset w + kHeaderSize + length p"
proof -
  have d: "lw_dest w \<noteq> None" using w by (simp add: plain_writer_def)
  obtain f where f: "on_dest (\<lambda>f. lw_Append env f (wal_header t (length p))) w = Returns (StOK, w\<lparr>lw_dest := Some f\<rparr>)"
    "contents f = lw_bytes contents w @ wal_header t (length p)"
    by (rule on_dest_append [OF env d])
  obtain f' where f': "on_dest (\<lambda>f. lw_Append env f p) (w\<lparr>lw_dest := Some f\<rparr>) = Returns (StOK, w\<lparr>lw_dest := Some f'\<rparr>)"
    "contents f' = contents f @ p"
    using on_dest_append [OF env, of "w\<lparr>lw_dest := Some f\<rparr>" p] by (auto simp: lw_bytes_def)
  have h: "legacy_header t" using t by (simp add: legacy_header_def)
  have c: "kNoChecksumFullType \<le> t \<and> t \<le> kRecyclableNoChecksumLastType" using t by (auto simp: less_eq_RecordType_def)
  have "EmitPhysicalRecord env wo t p w = Returns (StOK, w\<lparr>lw_dest := Some f', lw_block_offset := lw_block_offset w + kHeaderSize + length p\<rparr>)"
    using f(1) f'(1) fits env h c
    by (simp add: EmitPhysicalRecord_def Let_def status_ok_def writable_file_def wal_header_def wal_sizes)
  then show ?thesis using f f' w fits by (auto simp: plain_writer_def lw_bytes_def)
qed

lemma lw_record_type_plain: "plain_writer w \<Longrightarrow> lw_record_type w is_first is_last = fragment_type is_first is_last"
  by (simp add: lw_record_type_def fragment_type_def plain_writer_def)

lemma lw_compress_step_plain: "plain_writer w \<Longrightarrow> lw_compress_step env d cs r left w = (Inr (left, r, cs), w)"
  by (simp add: lw_compress_step_def plain_writer_def)

lemma lw_loop_ok:
  assumes env: "writable_file env contents" and "plain_writer w"
  shows "\<exists>w'. lw_AddRecord_loop env wo d0 is_first cs 0 data w = Some (Returns (StOK, w')) \<and> plain_writer w' \<and>
     lw_bytes contents w' = lw_bytes contents w @
       concat (map (frame_bytes zero_filler) (wal_fragments (lw_block_offset w) is_first data)) \<and>
     lw_block_offset w' = frags_end (lw_block_offset w) (wal_fragments (lw_block_offset w) is_first data)"
  using assms(2)
proof (induction "lw_block_offset w" is_first data arbitrary: w rule: wal_fragments.induct)
  case (1 is_first data)
  let ?off = "lw_block_offset w"
  define n where "n = min (length data) (block_avail ?off)"
  let ?t = "fragment_type is_first (length data = n)"
  obtain w1 where w1: "lw_switch env w = Returns (StOK, w1)" "plain_writer w1"
    "lw_bytes contents w1 = lw_bytes contents w @ take (block_skip ?off) zero_filler" "lw_block_offset w1 = block_start ?off"
    using lw_switch_ok [OF env "1.prems"] by blast
  have len: "length (take n data) = n" by (simp add: n_def)
  have fits: "lw_block_offset w1 + kHeaderSize + length (take n data) \<le> kBlockSize"
    using w1(4) block_start_bound [of ?off] by (simp add: n_def block_avail_def)
  obtain w2 where w2: "EmitPhysicalRecord env wo ?t (take n data) w1 = Returns (StOK, w2)" "plain_writer w2"
    "lw_bytes contents w2 = lw_bytes contents w1 @ wal_header ?t (length (take n data)) @ take n data"
    "lw_block_offset w2 = lw_block_offset w1 + kHeaderSize + length (take n data)"
    using Emit_plain [OF env w1(2) fits] fragment_type_range [of is_first "length data = n"] by blast
  have hs: "lw_header_size w1 = kHeaderSize" using w1(2) by (simp add: plain_writer_def)
  have avail: "kBlockSize - (block_start ?off + kHeaderSize) = block_avail ?off" by (simp add: block_avail_def)
  have step: "lw_AddRecord_loop env wo d0 is_first cs 0 data w =
      (if 0 < length data - n then lw_AddRecord_loop env wo d0 False cs 0 (drop n data) w2 else Some (Returns (StOK, w2)))"
    using w1 w2(1) hs block_start_bound [of ?off] avail n_def
    by (subst lw_AddRecord_loop.simps, cases "length data < block_avail ?off")
      (simp_all add: status_ok_def lw_compress_step_plain lw_record_type_plain Let_def)
  show ?case
  proof (cases "0 < length data - n")
    case True
    obtain w3 where "lw_AddRecord_loop env wo d0 False cs 0 (drop n data) w2 = Some (Returns (StOK, w3))" "plain_writer w3"
      "lw_bytes contents w3 = lw_bytes contents w2 @
         concat (map (frame_bytes zero_filler) (wal_fragments (lw_block_offset w2) False (drop n data)))"
      "lw_block_offset w3 = frags_end (lw_block_offset w2) (wal_fragments (lw_block_offset w2) False (drop n data))"
      using "1.hyps" [OF n_def refl, of w2] True w1(4) w2(2,4) len by auto
    then show ?thesis using True step w1 w2 len by (simp add: wal_fragments_step [OF n_def] frame_bytes_def)
  next
    case False
    then show ?thesis using step w1 w2 len by (simp add: wal_fragments_step [OF n_def] frame_bytes_def)
  qed
qed

lemma lw_AddRecord_ok:
  assumes env: "writable_file env contents" and w: "plain_writer w"
  shows "\<exists>w'. lw_AddRecord env wo data seqno w = Some (Returns (StOK, w')) \<and> plain_writer w' \<and>
     lw_bytes contents w' = lw_bytes contents w @
       concat (map (frame_bytes zero_filler) (wal_fragments (lw_block_offset w) True data)) \<and>
     lw_block_offset w' = frags_end (lw_block_offset w) (wal_fragments (lw_block_offset w) True data)"
proof -
  obtain f where f: "lw_dest w = Some f" using w by (auto simp: plain_writer_def)
  have upd: "w\<lparr>lw_compress := None\<rparr> = w" using w by (cases w) (simp add: plain_writer_def)
  obtain w1 where w1: "lw_AddRecord_loop env wo data True False 0 data w = Some (Returns (StOK, w1))" "plain_writer w1"
    "lw_bytes contents w1 = lw_bytes contents w @
       concat (map (frame_bytes zero_filler) (wal_fragments (lw_block_offset w) True data))"
    "lw_block_offset w1 = frags_end (lw_block_offset w) (wal_fragments (lw_block_offset w) True data)"
    using lw_loop_ok [OF env w] by blast
  have seen: "\<not> lw_seen_error env f" "PrepareIOOptions env wo = StOK" using env by (simp_all add: writable_file_def)
  have c: "lw_compress w = None" using w by (simp add: plain_writer_def)
  obtain f' where f': "on_dest (lw_Flush env) w1 = Returns (StOK, w1\<lparr>lw_dest := Some f'\<rparr>)" "contents f' = lw_bytes contents w1"
    by (rule on_dest_flush [OF env]) (use w1(2) in \<open>auto simp: plain_writer_def\<close>)
  let ?w = "(if lw_manual_flush w1 then w1 else w1\<lparr>lw_dest := Some f'\<rparr>)"
  have l: "lw_AddRecord_loop env wo data True False 0 data (w\<lparr>lw_compress := None\<rparr>) = Some (Returns (StOK, w1))"
    unfolding upd by (rule w1(1))
  have "lw_AddRecord env wo data seqno w = Some (Returns (StOK, ?w\<lparr>lw_last_seqno_recorded := max (lw_last_seqno_recorded w1) seqno\<rparr>))"
    using f seen c l f'(1) by (simp add: lw_AddRecord_def MaybeHandleSeenFileWriterError_def status_ok_def Let_def)
  then show ?thesis using w1 f'(2) by (auto simp: plain_writer_def lw_bytes_def)
qed

text \<open>A caller that logs several records and stops at the first status that is not OK.\<close>

primrec lw_AddRecords ::
  "('f, 'c, 'o) lw_env \<Rightarrow> 'o \<Rightarrow> bytes list \<Rightarrow> ('f, 'c) log_Writer \<Rightarrow> (Status \<times> ('f, 'c) log_Writer) outcome option" where
  "lw_AddRecords env wo [] w = Some (Returns (StOK, w))"
| "lw_AddRecords env wo (d # ds) w =
     bind_run (lw_AddRecord env wo d 0 w) (\<lambda>(s, w). if \<not> status_ok s then Some (Returns (s, w)) else lw_AddRecords env wo ds w)"

lemma lw_AddRecords_ok:
  assumes "writable_file env contents" and "plain_writer w"
  shows "\<exists>w'. lw_AddRecords env wo ds w = Some (Returns (StOK, w')) \<and> plain_writer w' \<and>
     lw_bytes contents w' = lw_bytes contents w @ concat (map (frame_bytes zero_filler) (log_fragments (lw_block_offset w) ds))"
  using assms(2)
proof (induction ds arbitrary: w)
  case (Cons d ds)
  obtain w1 where w1: "lw_AddRecord env wo d 0 w = Some (Returns (StOK, w1))" "plain_writer w1"
    "lw_bytes contents w1 = lw_bytes contents w @ concat (map (frame_bytes zero_filler) (wal_fragments (lw_block_offset w) True d))"
    "lw_block_offset w1 = frags_end (lw_block_offset w) (wal_fragments (lw_block_offset w) True d)"
    using lw_AddRecord_ok [OF assms(1) Cons.prems] by blast
  then show ?case using Cons.IH [OF w1(2)] by (auto simp: status_ok_def)
qed simp

lemma new_log_Writer_plain:
  "plain_writer (new_log_Writer env f num False manual ct track False)"
  "lw_bytes contents (new_log_Writer env f num False manual ct track False) = contents f"
  "lw_block_offset (new_log_Writer env f num False manual ct track False) = 0"
  by (simp_all add: new_log_Writer_def plain_writer_def lw_bytes_def)

lemma new_GWALWriter_trailer:
  assumes "new_GWALWriter open_dest genv True True rel db = Returns w"
    and "malloc_header genv = Some hb" "malloc_trailer genv = Some tb" "malloc_temp genv = Some mb"
  shows "gpu_trailer_buffer w = Some tb"
  using assms by (auto simp: new_GWALWriter_def InitializeGPUBuffers_def Let_def bind_outcome_Returns_iff split: if_split_asm)

section \<open>Properties\<close>

definition list_lw_env :: "(bytes, unit, unit) lw_env" where
  "list_lw_env =
     \<lparr>lw_Append = \<lambda>f d. (StOK, f @ d), lw_Flush = \<lambda>f. (StOK, f), lw_Close_file = \<lambda>f. (StOK, f), lw_seen_error = \<lambda>_. False,
      lw_IsClosed = \<lambda>_. False, lw_file_BufferIsEmpty = \<lambda>_. True, PrepareIOOptions = \<lambda>_. StOK, crc_Value = \<lambda>_. 0, crc_Extend = \<lambda>c _. c,
      Crc32cCombine = \<lambda>a b _. a XOR b, crc_Mask = \<lambda>c. c, encode_compression = \<lambda>_. [], encode_predecessor = \<lambda>_. [],
      encode_timestamp_sizes = \<lambda>_. [], compress_Create = \<lambda>_ _. (), compress_Reset = \<lambda>c. c, Compress = \<lambda>c d. (0, d, c)\<rparr>"

text \<open>
  C4: The GPU log writer and RocksDB's log writer write the same log. For every sequence of records, both writers, each
  on a new file and without checksums, cut the records into the same physical records: the two files differ only in the
  unused bytes at the end of blocks, which RocksDB fills with zeros and the GPU writer with what its device buffer held. When
  that buffer holds zeros the files are equal. RocksDB's reader returns the records from either file.
\<close>

theorem log_writers_agree:
  assumes "open_env_ok contents default_GDSOptions oenv h" and "contents (cu_state h) = []"
    and "rel \<noteq> []" and "malloc_header genv = Some hb" "malloc_trailer genv = Some tb" "malloc_temp genv = Some mb"
    and "length hb = kRecyclableHeaderSize" "length tb = 16" "length mb = kBlockSize"
    and "writable_file env file_bytes" "file_bytes f = []" and "seq_file_spec remaining renv"
  shows "\<exists>w w' v fs filler. new_GWALWriter (\<lambda>f. new_GDSFileSystem no_handle oenv f default_GDSOptions) genv True True rel db = Returns w \<and>
     AddRecords AppendFromGPU ds w = Returns w' \<and>
     lw_AddRecords env wo ds (new_log_Writer env f num False manual ct track False) = Some (Returns (StOK, v)) \<and>
     gds_contents contents (delete_GWALWriter delete_GDSFileSystem w') = concat (map (frame_bytes filler) fs) \<and>
     lw_bytes file_bytes v = concat (map (frame_bytes zero_filler) fs) \<and>
     (tb = replicate 16 0 \<longrightarrow> gds_contents contents (delete_GWALWriter delete_GDSFileSystem w') = lw_bytes file_bytes v) \<and>
     (\<forall>g n. remaining g \<in> {gds_contents contents (delete_GWALWriter delete_GDSFileSystem w'), lw_bytes file_bytes v} \<and> length ds < n \<longrightarrow>
        (\<exists>r. read_records renv mode want n (new_Reader g rep chk num' tr stp mw ob) = Some (ds, r) \<and> reports r = []))"
proof -
  obtain w w' where w: "new_GWALWriter (\<lambda>f. new_GDSFileSystem no_handle oenv f default_GDSOptions) genv True True rel db = Returns w"
    "AddRecords AppendFromGPU ds w = Returns w'" "kHeaderSize - 1 \<le> length (gwal_trailer w)"
    "gds_contents contents (delete_GWALWriter delete_GDSFileSystem w') = concat (map (frame_bytes (gwal_trailer w)) (log_fragments 0 ds))"
    using logged_file_contents [OF assms(1-9)] by blast
  have trailer: "gwal_trailer w = zero_filler" if "tb = replicate 16 0"
    using new_GWALWriter_trailer [OF w(1) assms(4-6)] that by (simp add: gwal_trailer_def zero_filler_def write_at_def flip: replicate_Suc)
  obtain v where v: "lw_AddRecords env wo ds (new_log_Writer env f num False manual ct track False) = Some (Returns (StOK, v))"
    "lw_bytes file_bytes v = concat (map (frame_bytes zero_filler) (log_fragments 0 ds))"
    using lw_AddRecords_ok [OF assms(10), of "new_log_Writer env f num False manual ct track False" wo ds] assms(11)
    by (auto simp: new_log_Writer_plain)
  have read: "\<exists>r. read_records renv mode want n (new_Reader g rep chk num' tr stp mw ob) = Some (ds, r) \<and> reports r = []"
    if "remaining g = concat (map (frame_bytes fl) (log_fragments 0 ds))" "length ds < n" "kHeaderSize - 1 \<le> length fl" for g n fl
  proof -
    let ?r = "new_Reader g rep chk num' tr stp mw ob"
    have "reader_at remaining kBlockSize (concat (map (frame_bytes fl) (log_fragments kBlockSize ds))) ?r"
      unfolding log_fragments_block_end using that(1) by (rule new_Reader_at)
    moreover have "uncompress ?r = None" "reports ?r = []" by (simp_all add: new_Reader_def)
    ultimately show ?thesis using read_records_log [OF assms(12) that(3) _ _ that(2), of ?r kBlockSize mode want] by metis
  qed
  have "kHeaderSize - 1 \<le> length zero_filler" by (simp add: zero_filler_def wal_sizes)
  moreover have "gds_contents contents (delete_GWALWriter delete_GDSFileSystem w') = lw_bytes file_bytes v" if "tb = replicate 16 0"
    using w(4) v(2) trailer [OF that] by simp
  ultimately show ?thesis
    using w v read by (intro exI [of _ w] exI [of _ w'] exI [of _ v] exI [of _ "log_fragments 0 ds"] exI [of _ "gwal_trailer w"]) auto
qed

theorem log_writers_agree_witness:
  "\<exists>w w' v fs filler. new_GWALWriter (\<lambda>f. new_GDSFileSystem (list_device []) (list_open_env default_GDSOptions []) f default_GDSOptions)
       sample_gwal_env True True ''/000012.log'' ''/db'' = Returns w \<and>
     AddRecords AppendFromGPU [replicate 32755 1, [2, 3]] w = Returns w' \<and>
     lw_AddRecords list_lw_env () [replicate 32755 1, [2, 3]] (new_log_Writer list_lw_env [] 12 False False 0 False False) = Some (Returns (StOK, v)) \<and>
     gds_contents (\<lambda>f. f) (delete_GWALWriter delete_GDSFileSystem w') = concat (map (frame_bytes filler) fs) \<and>
     lw_bytes (\<lambda>f. f) v = concat (map (frame_bytes zero_filler) fs) \<and>
     (replicate 16 (0xab :: byte) = replicate 16 0 \<longrightarrow>
        gds_contents (\<lambda>f. f) (delete_GWALWriter delete_GDSFileSystem w') = lw_bytes (\<lambda>f. f) v) \<and>
     (\<forall>g n. g \<in> {gds_contents (\<lambda>f. f) (delete_GWALWriter delete_GDSFileSystem w'), lw_bytes (\<lambda>f. f) v} \<and>
        length [replicate 32755 (1 :: byte), [2, 3]] < n \<longrightarrow>
        (\<exists>r. read_records list_wal_env kAbsoluteConsistency True n (new_Reader g True True 12 False False 0 no_info) =
               Some ([replicate 32755 1, [2, 3]], r) \<and> reports r = []))"
  by (rule log_writers_agree [where contents = "\<lambda>f. f" and remaining = "\<lambda>f. f" and file_bytes = "\<lambda>f. f" and h = "list_device []"
        and hb = "replicate kRecyclableHeaderSize 0xab" and tb = "replicate 16 0xab" and mb = "replicate kBlockSize 0xab"])
    (simp_all add: sample_gwal_env_def writable_file_def list_lw_env_def)

end
