(* ===== verification/GPU_Tree.thy ===== *)
theory GPU_Tree
  imports MLKV_Config GPU_Kernel
begin

text \<open>
  The GPU tier of the store, \<open>GPUTreeHkv\<close> of \<^verbatim>\<open>src/gpu_tree_hkv.cc.cu\<close>: a hash table in device memory
  that evicts entries when it is full, a second table used as the result buffer of batch lookups, and a pool of device
  buffers for them.

  The hash table is HierarchicalKV's. Its kernels are not part of the repository, so the table is a state of any type
  \<open>'t\<close> with the operations of the record \<open>hkv\<close>; what its header \<^verbatim>\<open>merlin_hashtable.cuh\<close> documents of
  them is the predicate \<open>hkv_ok\<close>. Its helpers \<open>ispow2\<close> and \<open>GB\<close> are fields of the record as well; its \<open>CUDA_CHECK\<close>
  throws. Arrays in device memory are lists with one element per key or value vector. \<open>cuda\<close> says for every CUDA call, by name, whether it succeeds.
\<close>

section \<open>The hash table\<close>

record HashTableOptions =
  init_capacity :: nat
  max_capacity :: nat
  max_hbm_for_vectors :: nat
  max_bucket_size :: nat
  opt_dim :: nat
  opt_device_id :: int
  io_by_cpu :: bool
  reserved_key_start_bit :: int
  num_of_buckets_per_alloc :: nat

definition default_HashTableOptions :: HashTableOptions where
  "default_HashTableOptions =
     \<lparr>init_capacity = 0, max_capacity = 0, max_hbm_for_vectors = 0, max_bucket_size = 128, opt_dim = 64, opt_device_id = -1,
      io_by_cpu = False, reserved_key_start_bit = 0, num_of_buckets_per_alloc = 1\<rparr>"

record ('t, 'k, 'v) hkv =
  hkv_create :: "HashTableOptions \<Rightarrow> 't"
  hkv_find :: "'t \<Rightarrow> 'k \<Rightarrow> 'v option"
  insert_and_evict :: "'t \<Rightarrow> ('k \<times> 'v) list \<Rightarrow> 't \<times> ('k \<times> 'v) list"
  insert_or_assign :: "'t \<Rightarrow> ('k \<times> 'v) list \<Rightarrow> 't"
  hkv_ispow2 :: "nat \<Rightarrow> bool"
  hkv_GB :: "nat \<Rightarrow> nat"

text \<open>
  \<open>HashTable::init\<close> rejects options by throwing. The test for powers of two gets its argument as a 32-bit integer. The
  table is allocated by \<open>create_table\<close> before the last check of the options.
\<close>

definition HashTable_init ::
  "('t, 'k, 'v) hkv \<Rightarrow> (string \<Rightarrow> bool) \<Rightarrow> HashTableOptions \<Rightarrow> nat \<Rightarrow> nat \<Rightarrow> 't outcome" where
  "HashTable_init H cuda options sizeof_key sizeof_score =
     (if \<not> (0 \<le> reserved_key_start_bit options \<and> reserved_key_start_bit options \<le> 62)
      then Throws ''options.reserved_key_start_bit should >= 0 and <= 62.''
      else if \<not> cuda ''init_reserved_keys'' then Throws ''init_reserved_keys''
      else if opt_device_id options \<ge> 0 \<and> \<not> cuda ''cudaSetDevice'' then Throws ''cudaSetDevice''
      else if opt_device_id options < 0 \<and> \<not> cuda ''cudaGetDevice'' then Throws ''cudaGetDevice''
      else if \<not> hkv_ispow2 H (max_bucket_size options mod 2 ^ 32) then Throws ''Bucket size should be the pow of 2''
      else if \<not> hkv_ispow2 H (num_of_buckets_per_alloc options mod 2 ^ 32)
      then Throws ''num_of_buckets_per_alloc should be the pow of 2''
      else if init_capacity options < (num_of_buckets_per_alloc options * max_bucket_size options) mod 2 ^ 64
      then Throws ''num_of_buckets_per_alloc must be equal or less than initial required buckets number''
      else if (max_bucket_size options * (sizeof_key + sizeof_score)) mod 128 \<noteq> 0
      then Throws ''Storage size of keys and scores in one bucket should be the mutiple of cache line size''
      else if \<not> cuda ''cudaGetDeviceProperties'' then Throws ''cudaGetDeviceProperties''
      else if \<not> cuda ''create_table'' then Throws ''create_table''
      else if io_by_cpu options \<and> max_hbm_for_vectors options \<noteq> 0
      then Throws ''io_by_cpu should not be true when max_hbm_for_vectors is not 0!''
      else if \<not> cuda ''alloc d_table'' then Throws ''alloc d_table''
      else if \<not> cuda ''cudaDeviceSynchronize'' then Throws ''cudaDeviceSynchronize''
      else if \<not> cuda ''CudaCheckError'' then Throws ''CudaCheckError''
      else Returns (hkv_create H options))"

section \<open>State\<close>

text \<open>A pointer of a pool buffer: null, to live memory, or to memory that was freed again.\<close>

datatype buffer_ptr = NullBuffer | Live | Dangling

record DeviceBuffer =
  buffer_id :: nat
  buf_d_keys :: buffer_ptr
  buf_d_values :: buffer_ptr
  buf_d_values_out :: buffer_ptr
  buf_d_found :: buffer_ptr
  buf_d_all_true :: buffer_ptr
  in_use :: bool

record 't GPUTreeHkv =
  gt_config :: StorageConfig
  gt_table :: "'t option"
  gt_buffer_table :: "'t option"
  gt_pool :: "DeviceBuffer list"
  gt_leaked :: nat

definition new_GPUTreeHkv :: "StorageConfig \<Rightarrow> 't GPUTreeHkv" where
  "new_GPUTreeHkv config = \<lparr>gt_config = config, gt_table = None, gt_buffer_table = None, gt_pool = [], gt_leaked = 0\<rparr>"

section \<open>The pool of device buffers\<close>

text \<open>
  One buffer of the pool; \<open>malloc\<close> says which of its five allocations succeed. When one fails, those before it are freed
  and their pointers are left as they are.
\<close>

definition free_buffers :: "DeviceBuffer \<Rightarrow> DeviceBuffer" where
  "free_buffers b =
     (let free = (\<lambda>p. if p = NullBuffer then NullBuffer else Dangling)
      in b\<lparr>buf_d_keys := free (buf_d_keys b), buf_d_values := free (buf_d_values b), buf_d_values_out := free (buf_d_values_out b),
           buf_d_found := free (buf_d_found b)\<rparr>)"

definition init_device_buffer :: "(nat \<Rightarrow> bool) \<Rightarrow> nat \<Rightarrow> DeviceBuffer" where
  "init_device_buffer malloc i =
     (let b = \<lparr>buffer_id = i, buf_d_keys = NullBuffer, buf_d_values = NullBuffer, buf_d_values_out = NullBuffer,
               buf_d_found = NullBuffer, buf_d_all_true = NullBuffer, in_use = False\<rparr>
      in if \<not> malloc 0 then b
         else let b = b\<lparr>buf_d_keys := Live\<rparr> in if \<not> malloc 1 then free_buffers b
         else let b = b\<lparr>buf_d_values := Live\<rparr> in if \<not> malloc 2 then free_buffers b
         else let b = b\<lparr>buf_d_values_out := Live\<rparr> in if \<not> malloc 3 then free_buffers b
         else let b = b\<lparr>buf_d_found := Live\<rparr> in if \<not> malloc 4 then free_buffers b
         else b\<lparr>buf_d_all_true := Live\<rparr>)"

definition init_device_buffers :: "(nat \<Rightarrow> nat \<Rightarrow> bool) \<Rightarrow> nat \<Rightarrow> 't GPUTreeHkv \<Rightarrow> 't GPUTreeHkv" where
  "init_device_buffers malloc num_buffers g =
     (let actual_num_buffers = max num_buffers 2
      in g\<lparr>gt_pool := map (\<lambda>i. init_device_buffer (malloc i) i) [0..<actual_num_buffers]\<rparr>)"

definition buffer_usable :: "DeviceBuffer \<Rightarrow> bool" where
  "buffer_usable b \<longleftrightarrow>
     buf_d_keys b \<noteq> NullBuffer \<and> buf_d_values b \<noteq> NullBuffer \<and> buf_d_values_out b \<noteq> NullBuffer \<and>
     buf_d_found b \<noteq> NullBuffer \<and> buf_d_all_true b \<noteq> NullBuffer"

text \<open>The index of the first free buffer; \<open>None\<close> is the null pointer.\<close>

fun find_buffer :: "DeviceBuffer list \<Rightarrow> nat option" where
  "find_buffer [] = None"
| "find_buffer (b # bs) = (if \<not> in_use b \<and> buffer_usable b then Some 0 else map_option Suc (find_buffer bs))"

definition get_device_buffer :: "'t GPUTreeHkv \<Rightarrow> nat option \<times> 't GPUTreeHkv" where
  "get_device_buffer g =
     (case find_buffer (gt_pool g) of
        Some i \<Rightarrow> (Some i, g\<lparr>gt_pool := (gt_pool g)[i := (gt_pool g ! i)\<lparr>in_use := True\<rparr>]\<rparr>)
      | None \<Rightarrow> (None, g))"

definition release_device_buffer :: "nat option \<Rightarrow> 't GPUTreeHkv \<Rightarrow> 't GPUTreeHkv" where
  "release_device_buffer device_buffer g =
     (case device_buffer of
        None \<Rightarrow> g
      | Some i \<Rightarrow> g\<lparr>gt_pool := (gt_pool g)[i := (gt_pool g ! i)\<lparr>in_use := False\<rparr>]\<rparr>)"

definition free_device_buffers :: "'t GPUTreeHkv \<Rightarrow> 't GPUTreeHkv" where
  "free_device_buffers g = g\<lparr>gt_pool := []\<rparr>"

definition delete_GPUTreeHkv :: "'t GPUTreeHkv \<Rightarrow> 't GPUTreeHkv" where
  "delete_GPUTreeHkv g = (free_device_buffers g)\<lparr>gt_table := None, gt_buffer_table := None\<rparr>"

section \<open>Initialisation\<close>

definition table_options :: "('t, 'k, 'v) hkv \<Rightarrow> StorageConfig \<Rightarrow> HashTableOptions" where
  "table_options H config =
     default_HashTableOptions\<lparr>init_capacity := hkv_init_capacity config, max_capacity := hkv_max_capacity config,
       opt_dim := cfg_dim config, max_hbm_for_vectors := hkv_GB H (max_hbm_for_vectors_gb config),
       io_by_cpu := hkv_io_by_cpu config, opt_device_id := cfg_gpu_id config\<rparr>"

definition buffer_options :: "('t, 'k, 'v) hkv \<Rightarrow> StorageConfig \<Rightarrow> HashTableOptions" where
  "buffer_options H config =
     (let options = table_options H config;
          smallest = num_of_buckets_per_alloc options * max_bucket_size options;
          capacity = (if cfg_max_batch_size config \<ge> smallest then cfg_max_batch_size config else smallest)
      in default_HashTableOptions\<lparr>init_capacity := capacity, max_capacity := capacity, opt_dim := cfg_dim config,
           io_by_cpu := hkv_io_by_cpu config, opt_device_id := cfg_gpu_id config\<rparr>)"

definition gpu_initialize ::
  "('t, 'k, 'v) hkv \<Rightarrow> (string \<Rightarrow> bool) \<Rightarrow> (nat \<Rightarrow> nat \<Rightarrow> bool) \<Rightarrow> nat \<Rightarrow> 't GPUTreeHkv \<Rightarrow>
     (OperationResult \<times> 't GPUTreeHkv) outcome" where
  "gpu_initialize H cuda malloc sizeof_Key g =
     bind_outcome (HashTable_init H cuda (table_options H (gt_config g)) sizeof_Key 8)
       (\<lambda>table.
          if \<not> cuda ''cudaGetLastError'' then Throws ''cudaGetLastError''
          else
            let g = init_device_buffers malloc 4 (g\<lparr>gt_table := Some table\<rparr>)
            in bind_outcome (HashTable_init H cuda (buffer_options H (gt_config g)) sizeof_Key 8)
                 (\<lambda>buffer. Returns (SUCCESS, g\<lparr>gt_buffer_table := Some buffer\<rparr>)))"

section \<open>Single keys\<close>

text \<open>
  The evicted pairs are handed to the caller with their arrays; when nothing was evicted, the two arrays stay
  allocated and no pointer to them is left, which \<open>gt_leaked\<close> counts.
\<close>

definition gpu_put ::
  "('t, 'k, 'v) hkv \<Rightarrow> (string \<Rightarrow> bool) \<Rightarrow> 'k \<Rightarrow> 'v \<Rightarrow> 't GPUTreeHkv \<Rightarrow>
     (OperationResult \<times> ('k \<times> 'v) list \<times> 't GPUTreeHkv) outcome" where
  "gpu_put H cuda key vals g =
     (case gt_table g of
        None \<Rightarrow> Returns (CUDA_ERROR, [], g)
      | Some table \<Rightarrow>
          MLKV_CUDA_CHECK cuda ''cudaMalloc d_keys''
          (MLKV_CUDA_CHECK cuda ''cudaMalloc d_values''
          (MLKV_CUDA_CHECK cuda ''cudaMalloc d_evicted_keys''
          (MLKV_CUDA_CHECK cuda ''cudaMalloc d_evicted_values''
          (MLKV_CUDA_CHECK cuda ''cudaMalloc d_evicted_counter''
          (MLKV_CUDA_CHECK cuda ''cudaMemset d_evicted_counter''
          (MLKV_CUDA_CHECK cuda ''cudaMemcpy d_keys''
          (MLKV_CUDA_CHECK cuda ''cudaMemcpy d_values''
          (let (table, evicted) = insert_and_evict H table [(key, vals)];
               g = g\<lparr>gt_table := Some table\<rparr>
           in if length evicted > 1 then Undefined ''write beyond d_evicted_keys''
              else
                MLKV_CUDA_CHECK cuda ''cudaMemcpy evicted_count''
                (MLKV_CUDA_CHECK cuda ''cudaFree d_keys''
                (MLKV_CUDA_CHECK cuda ''cudaFree d_values''
                (MLKV_CUDA_CHECK cuda ''cudaFree d_evicted_counter''
                (Returns (if length evicted > 0 then (GPU_EVICTED, evicted, g)
                          else (SUCCESS, [], g\<lparr>gt_leaked := gt_leaked g + 2\<rparr>)))))))))))))))"

text \<open>Exceptions of \<open>get\<close> are caught; a key that is not found leaves the output as it was.\<close>

definition gpu_get ::
  "('t, 'k, 'v) hkv \<Rightarrow> (string \<Rightarrow> bool) \<Rightarrow> 'k \<Rightarrow> 'v \<Rightarrow> 't GPUTreeHkv \<Rightarrow> OperationResult \<times> 'v" where
  "gpu_get H cuda d_key d_values g =
     (case gt_table g of
        None \<Rightarrow> (CUDA_ERROR, d_values)
      | Some table \<Rightarrow>
          if \<not> cuda ''cudaMalloc d_found'' then (CUDA_ERROR, d_values)
          else
            let found = hkv_find H table d_key;
                d_values = (case found of Some v \<Rightarrow> v | None \<Rightarrow> d_values)
            in if \<not> cuda ''cudaMemcpy found'' then (CUDA_ERROR, d_values)
               else if \<not> cuda ''cudaFree d_found'' then (CUDA_ERROR, d_values)
               else (if found \<noteq> None then SUCCESS else KEY_NOT_FOUND, d_values))"

section \<open>Batches\<close>

definition gpu_multiset ::
  "('t, 'k, 'v) hkv \<Rightarrow> (string \<Rightarrow> bool) \<Rightarrow> 'k list \<Rightarrow> 'v list \<Rightarrow> nat \<Rightarrow> 't GPUTreeHkv \<Rightarrow>
     (OperationResult \<times> ('k \<times> 'v) list \<times> 't GPUTreeHkv) outcome" where
  "gpu_multiset H cuda d_keys d_values batch_size g =
     (case gt_table g of
        None \<Rightarrow> Returns (CUDA_ERROR, [], g)
      | Some table \<Rightarrow>
          if batch_size = 0 then Returns (SUCCESS, [], g)
          else if \<not> cuda ''cudaMalloc d_evicted'' then Undefined ''uninitialised pointer''
          else if length d_keys < batch_size \<or> length d_values < batch_size then Undefined ''read beyond d_keys or d_values''
          else
            let (table, evicted) = insert_and_evict H table (zip (take batch_size d_keys) (take batch_size d_values));
                g = g\<lparr>gt_table := Some table\<rparr>
            in if length evicted > batch_size then Undefined ''write beyond d_evicted_keys''
               else if \<not> cuda ''cudaDeviceSynchronize'' \<or> \<not> cuda ''cudaMemcpy evicted_count''
               then Returns (CUDA_ERROR, [], g)
               else if \<not> cuda ''cudaFree d_evicted_counter'' then Returns (CUDA_ERROR, evicted, g)
               else Returns (if length evicted > 0 then (GPU_EVICTED, evicted, g)
                             else (SUCCESS, [], g\<lparr>gt_leaked := gt_leaked g + 2\<rparr>)))"

text \<open>
  \<open>check_all_true_kernel\<close>: thread 0 of block 0 stores 1 and the barrier orders this store before the stores of
  the other threads of block 0 only. Each thread whose element is false then stores 0. A block is the
  list of its stores, those behind the barrier in an order of their own; blocks run in any interleaving.
\<close>

record kernel_run =
  kr_blocks :: "nat list"
  kr_threads :: "nat \<Rightarrow> nat list"
  kr_stale :: int

definition check_all_true_thread :: "bool list \<Rightarrow> nat \<Rightarrow> nat \<Rightarrow> int store list" where
  "check_all_true_thread d_array n idx = (if idx < n then if \<not> d_array ! idx then [(0, [0])] else [] else [])"

definition check_all_true_block :: "bool list \<Rightarrow> nat \<Rightarrow> (nat \<Rightarrow> nat list) \<Rightarrow> nat \<Rightarrow> int store list" where
  "check_all_true_block d_array n order b =
     (if b = 0 then [(0, [1])] else []) @
     interleave (order b) (map (\<lambda>t. check_all_true_thread d_array n (b * 256 + t)) [0..<256])"

definition check_all_true_kernel :: "kernel_run \<Rightarrow> bool list \<Rightarrow> nat \<Rightarrow> int" where
  "check_all_true_kernel run d_array n =
     hd (launch (kr_blocks run) (check_all_true_block d_array n (kr_threads run)) ((n + 256 - 1) div 256) [kr_stale run])"

text \<open>A batch lookup in the table: the values of missing keys are left as they were.\<close>

definition find_batch :: "('t, 'k, 'v) hkv \<Rightarrow> 't \<Rightarrow> 'k list \<Rightarrow> 'v list \<Rightarrow> 'v list \<times> bool list" where
  "find_batch H table keys vals =
     (map (\<lambda>(k, v). case hkv_find H table k of Some w \<Rightarrow> w | None \<Rightarrow> v) (zip keys vals) @ drop (length keys) vals,
      map (\<lambda>k. hkv_find H table k \<noteq> None) keys)"

definition gpu_multiget ::
  "('t, 'k, 'v) hkv \<Rightarrow> (string \<Rightarrow> bool) \<Rightarrow> kernel_run \<Rightarrow> 'k list \<Rightarrow> 'v list \<Rightarrow> nat \<Rightarrow> 't GPUTreeHkv \<Rightarrow>
     (OperationResult \<times> 'v list \<times> bool list \<times> 't GPUTreeHkv) outcome" where
  "gpu_multiget H cuda run d_keys d_values_out batch_size g =
     (case get_device_buffer g of
        (None, _) \<Rightarrow> Undefined ''null device_buffer''
      | (Some i, g) \<Rightarrow>
          (case gt_table g of
             None \<Rightarrow> Undefined ''null hkv_table_''
           | Some table \<Rightarrow>
               if length d_keys < batch_size \<or> length d_values_out < batch_size \<or> cfg_max_batch_size (gt_config g) < batch_size
               then Undefined ''access beyond an array of the batch''
               else
                 let (vals, found) = find_batch H table (take batch_size d_keys) d_values_out
                 in MLKV_CUDA_CHECK cuda ''cudaStreamSynchronize''
                    (MLKV_CUDA_CHECK cuda ''cudaMemcpy all_true''
                    (if check_all_true_kernel run found batch_size = 1
                     then Returns (GPU_ALL_FOUND, vals, replicate batch_size True, release_device_buffer (Some i) g)
                     else MLKV_CUDA_CHECK cuda ''cudaMemcpy h_found''
                          (Returns (SUCCESS, vals, found, release_device_buffer (Some i) g))))))"

definition multiget_gpu_only ::
  "('t, 'k, 'v) hkv \<Rightarrow> (string \<Rightarrow> bool) \<Rightarrow> kernel_run \<Rightarrow> 'k list \<Rightarrow> 'v list \<Rightarrow> nat \<Rightarrow> 't GPUTreeHkv \<Rightarrow>
     (OperationResult \<times> 'v list \<times> bool list \<times> 't GPUTreeHkv) outcome" where
  "multiget_gpu_only H cuda run d_keys d_values_out batch_size g =
     (case get_device_buffer g of
        (None, _) \<Rightarrow> Undefined ''null device_buffer''
      | (Some i, g) \<Rightarrow>
          (case gt_table g of
             None \<Rightarrow> Undefined ''null hkv_table_''
           | Some table \<Rightarrow>
               if length d_keys < batch_size \<or> length d_values_out < batch_size then Undefined ''access beyond an array of the batch''
               else
                 let (vals, found) = find_batch H table (take batch_size d_keys) d_values_out
                 in MLKV_CUDA_CHECK cuda ''cudaStreamSynchronize''
                    (MLKV_CUDA_CHECK cuda ''cudaMemcpy all_true''
                    (Returns (if check_all_true_kernel run found batch_size = 1 then GPU_ALL_FOUND else SUCCESS, vals, found,
                              release_device_buffer (Some i) g)))))"

section \<open>The result buffer\<close>

definition multiset_buffer ::
  "('t, 'k, 'v) hkv \<Rightarrow> (string \<Rightarrow> bool) \<Rightarrow> 'k list \<Rightarrow> 'v list \<Rightarrow> nat \<Rightarrow> 't GPUTreeHkv \<Rightarrow> (OperationResult \<times> 't GPUTreeHkv) outcome" where
  "multiset_buffer H cuda d_keys d_values batch_size g =
     (case gt_buffer_table g of
        None \<Rightarrow> Undefined ''null hkv_table_buffer_''
      | Some table \<Rightarrow>
          if length d_keys < batch_size \<or> length d_values < batch_size then Undefined ''read beyond d_keys or d_values''
          else
            let table = insert_or_assign H table (zip (take batch_size d_keys) (take batch_size d_values))
            in MLKV_CUDA_CHECK cuda ''cudaStreamSynchronize'' (Returns (SUCCESS, g\<lparr>gt_buffer_table := Some table\<rparr>)))"

definition multiget_buffer ::
  "('t, 'k, 'v) hkv \<Rightarrow> (string \<Rightarrow> bool) \<Rightarrow> 'k list \<Rightarrow> 'v list \<Rightarrow> nat \<Rightarrow> 't GPUTreeHkv \<Rightarrow>
     (OperationResult \<times> 'v list \<times> bool list) outcome" where
  "multiget_buffer H cuda d_keys d_values_out batch_size g =
     (case gt_buffer_table g of
        None \<Rightarrow> Undefined ''null hkv_table_buffer_''
      | Some table \<Rightarrow>
          if length d_keys < batch_size \<or> length d_values_out < batch_size then Undefined ''access beyond an array of the batch''
          else
            let (vals, found) = find_batch H table (take batch_size d_keys) d_values_out
            in MLKV_CUDA_CHECK cuda ''cudaStreamSynchronize'' (Returns (SUCCESS, vals, found)))"

section \<open>The contract of the hash table\<close>

text \<open>
  What the header documents. After an insertion of a batch without repeated keys, every key has its new value, or its
  old one when it is not in the batch, either in the table or among the pairs handed out as evicted. The second table is
  sized for one batch: \<open>buffer_keeps\<close> says that it keeps the last \<open>n\<close> keys written to it when they come in at most two
  insertions, as a batch lookup writes them; whatever it held before may be evicted.
\<close>

definition hkv_ok :: "('t, 'k, 'v) hkv \<Rightarrow> bool" where
  "hkv_ok H \<longleftrightarrow>
     (\<forall>table kvs. distinct (map fst kvs) \<longrightarrow>
        (case insert_and_evict H table kvs of (table', evicted) \<Rightarrow>
           distinct (map fst evicted) \<and> length evicted \<le> length kvs \<and>
           (\<forall>k v. (k, v) \<in> set evicted \<longrightarrow> hkv_find H table' k = None) \<and>
           map_of evicted ++ hkv_find H table' = hkv_find H table ++ map_of kvs))"

definition buffer_keeps :: "('t, 'k, 'v) hkv \<Rightarrow> nat \<Rightarrow> bool" where
  "buffer_keeps H n \<longleftrightarrow>
     (\<forall>table kvs. distinct (map fst kvs) \<and> length kvs \<le> n \<longrightarrow>
        (\<forall>k v. map_of kvs k = Some v \<longrightarrow> hkv_find H (insert_or_assign H table kvs) k = Some v)) \<and>
     (\<forall>table kvs kvs'. distinct (map fst (kvs @ kvs')) \<and> length (kvs @ kvs') \<le> n \<longrightarrow>
        (\<forall>k v. map_of (kvs @ kvs') k = Some v \<longrightarrow>
           hkv_find H (insert_or_assign H (insert_or_assign H table kvs) kvs') k = Some v))"

section \<open>The reduction over the found flags\<close>

text \<open>Stores of one cell: the last one counts.\<close>

lemma run_cell:
  "list_all (\<lambda>w. \<exists>x. w = (0, [x])) ws \<Longrightarrow> run_stores ws [a] = [last (a # map (hd \<circ> snd) ws)]"
  by (induction ws arbitrary: a) (auto simp: write_at_def)

lemma check_all_true_stores:
  assumes "w \<in> set (check_all_true_block d_array n order b)"
  shows "w = (0, [1]) \<or> w = (0, [0]) \<and> (\<exists>i < n. \<not> d_array ! i)"
  using assms by (auto simp: check_all_true_block_def set_interleave check_all_true_thread_def split: if_split_asm)

lemma check_all_true_cells:
  "list_all (\<lambda>w. \<exists>x. w = (0, [x])) (interleave sched (map (check_all_true_block d_array n order) [0..<m]))"
  using check_all_true_stores unfolding list_all_iff set_interleave by fastforce

lemma check_all_true_last:
  assumes "0 < m"
  shows "\<exists>w \<in> set (interleave sched (map (check_all_true_block d_array n order) [0..<m])).
           launch sched (check_all_true_block d_array n order) m [a] = [hd (snd w)]"
proof -
  let ?ws = "interleave sched (map (check_all_true_block d_array n order) [0..<m])"
  have "(0, [1]) \<in> set (check_all_true_block d_array n order 0)" by (simp add: check_all_true_block_def)
  then have "(0, [1]) \<in> set ?ws" using assms by (force simp: set_interleave)
  then have ne: "?ws \<noteq> []" by auto
  then have "launch sched (check_all_true_block d_array n order) m [a] = [hd (snd (last ?ws))]"
    unfolding launch_def run_cell [OF check_all_true_cells] by (simp add: last_map)
  then show ?thesis using last_in_set [OF ne] by blast
qed

text \<open>When every key is found the flag is 1; so a 0 is never wrong.\<close>

lemma check_all_true_all:
  assumes "0 < n" and "\<forall>i < n. d_array ! i"
  shows "check_all_true_kernel run d_array n = 1"
proof -
  let ?m = "(n + 256 - 1) div 256"
  have "0 < ?m" using assms(1) by (simp add: div_greater_zero_iff)
  then obtain w where w: "w \<in> set (interleave (kr_blocks run) (map (check_all_true_block d_array n (kr_threads run)) [0..<?m]))"
    "launch (kr_blocks run) (check_all_true_block d_array n (kr_threads run)) ?m [kr_stale run] = [hd (snd w)]"
    using check_all_true_last by blast
  from w(1) obtain b where "w \<in> set (check_all_true_block d_array n (kr_threads run) b)" by (auto simp: set_interleave)
  then have "w = (0, [1])" using check_all_true_stores assms(2) by blast
  then show ?thesis using w(2) by (simp add: check_all_true_kernel_def)
qed

lemma interleave_single: "interleave sched [xs] = xs"
  by (induction sched "[xs]" arbitrary: xs rule: interleave.induct) (auto simp: nth_Cons' hd_Cons_tl)

text \<open>A batch of one block: the barrier orders the store of 1 first, and the flag is right.\<close>

lemma check_all_true_one_block:
  assumes "0 < n" "n \<le> 256"
  shows "check_all_true_kernel run d_array n = (if \<forall>i < n. d_array ! i then 1 else 0)"
proof (cases "\<forall>i < n. d_array ! i")
  case False
  then obtain i where i: "i < n" "\<not> d_array ! i" by blast
  let ?zs = "interleave (kr_threads run 0) (map (\<lambda>t. check_all_true_thread d_array n (0 * 256 + t)) [0..<256])"
  have zs: "w = (0, [0])" if "w \<in> set ?zs" for w
    using that by (auto simp: set_interleave check_all_true_thread_def split: if_split_asm)
  have "(0, [0]) \<in> set (check_all_true_thread d_array n i)" using i by (simp add: check_all_true_thread_def)
  then have "(0, [0]) \<in> set ?zs" using i assms(2) by (force simp: set_interleave)
  then have ne: "?zs \<noteq> []" by auto
  have "(n + 256 - 1) div 256 = 1" using assms by (intro div_nat_eqI) auto
  then have "launch (kr_blocks run) (check_all_true_block d_array n (kr_threads run)) ((n + 256 - 1) div 256) [kr_stale run] =
      run_stores ((0, [1]) # ?zs) [kr_stale run]"
    by (simp add: launch_def interleave_single check_all_true_block_def)
  also have "\<dots> = [hd (snd (last ?zs))]"
    using ne zs by (subst run_cell) (auto simp: list_all_iff last_map)
  finally have "check_all_true_kernel run d_array n = hd (snd (last ?zs))" by (simp add: check_all_true_kernel_def)
  then show ?thesis using False zs [OF last_in_set [OF ne]] by simp
qed (use check_all_true_all assms(1) in auto)

text \<open>A schedule that runs all other blocks before block 0.\<close>

lemma interleave_whole:
  "j < length ths \<Longrightarrow> interleave (replicate (length (ths ! j)) j @ sched) ths = ths ! j @ interleave sched (ths[j := []])"
proof (induction "length (ths ! j)" arbitrary: ths)
  case 0
  then show ?case by (metis append_Nil length_0_conv list_update_id replicate_0)
next
  case (Suc m)
  then obtain x xs where x: "ths ! j = x # xs" by (cases "ths ! j") auto
  then show ?case using Suc.hyps(1) [of "ths[j := xs]"] Suc.hyps(2) Suc.prems by simp
qed

lemma interleave_others_first:
  "list_all (\<lambda>t. t = []) over \<Longrightarrow> \<exists>sched. interleave sched (xs # over @ todo) = concat todo @ xs"
proof (induction todo arbitrary: over)
  case Nil
  then have "concat over = []" by (simp add: list_all_iff)
  then show ?case by (intro exI [of _ "[]"]) simp
next
  case (Cons t todo)
  let ?ths = "xs # over @ t # todo" and ?j = "Suc (length over)"
  have "list_all (\<lambda>t. t = []) (over @ [[]])" using Cons.prems by simp
  then obtain sched where "interleave sched (xs # (over @ [[]]) @ todo) = concat todo @ xs" using Cons.IH by blast
  then have "interleave (replicate (length (?ths ! ?j)) ?j @ sched) ?ths = concat (t # todo) @ xs"
    by (subst interleave_whole) (simp_all add: nth_append list_update_append)
  then show ?case by blast
qed

lemma check_all_true_race:
  assumes "256 < n" and "\<forall>i < 256. d_array ! i"
  shows "\<exists>run. check_all_true_kernel run d_array n = 1"
proof -
  let ?m = "(n + 256 - 1) div 256" and ?f = "check_all_true_block d_array n (\<lambda>_. [])"
  have m: "[0..<?m] = 0 # [1..<?m]" using assms(1) by (simp add: upt_conv_Cons div_greater_zero_iff)
  obtain sched where s: "interleave sched (?f 0 # map ?f [1..<?m]) = concat (map ?f [1..<?m]) @ ?f 0"
    using interleave_others_first [of "[]"] by auto
  have empty: "check_all_true_thread d_array n t = []" if "t < 256" for t
    using that assms(2) by (simp add: check_all_true_thread_def)
  have "?f 0 = [(0, [1])]" by (simp add: check_all_true_block_def empty)
  then have "interleave sched (map ?f [0..<?m]) = concat (map ?f [1..<?m]) @ [(0, [1])]" using s m by simp
  then have "launch sched ?f ?m [0] = [1]"
    using run_cell [OF check_all_true_cells, of sched d_array n "\<lambda>_. []" ?m 0] by (simp add: launch_def)
  then show ?thesis
    by (intro exI [of _ "\<lparr>kr_blocks = sched, kr_threads = \<lambda>_. [], kr_stale = 0\<rparr>"]) (simp add: check_all_true_kernel_def)
qed

section \<open>Operations of a ready tree\<close>

text \<open>A tree after initialisation, with a buffer of the pool that is free.\<close>

definition gpu_ready :: "'t GPUTreeHkv \<Rightarrow> bool" where
  "gpu_ready g \<longleftrightarrow> gt_table g \<noteq> None \<and> gt_buffer_table g \<noteq> None \<and> find_buffer (gt_pool g) \<noteq> None"

definition gpu_lookup :: "('t, 'k, 'v) hkv \<Rightarrow> 't GPUTreeHkv \<Rightarrow> 'k \<Rightarrow> 'v option" where
  "gpu_lookup H g = hkv_find H (the (gt_table g))"

definition buffer_lookup :: "('t, 'k, 'v) hkv \<Rightarrow> 't GPUTreeHkv \<Rightarrow> 'k \<Rightarrow> 'v option" where
  "buffer_lookup H g = hkv_find H (the (gt_buffer_table g))"

lemma hkv_okD:
  assumes "hkv_ok H" "insert_and_evict H table kvs = (table', ev)" "distinct (map fst kvs)"
  shows "distinct (map fst ev)" "length ev \<le> length kvs" "\<forall>k v. (k, v) \<in> set ev \<longrightarrow> hkv_find H table' k = None"
    "map_of ev ++ hkv_find H table' = hkv_find H table ++ map_of kvs"
  using assms(1) [unfolded hkv_ok_def, rule_format, OF assms(3), of table] assms(2) by simp_all

lemma find_buffer_Some: "find_buffer bs = Some i \<Longrightarrow> i < length bs \<and> \<not> in_use (bs ! i) \<and> buffer_usable (bs ! i)"
  by (induction bs arbitrary: i) (auto split: if_split_asm)

text \<open>Every batch lookup gives its buffer back.\<close>

lemma release_get_device_buffer:
  assumes "get_device_buffer g = (Some i, g')"
  shows "release_device_buffer (Some i) g' = g" "gt_table g' = gt_table g" "gt_config g' = gt_config g"
proof -
  obtain i' where i: "find_buffer (gt_pool g) = Some i'" using assms by (auto simp: get_device_buffer_def split: option.split_asm)
  then have g': "g' = g\<lparr>gt_pool := (gt_pool g)[i := (gt_pool g ! i)\<lparr>in_use := True\<rparr>]\<rparr>" "i' = i"
    using assms by (auto simp: get_device_buffer_def)
  then have len: "i < length (gt_pool g)" and "\<not> in_use (gt_pool g ! i)" using find_buffer_Some i by blast+
  then have "(gt_pool g ! i)\<lparr>in_use := False\<rparr> = gt_pool g ! i" by (cases "gt_pool g ! i") simp
  then show "release_device_buffer (Some i) g' = g" "gt_table g' = gt_table g" "gt_config g' = gt_config g"
    using len g' by (simp_all add: release_device_buffer_def)
qed

lemma gpu_ready_buffer:
  assumes "gpu_ready g"
  shows "\<exists>i g'. get_device_buffer g = (Some i, g')"
  using assms by (auto simp: gpu_ready_def get_device_buffer_def split: option.split)

lemma multiget_gpu_only_ok:
  fixes H :: "('t, 'k, 'v) hkv"
  assumes "gpu_ready g" and cuda: "\<forall>c. cuda c" and "n \<le> length keys" "n \<le> length vals"
  defines "r \<equiv> find_batch H (the (gt_table g)) (take n keys) vals"
  shows "multiget_gpu_only H cuda run keys vals n g =
     Returns (if check_all_true_kernel run (snd r) n = 1 then GPU_ALL_FOUND else SUCCESS, fst r, snd r, g)"
proof -
  obtain i g' where i: "get_device_buffer g = (Some i, g')" using gpu_ready_buffer [OF assms(1)] by blast
  obtain table where "gt_table g = Some table" using assms(1) by (auto simp: gpu_ready_def)
  then show ?thesis
    using i release_get_device_buffer [OF i] cuda assms(3,4)
    by (auto simp: multiget_gpu_only_def r_def MLKV_CUDA_CHECK_def split: prod.split)
qed

lemma gpu_multiset_ok:
  assumes H: "hkv_ok H" and "gpu_ready g" and cuda: "\<forall>c. cuda c" and n: "0 < n" "n \<le> length keys" "n \<le> length vals"
    and d: "distinct (take n keys)"
  shows "\<exists>ev g'. gpu_multiset H cuda keys vals n g = Returns (if ev = [] then SUCCESS else GPU_EVICTED, ev, g') \<and>
     gpu_ready g' \<and> distinct (map fst ev) \<and> length ev \<le> n \<and>
     map_of ev ++ gpu_lookup H g' = gpu_lookup H g ++ map_of (zip (take n keys) (take n vals)) \<and>
     gt_buffer_table g' = gt_buffer_table g \<and> gt_config g' = gt_config g \<and>
     (\<forall>k v. (k, v) \<in> set ev \<longrightarrow> gpu_lookup H g' k = None)"
proof -
  let ?kvs = "zip (take n keys) (take n vals)"
  obtain table where t: "gt_table g = Some table" using assms(2) by (auto simp: gpu_ready_def)
  obtain table' ev where e: "insert_and_evict H table ?kvs = (table', ev)" by (cases "insert_and_evict H table ?kvs")
  have "distinct (map fst ?kvs)" "length ?kvs = n" using d n by simp_all
  then have ev: "distinct (map fst ev)" "length ev \<le> n" "\<forall>k v. (k, v) \<in> set ev \<longrightarrow> hkv_find H table' k = None"
    "map_of ev ++ hkv_find H table' = hkv_find H table ++ map_of ?kvs"
    using hkv_okD [OF H e] by simp_all
  have "gpu_multiset H cuda keys vals n g =
      Returns (if ev = [] then SUCCESS else GPU_EVICTED, ev,
        if ev = [] then g\<lparr>gt_table := Some table', gt_leaked := gt_leaked g + 2\<rparr> else g\<lparr>gt_table := Some table'\<rparr>)"
    using t e n cuda ev(2) by (auto simp: gpu_multiset_def)
  then show ?thesis using ev t assms(2) by (auto simp: gpu_ready_def gpu_lookup_def)
qed

lemma multiset_buffer_ok:
  assumes "gpu_ready g" and cuda: "\<forall>c. cuda c" and n: "n \<le> length keys" "n \<le> length vals"
  shows "multiset_buffer H cuda keys vals n g =
     Returns (SUCCESS, g\<lparr>gt_buffer_table := Some (insert_or_assign H (the (gt_buffer_table g)) (zip (take n keys) (take n vals)))\<rparr>)"
  using assms by (auto simp: multiset_buffer_def MLKV_CUDA_CHECK_def gpu_ready_def)

lemma multiget_buffer_ok:
  assumes "gpu_ready g" and cuda: "\<forall>c. cuda c" and "n \<le> length keys" "n \<le> length vals"
  shows "multiget_buffer H cuda keys vals n g =
     (let r = find_batch H (the (gt_buffer_table g)) (take n keys) vals in Returns (SUCCESS, fst r, snd r))"
  using assms by (auto simp: multiget_buffer_def gpu_ready_def MLKV_CUDA_CHECK_def Let_def split: prod.split)

lemma find_batch_nth:
  assumes "i < length keys" "length keys \<le> length vals"
  shows "snd (find_batch H t keys vals) ! i = (hkv_find H t (keys ! i) \<noteq> None)"
    "hkv_find H t (keys ! i) = Some v \<Longrightarrow> fst (find_batch H t keys vals) ! i = v"
    "length (snd (find_batch H t keys vals)) = length keys" "length (fst (find_batch H t keys vals)) = length vals"
  using assms by (simp_all add: find_batch_def nth_append)

lemma gpu_get_ok:
  assumes "gpu_ready g" and "\<forall>c. cuda c"
  shows "gpu_get H cuda k old g =
     (case gpu_lookup H g k of Some v \<Rightarrow> (SUCCESS, v) | None \<Rightarrow> (KEY_NOT_FOUND, old))"
  using assms by (auto simp: gpu_get_def gpu_ready_def gpu_lookup_def split: option.split)

lemma gpu_put_ok:
  assumes H: "hkv_ok H" and "gpu_ready g" and cuda: "\<forall>c. cuda c"
  shows "\<exists>ev g'. gpu_put H cuda k v g = Returns (if ev = [] then SUCCESS else GPU_EVICTED, ev, g') \<and>
     gpu_ready g' \<and> length ev \<le> 1 \<and> map_of ev ++ gpu_lookup H g' = (gpu_lookup H g)(k \<mapsto> v) \<and>
     gt_buffer_table g' = gt_buffer_table g \<and> gt_config g' = gt_config g \<and>
     gt_leaked g' = gt_leaked g + (if ev = [] then 2 else 0) \<and>
     (\<forall>k' v'. (k', v') \<in> set ev \<longrightarrow> gpu_lookup H g' k' = None)"
proof -
  obtain table where t: "gt_table g = Some table" using assms(2) by (auto simp: gpu_ready_def)
  obtain table' ev where e: "insert_and_evict H table [(k, v)] = (table', ev)" by (cases "insert_and_evict H table [(k, v)]")
  have ev: "length ev \<le> 1" "map_of ev ++ hkv_find H table' = hkv_find H table ++ map_of [(k, v)]"
    "\<forall>k' v'. (k', v') \<in> set ev \<longrightarrow> hkv_find H table' k' = None"
    using hkv_okD [OF H e] by simp_all
  have "gpu_put H cuda k v g =
      Returns (if ev = [] then SUCCESS else GPU_EVICTED, ev,
        if ev = [] then g\<lparr>gt_table := Some table', gt_leaked := gt_leaked g + 2\<rparr> else g\<lparr>gt_table := Some table'\<rparr>)"
    using t e cuda ev(1) by (auto simp: gpu_put_def MLKV_CUDA_CHECK_def)
  then show ?thesis using ev t assms(2) by (auto simp: gpu_ready_def gpu_lookup_def)
qed

end
