(* ===== verification/GPU_Block_Cache.thy ===== *)
theory GPU_Block_Cache
  imports MLKV_Config
begin

text \<open>
  The GPU-side block cache of the GPUDirect reader: class \<open>GPUBlockCache\<close> of
  \<^verbatim>\<open>gds/gds_file_system.cuh\<close>. A pool of 512 slots of 256 KB in device memory holds file blocks; a
  map from block numbers to slots is kept with an access counter, and the block with the smallest counter
  is evicted when the cache is full. The two unordered maps are association lists whose order is the
  iteration order. A device pointer into the pool is an offset. All operations hold the mutex and are
  atomic. The subtractions of \<open>TryGetMultiBlock\<close> are 64-bit and wrap.

  The contract \<open>block_cache\<close> is what the reader relies on: what is cached under a block number is
  what was put there. It is interpreted on \<open>TryGet\<close> and \<open>Put\<close>; that a cache filled from a file always
  agrees with the file is proved from it.
\<close>

section \<open>State\<close>

definition BLOCK_SIZE :: nat where "BLOCK_SIZE = 256 * 1024"
definition MAX_CACHED_BLOCKS :: nat where "MAX_CACHED_BLOCKS = 512"

record CacheBlock =
  cb_block_id :: nat
  cb_d_data :: nat
  cb_size :: nat
  cb_access_count :: nat

record GPUBlockCache =
  d_cache_pool :: "bytes option"
  cache_map :: "(nat \<times> CacheBlock) list"
  slot_map :: "(nat \<times> nat) list"
  free_slots :: "nat list"
  access_counter :: nat
  cache_hits :: nat
  cache_misses :: nat

definition new_GPUBlockCache :: "bytes option \<Rightarrow> GPUBlockCache" where
  "new_GPUBlockCache pool =
     \<lparr>d_cache_pool = pool, cache_map = [], slot_map = [], free_slots = [], access_counter = 0,
      cache_hits = 0, cache_misses = 0\<rparr>"

section \<open>Operations\<close>

definition touch :: "nat \<Rightarrow> nat \<Rightarrow> (nat \<times> CacheBlock) list \<Rightarrow> (nat \<times> CacheBlock) list" where
  "touch bid k m = map (\<lambda>(i, b). (i, if i = bid then b\<lparr>cb_access_count := k\<rparr> else b)) m"

definition TryGet :: "nat \<Rightarrow> nat \<Rightarrow> GPUBlockCache \<Rightarrow> (nat \<times> nat) option \<times> GPUBlockCache" where
  "TryGet file_offset request_size c =
     (let block_id = file_offset div BLOCK_SIZE;
          offset_in_block = file_offset mod BLOCK_SIZE
      in case map_of (cache_map c) block_id of
           None \<Rightarrow> (None, c\<lparr>cache_misses := cache_misses c + 1\<rparr>)
         | Some b \<Rightarrow>
             if offset_in_block + request_size > cb_size b
             then (None, c\<lparr>cache_misses := cache_misses c + 1\<rparr>)
             else
               (Some (cb_d_data b + offset_in_block, min request_size (cb_size b - offset_in_block)),
                c\<lparr>access_counter := access_counter c + 1,
                  cache_map := touch block_id (access_counter c + 1) (cache_map c),
                  cache_hits := cache_hits c + 1\<rparr>))"

definition sub64 :: "nat \<Rightarrow> nat \<Rightarrow> nat" where
  "sub64 a b = unat (word_of_nat a - word_of_nat b :: u64)"

text \<open>
  The copy loop of \<open>TryGetMultiBlock\<close>: the blocks that are left, what has been copied, the current file
  offset, and the output buffer. A copy that leaves the pool or the output buffer is undefined.
\<close>

fun multi_block_copy ::
  "nat \<Rightarrow> bytes \<Rightarrow> nat list \<Rightarrow> nat \<Rightarrow> nat \<Rightarrow> bytes \<Rightarrow> GPUBlockCache \<Rightarrow> (bytes \<times> GPUBlockCache) outcome" where
  "multi_block_copy request_size pool [] copied current_offset out c = Returns (out, c)"
| "multi_block_copy request_size pool (bid # bids) copied current_offset out c =
     (case map_of (cache_map c) bid of
        None \<Rightarrow> Undefined ''block not cached''
      | Some b \<Rightarrow>
          let c = c\<lparr>access_counter := access_counter c + 1,
                    cache_map := touch bid (access_counter c + 1) (cache_map c)\<rparr>;
              block_start = bid * BLOCK_SIZE;
              offset_in_block = sub64 current_offset block_start;
              bytes_in_this_block = min (sub64 request_size copied) (sub64 (cb_size b) offset_in_block)
          in if cb_d_data b + offset_in_block + bytes_in_this_block > length pool \<or>
                copied + bytes_in_this_block > length out
             then Undefined ''copy beyond the cache pool or the output buffer''
             else multi_block_copy request_size pool bids (copied + bytes_in_this_block)
                    (current_offset + bytes_in_this_block)
                    (write_at out copied (read_at pool (cb_d_data b + offset_in_block) bytes_in_this_block)) c)"

definition TryGetMultiBlock ::
  "nat \<Rightarrow> nat \<Rightarrow> bytes \<Rightarrow> GPUBlockCache \<Rightarrow> (bool \<times> bytes \<times> GPUBlockCache) outcome" where
  "TryGetMultiBlock file_offset request_size out c =
     (if request_size = 0 then Returns (True, out, c)
      else
        let start_block = file_offset div BLOCK_SIZE;
            end_block = (file_offset + request_size - 1) div BLOCK_SIZE;
            required_blocks = [start_block..<end_block + 1]
        in if \<not> list_all (\<lambda>bid. map_of (cache_map c) bid \<noteq> None) required_blocks
           then Returns (False, out, c\<lparr>cache_misses := cache_misses c + 1\<rparr>)
           else
             bind_outcome
               (multi_block_copy request_size (case d_cache_pool c of Some pool \<Rightarrow> pool | None \<Rightarrow> [])
                  required_blocks 0 file_offset out (c\<lparr>cache_hits := cache_hits c + 1\<rparr>))
               (\<lambda>(out, c). Returns (True, out, c)))"

fun lru_scan :: "nat \<Rightarrow> nat \<Rightarrow> (nat \<times> CacheBlock) list \<Rightarrow> nat" where
  "lru_scan min_access lru [] = lru"
| "lru_scan min_access lru ((i, b) # m) =
     (if cb_access_count b < min_access then lru_scan (cb_access_count b) i m
      else lru_scan min_access lru m)"

text \<open>\<open>EvictLRU\<close> is called on a full cache only; on an empty one there is nothing to evict.\<close>

definition EvictLRU :: "GPUBlockCache \<Rightarrow> GPUBlockCache" where
  "EvictLRU c =
     (case cache_map c of
        [] \<Rightarrow> c
      | (i, b) # m \<Rightarrow>
          let evicted_block_id = lru_scan (cb_access_count b) i (cache_map c);
              slot_idx = (case map_of (slot_map c) evicted_block_id of Some s \<Rightarrow> s | None \<Rightarrow> 0)
          in c\<lparr>free_slots := free_slots c @ [slot_idx],
               slot_map := filter (\<lambda>(k, _). k \<noteq> evicted_block_id) (slot_map c),
               cache_map := filter (\<lambda>(k, _). k \<noteq> evicted_block_id) (cache_map c)\<rparr>)"

definition Put :: "nat \<Rightarrow> bytes \<Rightarrow> GPUBlockCache \<Rightarrow> GPUBlockCache" where
  "Put file_offset d_source c =
     (case d_cache_pool c of
        None \<Rightarrow> c
      | Some pool \<Rightarrow>
          let block_id = file_offset div BLOCK_SIZE
          in if map_of (cache_map c) block_id \<noteq> None then c
             else
               let c = (if length (cache_map c) \<ge> MAX_CACHED_BLOCKS then EvictLRU c else c);
                   slot_idx = (if free_slots c = [] then length (cache_map c) else last (free_slots c));
                   c = (if free_slots c = [] then c else c\<lparr>free_slots := butlast (free_slots c)\<rparr>)
               in if slot_idx \<ge> MAX_CACHED_BLOCKS then c
                  else
                    let d_block = slot_idx * BLOCK_SIZE;
                        copy_size = min (length d_source) BLOCK_SIZE
                    in c\<lparr>d_cache_pool := Some (write_at pool d_block (take copy_size d_source)),
                         access_counter := access_counter c + 1,
                         cache_map := (block_id, \<lparr>cb_block_id = block_id, cb_d_data = d_block,
                                                  cb_size = copy_size,
                                                  cb_access_count = access_counter c + 1\<rparr>) # cache_map c,
                         slot_map := (block_id, slot_idx) # slot_map c\<rparr>)"

definition GetStats :: "GPUBlockCache \<Rightarrow> nat \<times> nat \<times> nat" where
  "GetStats c = (cache_hits c, cache_misses c, length (cache_map c))"

definition cache_Clear :: "GPUBlockCache \<Rightarrow> GPUBlockCache" where
  "cache_Clear c =
     c\<lparr>cache_map := [], slot_map := [], free_slots := [], access_counter := 0, cache_hits := 0,
       cache_misses := 0\<rparr>"

section \<open>Invariant\<close>

text \<open>
  Between operations every cached block has a slot of its own, the slots in use are the first ones of the
  pool, no slot is on the free list, and the access counts are distinct and not above the counter.
\<close>

definition slot_of :: "CacheBlock \<Rightarrow> nat" where
  "slot_of b = cb_d_data b div BLOCK_SIZE"

definition slots :: "GPUBlockCache \<Rightarrow> nat list" where
  "slots c = map (\<lambda>(i, b). slot_of b) (cache_map c)"

definition block_ok :: "nat \<Rightarrow> nat \<times> CacheBlock \<Rightarrow> bool" where
  "block_ok k e \<longleftrightarrow>
     (case e of (i, b) \<Rightarrow> cb_block_id b = i \<and> cb_d_data b = slot_of b * BLOCK_SIZE \<and> cb_size b \<le> BLOCK_SIZE \<and>
        cb_access_count b \<le> k)"

definition cache_wf :: "GPUBlockCache \<Rightarrow> bool" where
  "cache_wf c \<longleftrightarrow>
     distinct (map fst (cache_map c)) \<and> list_all (block_ok (access_counter c)) (cache_map c) \<and>
     distinct (map (\<lambda>(i, b). cb_access_count b) (cache_map c)) \<and>
     slot_map c = map (\<lambda>(i, b). (i, slot_of b)) (cache_map c) \<and>
     distinct (slots c @ free_slots c) \<and>
     set (slots c @ free_slots c) = {0..<length (cache_map c) + length (free_slots c)} \<and>
     length (cache_map c) + length (free_slots c) \<le> MAX_CACHED_BLOCKS \<and>
     (case d_cache_pool c of None \<Rightarrow> cache_map c = [] | Some pool \<Rightarrow> length pool = MAX_CACHED_BLOCKS * BLOCK_SIZE)"

definition cache_inv :: "GPUBlockCache \<Rightarrow> bool" where
  "cache_inv c \<longleftrightarrow> cache_wf c \<and> free_slots c = []"

definition cache_abs :: "GPUBlockCache \<Rightarrow> nat \<Rightarrow> bytes option" where
  "cache_abs c bid =
     (case d_cache_pool c of None \<Rightarrow> None
      | Some pool \<Rightarrow> map_option (\<lambda>b. read_at pool (cb_d_data b) (cb_size b)) (map_of (cache_map c) bid))"

lemma new_cache_inv:
  "pool = None \<or> (\<exists>p. pool = Some p \<and> length p = MAX_CACHED_BLOCKS * BLOCK_SIZE) \<Longrightarrow>
     cache_inv (new_GPUBlockCache pool)"
  by (auto simp: cache_inv_def cache_wf_def new_GPUBlockCache_def slots_def)

lemma map_of_touch:
  "map_of (touch bid k m) i = map_option (\<lambda>b. if i = bid then b\<lparr>cb_access_count := k\<rparr> else b) (map_of m i)"
  by (induction m) (auto simp: touch_def)

lemma touch_simps [simp]:
  "map fst (touch bid k m) = map fst m" "length (touch bid k m) = length m" "touch bid k m = [] \<longleftrightarrow> m = []"
  "map (\<lambda>(i, b). (i, slot_of b)) (touch bid k m) = map (\<lambda>(i, b). (i, slot_of b)) m"
  "map (\<lambda>(i, b). slot_of b) (touch bid k m) = map (\<lambda>(i, b). slot_of b) m"
  by (auto simp: touch_def slot_of_def comp_def split_beta)

lemma touch_wf:
  assumes "cache_wf c"
  shows "cache_wf (c\<lparr>access_counter := access_counter c + 1,
                     cache_map := touch bid (access_counter c + 1) (cache_map c)\<rparr>)"
proof -
  let ?k = "access_counter c + 1"
  have ok: "list_all (block_ok (access_counter c)) (cache_map c)" and d: "distinct (map (\<lambda>(i, b). cb_access_count b) (cache_map c))"
    and dk: "distinct (map fst (cache_map c))"
    using assms by (simp_all add: cache_wf_def)
  have "distinct (map (\<lambda>(i, b). cb_access_count b) (touch bid ?k m))"
    if "list_all (block_ok (access_counter c)) m" "distinct (map (\<lambda>(i, b). cb_access_count b) m)" "distinct (map fst m)" for m
    using that
  proof (induction m)
    case (Cons e m)
    obtain i b where e: "e = (i, b)" by (cases e)
    have bound: "\<forall>(j, b') \<in> set m. cb_access_count b' < ?k"
      using Cons.prems(1) by (auto simp: list_all_iff block_ok_def)
    have same: "touch bid ?k m = m" if "i = bid"
      using Cons.prems(3) that e by (force simp: touch_def intro!: map_idI)
    show ?case
    proof (cases "i = bid")
      case True
      then have "touch bid ?k (e # m) = (i, b\<lparr>cb_access_count := ?k\<rparr>) # m"
        using same [OF True] e by (simp add: touch_def)
      then show ?thesis using Cons.prems bound by auto
    next
      case False
      have sub: "set (map (\<lambda>(i, b). cb_access_count b) (touch bid ?k m)) \<subseteq>
            insert ?k (set (map (\<lambda>(i, b). cb_access_count b) m))"
        by (auto simp: touch_def split: if_splits)
      have "cb_access_count b < ?k" using Cons.prems(1) e by (simp add: block_ok_def)
      then have "cb_access_count b \<notin> insert ?k (set (map (\<lambda>(i, b). cb_access_count b) m))"
        using Cons.prems(2) e by simp
      then have "cb_access_count b \<notin> set (map (\<lambda>(i, b). cb_access_count b) (touch bid ?k m))"
        using sub by (rule contra_subsetD [rotated])
      moreover have "touch bid ?k (e # m) = e # touch bid ?k m" using False e by (simp add: touch_def)
      moreover have "distinct (map (\<lambda>(i, b). cb_access_count b) (touch bid ?k m))"
        using Cons by simp
      ultimately show ?thesis by (simp only: e list.map distinct.simps prod.case) simp
    qed
  qed (simp add: touch_def)
  moreover have "list_all (block_ok ?k)
      (touch bid ?k (cache_map c))"
    using ok by (auto simp: list_all_iff block_ok_def touch_def slot_of_def)
  ultimately show ?thesis
    using assms ok d dk by (simp add: cache_wf_def slots_def split: option.splits)
qed

lemma touch_abs:
  "cache_abs (c\<lparr>access_counter := n, cache_map := touch bid k (cache_map c)\<rparr>) = cache_abs c"
proof (rule ext)
  fix i
  show "cache_abs (c\<lparr>access_counter := n, cache_map := touch bid k (cache_map c)\<rparr>) i = cache_abs c i"
    by (cases "map_of (cache_map c) i") (auto simp: cache_abs_def map_of_touch split: option.splits)
qed

section \<open>Eviction\<close>

lemma lru_scan_cases:
  "(lru_scan k l m = l \<and> (\<forall>e \<in> set m. k \<le> cb_access_count (snd e))) \<or>
   (\<exists>v. (lru_scan k l m, v) \<in> set m \<and> cb_access_count v < k \<and>
      (\<forall>e \<in> set m. cb_access_count v \<le> cb_access_count (snd e)))"
proof (induction k l m rule: lru_scan.induct)
  case (2 k l i b m)
  show ?case
  proof (cases "cb_access_count b < k")
    case True
    then have eq: "lru_scan k l ((i, b) # m) = lru_scan (cb_access_count b) i m" by simp
    consider (min) "lru_scan (cb_access_count b) i m = i" "\<forall>e \<in> set m. cb_access_count b \<le> cb_access_count (snd e)"
      | (later) v where "(lru_scan (cb_access_count b) i m, v) \<in> set m" "cb_access_count v < cb_access_count b"
          "\<forall>e \<in> set m. cb_access_count v \<le> cb_access_count (snd e)"
      using "2.IH"(1) [OF True] by blast
    then show ?thesis
    proof cases
      case min
      then show ?thesis unfolding eq using True by (intro disjI2 exI [of _ b]) simp
    next
      case later
      then show ?thesis unfolding eq using True by (intro disjI2 exI [of _ v]) auto
    qed
  next
    case False
    then have eq: "lru_scan k l ((i, b) # m) = lru_scan k l m" by simp
    show ?thesis unfolding eq using "2.IH"(2) [OF False] False by auto
  qed
qed simp

lemma filter_key_absent: "v \<notin> fst ` set zs \<Longrightarrow> filter (\<lambda>(k, _). k \<noteq> v) zs = zs"
  by (induction zs) auto

lemma fst_image_key_map: "fst ` set (map (\<lambda>(i, b). (i, f b)) zs) = fst ` set zs"
  by (induction zs) auto

text \<open>The block evicted, and the rest of the cache around it.\<close>

lemma EvictLRU_split:
  assumes "cache_wf c" and "cache_map c \<noteq> []"
  obtains xs v vb ys where "cache_map c = xs @ (v, vb) # ys"
    and "EvictLRU c = c\<lparr>free_slots := free_slots c @ [slot_of vb],
                       slot_map := map (\<lambda>(i, b). (i, slot_of b)) (xs @ ys), cache_map := xs @ ys\<rparr>"
    and "\<And>j b. (j, b) \<in> set (xs @ ys) \<Longrightarrow> cb_access_count vb < cb_access_count b"
proof -
  obtain i b m where m: "cache_map c = (i, b) # m" using assms(2) by (metis list.exhaust surj_pair)
  define v where "v = lru_scan (cb_access_count b) i (cache_map c)"
  obtain vb where vb: "(v, vb) \<in> set (cache_map c)"
    "\<forall>e \<in> set (cache_map c). cb_access_count vb \<le> cb_access_count (snd e)"
    using lru_scan_cases [of "cb_access_count b" i "cache_map c"] unfolding v_def [symmetric]
  proof (elim disjE exE conjE)
    assume "v = i" "\<forall>e \<in> set (cache_map c). cb_access_count b \<le> cb_access_count (snd e)"
    then show thesis using that [of b] m by simp
  qed (use that in blast)
  obtain xs ys where xy: "cache_map c = xs @ (v, vb) # ys" using vb(1) by (meson split_list)
  have wf: "distinct (map fst (cache_map c))" "slot_map c = map (\<lambda>(i, b). (i, slot_of b)) (cache_map c)"
    "distinct (map (\<lambda>(i, b). cb_access_count b) (cache_map c))"
    using assms(1) by (simp_all add: cache_wf_def)
  have others: "v \<notin> fst ` set xs" "v \<notin> fst ` set ys" using wf(1) unfolding xy by simp_all
  then have others': "v \<notin> fst ` set (map (\<lambda>(i, b). (i, slot_of b)) xs)"
    "v \<notin> fst ` set (map (\<lambda>(i, b). (i, slot_of b)) ys)"
    by (simp_all only: fst_image_key_map not_False_eq_True)
  have cm: "filter (\<lambda>(k, _). k \<noteq> v) (cache_map c) = xs @ ys"
    unfolding xy by (simp add: filter_key_absent others)
  have sm: "filter (\<lambda>(k, _). k \<noteq> v) (slot_map c) = map (\<lambda>(i, b). (i, slot_of b)) (xs @ ys)"
    unfolding wf(2) xy by (simp add: filter_key_absent others' del: set_map)
  have slot: "map_of (slot_map c) v = Some (slot_of vb)"
  proof -
    have "map_of (map (\<lambda>(i, b). (i, slot_of b)) xs) v = None" using others'(1) map_of_eq_None_iff by metis
    then show ?thesis unfolding wf(2) xy by (simp add: map_add_def)
  qed
  have "EvictLRU c = c\<lparr>free_slots := free_slots c @ [slot_of vb],
      slot_map := map (\<lambda>(i, b). (i, slot_of b)) (xs @ ys), cache_map := xs @ ys\<rparr>"
  proof -
    have "EvictLRU c = c\<lparr>free_slots := free_slots c @ [case map_of (slot_map c) v of Some s \<Rightarrow> s | None \<Rightarrow> 0],
        slot_map := filter (\<lambda>(k, _). k \<noteq> v) (slot_map c), cache_map := filter (\<lambda>(k, _). k \<noteq> v) (cache_map c)\<rparr>"
      unfolding EvictLRU_def Let_def v_def by (simp add: m)
    then show ?thesis by (simp only: cm sm slot option.case)
  qed
  moreover have "cb_access_count vb < cb_access_count b" if "(j, b) \<in> set (xs @ ys)" for j b
  proof -
    have "cb_access_count vb \<le> cb_access_count b" using bspec [OF vb(2), of "(j, b)"] xy that by auto
    moreover have "cb_access_count vb \<notin> (\<lambda>(i, b). cb_access_count b) ` set (xs @ ys)"
      using wf(3) unfolding xy by auto
    then have "cb_access_count vb \<noteq> cb_access_count b" using that by force
    ultimately show ?thesis by simp
  qed
  ultimately show ?thesis using that xy by blast
qed

lemma EvictLRU_wf:
  assumes "cache_wf c" and "cache_map c \<noteq> []"
  shows "cache_wf (EvictLRU c) \<and> length (cache_map (EvictLRU c)) + 1 = length (cache_map c) \<and>
         free_slots (EvictLRU c) \<noteq> []"
proof -
  obtain xs v vb ys where s: "cache_map c = xs @ (v, vb) # ys"
    "EvictLRU c = c\<lparr>free_slots := free_slots c @ [slot_of vb],
       slot_map := map (\<lambda>(i, b). (i, slot_of b)) (xs @ ys), cache_map := xs @ ys\<rparr>"
    using EvictLRU_split [OF assms] by metis
  have "distinct (slots c @ free_slots c)"
    "set (slots c @ free_slots c) = {0..<length (cache_map c) + length (free_slots c)}"
    using assms(1) by (simp_all add: cache_wf_def)
  then have "distinct (slots (EvictLRU c) @ free_slots (EvictLRU c))"
    "set (slots (EvictLRU c) @ free_slots (EvictLRU c)) =
       {0..<length (cache_map (EvictLRU c)) + length (free_slots (EvictLRU c))}"
    using s by (auto simp: slots_def)
  moreover have "list_all (block_ok (access_counter (EvictLRU c))) (cache_map (EvictLRU c))"
    using assms(1) s by (simp add: cache_wf_def block_ok_def)
  ultimately show ?thesis
    using assms(1) s by (auto simp: cache_wf_def split: option.splits)
qed

lemma EvictLRU_abs:
  assumes "cache_wf c" and "cache_abs (EvictLRU c) k = Some blk"
  shows "cache_abs c k = Some blk"
proof (cases "cache_map c = []")
  case True
  then show ?thesis using assms(2) by (simp add: EvictLRU_def)
next
  case False
  obtain xs v vb ys where s: "cache_map c = xs @ (v, vb) # ys"
    "EvictLRU c = c\<lparr>free_slots := free_slots c @ [slot_of vb],
       slot_map := map (\<lambda>(i, b). (i, slot_of b)) (xs @ ys), cache_map := xs @ ys\<rparr>"
    using EvictLRU_split [OF assms(1) False] by metis
  have "v \<notin> fst ` set (xs @ ys)" using assms(1) s(1) by (auto simp: cache_wf_def)
  then have "map_of (xs @ ys) v = None" using map_of_eq_None_iff by metis
  then have "map_of (xs @ (v, vb) # ys) k = map_of (xs @ ys) k" if "map_of (xs @ ys) k = Some b" for b
    using that by (cases "k = v") (simp_all add: map_add_def split: option.splits)
  then show ?thesis
    using assms(2) s by (auto simp: cache_abs_def simp del: map_of_append split: option.splits)
qed

section \<open>Insertion\<close>

text \<open>The cache with a new block in a slot no other block has.\<close>

definition add_block :: "nat \<Rightarrow> nat \<Rightarrow> bytes \<Rightarrow> bytes \<Rightarrow> GPUBlockCache \<Rightarrow> GPUBlockCache" where
  "add_block bid slot pool d c =
     c\<lparr>d_cache_pool := Some (write_at pool (slot * BLOCK_SIZE) d), access_counter := access_counter c + 1,
       cache_map := (bid, \<lparr>cb_block_id = bid, cb_d_data = slot * BLOCK_SIZE, cb_size = length d,
                           cb_access_count = access_counter c + 1\<rparr>) # cache_map c,
       slot_map := (bid, slot) # slot_map c\<rparr>"

lemma block_size_pos [simp]: "0 < BLOCK_SIZE" "BLOCK_SIZE \<noteq> 0" by (simp_all add: BLOCK_SIZE_def)

lemma slot_range: "slot < MAX_CACHED_BLOCKS \<Longrightarrow> slot * BLOCK_SIZE + BLOCK_SIZE \<le> MAX_CACHED_BLOCKS * BLOCK_SIZE"
  by (metis Suc_leI add.commute mult_Suc mult_le_mono1)

lemma slots_apart:
  assumes "s < (t :: nat)" shows "s * BLOCK_SIZE + BLOCK_SIZE \<le> t * BLOCK_SIZE"
  using assms by (metis Suc_leI add.commute mult_Suc mult_le_mono1)

lemma add_block_abs:
  assumes wf: "cache_wf c" and pool: "d_cache_pool c = Some pool" and d: "length d \<le> BLOCK_SIZE"
    and slot: "slot < MAX_CACHED_BLOCKS" "slot \<notin> set (slots c)"
  shows "cache_abs (add_block bid slot pool d c) k = (if k = bid then Some d else cache_abs c k)"
proof -
  have len: "length pool = MAX_CACHED_BLOCKS * BLOCK_SIZE" using wf pool by (simp add: cache_wf_def)
  have fit: "slot * BLOCK_SIZE + length d \<le> length pool" using slot_range [OF slot(1)] d len by simp
  have "read_at (write_at pool (slot * BLOCK_SIZE) d) (cb_d_data b) (cb_size b) = read_at pool (cb_d_data b) (cb_size b)"
    if b: "map_of (cache_map c) k = Some b" for b
  proof -
    have e: "(k, b) \<in> set (cache_map c)" using b by (rule map_of_SomeD)
    then have ok: "cb_d_data b = slot_of b * BLOCK_SIZE" "cb_size b \<le> BLOCK_SIZE"
      using wf by (auto simp: cache_wf_def list_all_iff block_ok_def)
    have "slot_of b \<noteq> slot" using e slot(2) by (force simp: slots_def)
    then consider "slot_of b < slot" | "slot < slot_of b" by linarith
    then have "cb_d_data b + cb_size b \<le> slot * BLOCK_SIZE \<or> slot * BLOCK_SIZE + length d \<le> cb_d_data b"
      using slots_apart [of "slot_of b" slot] slots_apart [of slot "slot_of b"] ok d by cases linarith+
    then show ?thesis using fit by (rule read_at_write_at_disjoint [rotated])
  qed
  moreover have "read_at (write_at pool (slot * BLOCK_SIZE) d) (slot * BLOCK_SIZE) (length d) = d"
    using fit by (simp add: read_at_write_at_same)
  ultimately show ?thesis
    using pool by (cases "map_of (cache_map c) k") (simp_all add: cache_abs_def add_block_def)
qed

lemma add_block_wf:
  assumes wf: "cache_wf c" and pool: "d_cache_pool c = Some pool" and d: "length d \<le> BLOCK_SIZE"
    and new: "bid \<notin> fst ` set (cache_map c)"
    and slot: "slot < MAX_CACHED_BLOCKS" "slot \<notin> set (slots c)"
    and fs: "distinct (slot # slots c @ fs)" "set (slot # slots c @ fs) = {0..<length (cache_map c) + 1 + length fs}"
      "length (cache_map c) + 1 + length fs \<le> MAX_CACHED_BLOCKS"
  shows "cache_wf ((add_block bid slot pool d c)\<lparr>free_slots := fs\<rparr>)"
proof -
  have len: "length pool = MAX_CACHED_BLOCKS * BLOCK_SIZE" using wf pool by (simp add: cache_wf_def)
  have fit: "slot * BLOCK_SIZE + length d \<le> length pool" using slot_range [OF slot(1)] d len by simp
  have ok: "list_all (block_ok (access_counter c + 1)) (cache_map c)"
    using wf by (auto simp: cache_wf_def list_all_iff block_ok_def)
  have "access_counter c + 1 \<notin> (\<lambda>(i, b). cb_access_count b) ` set (cache_map c)"
    using wf by (auto simp: cache_wf_def list_all_iff block_ok_def)
  then show ?thesis
    using wf pool d new fs ok fit len
    by (simp add: cache_wf_def add_block_def slots_def block_ok_def slot_of_def)
qed

text \<open>\<open>Put\<close> of a block that is not cached: evict when full, then add the block in a free slot.\<close>

definition make_room :: "GPUBlockCache \<Rightarrow> GPUBlockCache" where
  "make_room c = (if length (cache_map c) \<ge> MAX_CACHED_BLOCKS then EvictLRU c else c)"

lemma make_room_inv:
  assumes "cache_inv c" and "d_cache_pool c = Some pool"
  shows "cache_wf (make_room c) \<and> d_cache_pool (make_room c) = Some pool \<and>
         (free_slots (make_room c) = [] \<and> length (cache_map (make_room c)) < MAX_CACHED_BLOCKS \<or>
          (\<exists>s. free_slots (make_room c) = [s]))"
proof (cases "length (cache_map c) \<ge> MAX_CACHED_BLOCKS")
  case True
  have wf: "cache_wf c" "free_slots c = []" using assms(1) by (simp_all add: cache_inv_def)
  have ne: "cache_map c \<noteq> []" using True by (auto simp: MAX_CACHED_BLOCKS_def)
  obtain xs v vb ys where s: "cache_map c = xs @ (v, vb) # ys"
    "EvictLRU c = c\<lparr>free_slots := free_slots c @ [slot_of vb],
       slot_map := map (\<lambda>(i, b). (i, slot_of b)) (xs @ ys), cache_map := xs @ ys\<rparr>"
    using EvictLRU_split [OF wf(1) ne] by metis
  have "free_slots (EvictLRU c) = [slot_of vb]" "d_cache_pool (EvictLRU c) = d_cache_pool c"
    using s(2) wf(2) by simp_all
  then show ?thesis using EvictLRU_wf [OF wf(1) ne] True assms(2) by (simp add: make_room_def)
next
  case False
  then show ?thesis using assms by (simp add: make_room_def cache_inv_def)
qed

lemma make_room_abs: "cache_wf c \<Longrightarrow> cache_abs (make_room c) k = Some blk \<Longrightarrow> cache_abs c k = Some blk"
  using EvictLRU_abs by (auto simp: make_room_def split: if_splits)

lemma make_room_keys: "fst ` set (cache_map (make_room c)) \<subseteq> fst ` set (cache_map c)"
  by (auto simp: make_room_def EvictLRU_def Let_def split: list.splits)

lemma cache_abs_free: "cache_abs (c\<lparr>free_slots := fs\<rparr>) = cache_abs c"
  by (rule ext) (simp add: cache_abs_def split: option.splits)

lemma Put_new:
  assumes inv: "cache_inv c" and pool: "d_cache_pool c = Some pool" and new: "map_of (cache_map c) (off div BLOCK_SIZE) = None"
  obtains slot where
    "Put off src c = (add_block (off div BLOCK_SIZE) slot pool (take BLOCK_SIZE src) (make_room c))\<lparr>free_slots := []\<rparr>"
    "cache_inv (Put off src c)"
    "\<And>k. cache_abs (Put off src c) k =
       (if k = off div BLOCK_SIZE then Some (take BLOCK_SIZE src) else cache_abs (make_room c) k)"
proof -
  let ?m = "make_room c" and ?d = "take BLOCK_SIZE src" and ?b = "off div BLOCK_SIZE"
  define slot where "slot = (if free_slots ?m = [] then length (cache_map ?m) else last (free_slots ?m))"
  have m: "cache_wf ?m" "d_cache_pool ?m = Some pool"
    and free: "free_slots ?m = [] \<and> length (cache_map ?m) < MAX_CACHED_BLOCKS \<or> (\<exists>s. free_slots ?m = [s])"
    using make_room_inv [OF inv pool] by auto
  have sl: "distinct (slots ?m @ free_slots ?m)"
    "set (slots ?m @ free_slots ?m) = {0..<length (cache_map ?m) + length (free_slots ?m)}"
    "length (cache_map ?m) + length (free_slots ?m) \<le> MAX_CACHED_BLOCKS"
    using m(1) by (simp_all add: cache_wf_def)
  have ds: "distinct (slot # slots ?m @ [])"
    "set (slot # slots ?m @ []) = {0..<length (cache_map ?m) + 1 + length ([] :: nat list)}"
    "length (cache_map ?m) + 1 + length ([] :: nat list) \<le> MAX_CACHED_BLOCKS"
    using free sl by (auto simp: slot_def)
  then have slot: "slot < MAX_CACHED_BLOCKS" "slot \<notin> set (slots ?m)" by auto
  have keys: "?b \<notin> fst ` set (cache_map ?m)"
    using new make_room_keys [of c] by (auto simp: map_of_eq_None_iff)
  have d: "length ?d \<le> BLOCK_SIZE" by simp
  have fs: "butlast (free_slots ?m) = []" using free by auto
  have "take (min (length src) BLOCK_SIZE) src = ?d" by (simp add: min_def)
  then have put: "Put off src c = (add_block ?b slot pool ?d ?m)\<lparr>free_slots := []\<rparr>"
    using pool new fs slot(1) free
    unfolding Put_def Let_def make_room_def [symmetric] slot_def [symmetric]
    by (auto simp: add_block_def slot_def)
  have "cache_inv (Put off src c)"
    unfolding put cache_inv_def using add_block_wf [OF m d keys slot ds] by simp
  moreover have "cache_abs (Put off src c) k = (if k = ?b then Some ?d else cache_abs ?m k)" for k
    using add_block_abs [OF m d slot, of ?b k] unfolding put cache_abs_free .
  ultimately show ?thesis using that put by blast
qed

lemma Put_known: "map_of (cache_map c) (off div BLOCK_SIZE) \<noteq> None \<or> d_cache_pool c = None \<Longrightarrow> Put off src c = c"
  by (auto simp: Put_def Let_def split: option.splits)

lemma Put_inv:
  assumes "cache_inv c" shows "cache_inv (Put off src c)"
proof (cases "map_of (cache_map c) (off div BLOCK_SIZE) \<noteq> None \<or> d_cache_pool c = None")
  case True
  then show ?thesis using assms by (simp only: Put_known)
next
  case False
  then obtain pool where "d_cache_pool c = Some pool" "map_of (cache_map c) (off div BLOCK_SIZE) = None" by auto
  then show ?thesis using Put_new [OF assms] by metis
qed

lemma Put_abs:
  assumes "cache_inv c" and "cache_abs (Put off src c) k = Some blk"
  shows "cache_abs c k = Some blk \<or> k = off div BLOCK_SIZE \<and> blk = take BLOCK_SIZE src"
proof (cases "map_of (cache_map c) (off div BLOCK_SIZE) \<noteq> None \<or> d_cache_pool c = None")
  case True
  then show ?thesis using assms(2) Put_known by metis
next
  case False
  then obtain pool where p: "d_cache_pool c = Some pool" "map_of (cache_map c) (off div BLOCK_SIZE) = None" by auto
  have "cache_wf c" using assms(1) by (simp add: cache_inv_def)
  then show ?thesis
    using Put_new [OF assms(1) p, of src] assms(2) make_room_abs by (metis option.inject)
qed

section \<open>Lookup\<close>

text \<open>What a reader gets from \<open>TryGet\<close>: the bytes the returned pointer and size denote.\<close>

definition cached_bytes :: "nat \<Rightarrow> nat \<Rightarrow> GPUBlockCache \<Rightarrow> bytes option \<times> GPUBlockCache" where
  "cached_bytes off n c =
     (case TryGet off n c of
        (None, c') \<Rightarrow> (None, c')
      | (Some (p, m), c') \<Rightarrow>
          (map_option (\<lambda>pool. read_at pool p m) (d_cache_pool c'), c'))"

lemma stats_inv:
  "cache_inv (c\<lparr>cache_misses := k\<rparr>) = cache_inv c" "cache_inv (c\<lparr>cache_hits := k\<rparr>) = cache_inv c"
  "cache_abs (c\<lparr>cache_misses := k\<rparr>) = cache_abs c" "cache_abs (c\<lparr>cache_hits := k\<rparr>) = cache_abs c"
  by (simp_all add: cache_inv_def cache_wf_def cache_abs_def slots_def fun_eq_iff cong: option.case_cong)

lemma touch_inv:
  "cache_inv c \<Longrightarrow> cache_inv (c\<lparr>access_counter := access_counter c + 1,
                               cache_map := touch bid (access_counter c + 1) (cache_map c)\<rparr>)"
  using touch_wf by (simp add: cache_inv_def)

text \<open>A hit touches the block and counts; a miss only counts.\<close>

lemma TryGet_cases:
  "TryGet off n c = (None, c\<lparr>cache_misses := cache_misses c + 1\<rparr>) \<or>
   (\<exists>b. map_of (cache_map c) (off div BLOCK_SIZE) = Some b \<and> off mod BLOCK_SIZE + n \<le> cb_size b \<and>
      TryGet off n c =
        (Some (cb_d_data b + off mod BLOCK_SIZE, n),
         (c\<lparr>access_counter := access_counter c + 1,
            cache_map := touch (off div BLOCK_SIZE) (access_counter c + 1) (cache_map c)\<rparr>)
           \<lparr>cache_hits := cache_hits c + 1\<rparr>))"
  by (auto simp: TryGet_def Let_def split: option.splits)

lemma TryGet_inv: "cache_inv c \<Longrightarrow> cache_inv (snd (TryGet off n c)) \<and> cache_abs (snd (TryGet off n c)) = cache_abs c"
  using TryGet_cases [of off n c] by (auto simp: stats_inv touch_inv [simplified] touch_abs)

lemma cached_bytes_inv:
  assumes "cache_inv c" and "cached_bytes off n c = (r, c')"
  shows "cache_inv c' \<and> cache_abs c' = cache_abs c"
proof -
  have "c' = snd (TryGet off n c)" using assms(2) by (auto simp: cached_bytes_def split: prod.splits option.splits)
  then show ?thesis using TryGet_inv [OF assms(1)] by simp
qed

lemma block_in_pool:
  assumes "cache_inv c" and "map_of (cache_map c) k = Some b"
  obtains pool where "d_cache_pool c = Some pool" and "cb_d_data b + cb_size b \<le> length pool"
    and "cache_abs c k = Some (read_at pool (cb_d_data b) (cb_size b))" and "cb_size b \<le> BLOCK_SIZE"
    and "length pool = MAX_CACHED_BLOCKS * BLOCK_SIZE"
proof -
  have e: "(k, b) \<in> set (cache_map c)" using assms(2) by (rule map_of_SomeD)
  have wf: "cache_wf c" "free_slots c = []" using assms(1) by (simp_all add: cache_inv_def)
  obtain pool where pool: "d_cache_pool c = Some pool" using wf(1) e by (cases "d_cache_pool c") (auto simp: cache_wf_def)
  have "slot_of b \<in> set (slots c)" using e by (force simp: slots_def)
  then have "slot_of b < MAX_CACHED_BLOCKS" using wf by (auto simp: cache_wf_def)
  moreover have ok: "cb_d_data b = slot_of b * BLOCK_SIZE" "cb_size b \<le> BLOCK_SIZE"
    using wf(1) e by (auto simp: cache_wf_def list_all_iff block_ok_def)
  moreover have len: "length pool = MAX_CACHED_BLOCKS * BLOCK_SIZE" using wf(1) pool by (simp add: cache_wf_def)
  ultimately have "cb_d_data b + cb_size b \<le> length pool" using slot_range [of "slot_of b"] by linarith
  then show ?thesis using that pool assms(2) ok(2) len by (simp add: cache_abs_def)
qed

lemma cached_bytes_hit:
  assumes inv: "cache_inv c" and hit: "cached_bytes off n c = (Some dat, c')"
  shows "\<exists>blk. cache_abs c (off div BLOCK_SIZE) = Some blk \<and> off mod BLOCK_SIZE + n \<le> length blk \<and>
               dat = read_at blk (off mod BLOCK_SIZE) n"
proof -
  obtain b where b: "map_of (cache_map c) (off div BLOCK_SIZE) = Some b" "off mod BLOCK_SIZE + n \<le> cb_size b"
    "TryGet off n c = (Some (cb_d_data b + off mod BLOCK_SIZE, n), c')"
    using hit TryGet_cases [of off n c] by (auto simp: cached_bytes_def)
  have pool': "d_cache_pool c' = d_cache_pool c" using b TryGet_cases [of off n c] by auto
  obtain pool where pool: "d_cache_pool c = Some pool" "cb_d_data b + cb_size b \<le> length pool"
    "cache_abs c (off div BLOCK_SIZE) = Some (read_at pool (cb_d_data b) (cb_size b))"
    using block_in_pool [OF inv b(1)] by metis
  have "dat = read_at pool (cb_d_data b + off mod BLOCK_SIZE) n"
    using hit b(3) pool' pool(1) by (simp add: cached_bytes_def)
  then show ?thesis using b(2) pool(2,3) by (simp add: read_at_read_at)
qed

section \<open>Contract\<close>

text \<open>
  The blocks of a cache are prefixes of the blocks of a file; full blocks are the whole of them.
\<close>

definition blocks_of_file :: "bytes \<Rightarrow> (nat \<Rightarrow> bytes option) \<Rightarrow> bool" where
  "blocks_of_file file a \<longleftrightarrow>
     (\<forall>k blk. a k = Some blk \<longrightarrow>
        length blk \<le> BLOCK_SIZE \<and> k * BLOCK_SIZE + length blk \<le> length file \<and>
        blk = read_at file (k * BLOCK_SIZE) (length blk))"

text \<open>
  The operations a reader uses, and what a sequence of them returns. \<open>Fill off n\<close> puts the \<open>n\<close>
  bytes of the file at \<open>off\<close>, which a reader has just read.
\<close>

datatype cache_op = Lookup nat nat | Fill nat nat

fun run_ops ::
  "(nat \<Rightarrow> nat \<Rightarrow> 'c \<Rightarrow> bytes option \<times> 'c) \<Rightarrow> (nat \<Rightarrow> bytes \<Rightarrow> 'c \<Rightarrow> 'c) \<Rightarrow> bytes \<Rightarrow> cache_op list \<Rightarrow>
     'c \<Rightarrow> (nat \<times> nat \<times> bytes option) list \<times> 'c" where
  "run_ops get put file [] c = ([], c)"
| "run_ops get put file (Lookup off n # ops) c =
     (case get off n c of (r, c) \<Rightarrow> case run_ops get put file ops c of (rs, c) \<Rightarrow> ((off, n, r) # rs, c))"
| "run_ops get put file (Fill off n # ops) c = run_ops get put file ops (put off (read_at file off n) c)"

fun fill_ok :: "bytes \<Rightarrow> cache_op \<Rightarrow> bool" where
  "fill_ok file (Lookup off n) \<longleftrightarrow> True"
| "fill_ok file (Fill off n) \<longleftrightarrow> off mod BLOCK_SIZE = 0 \<and> off + n \<le> length file"

locale block_cache =
  fixes inv :: "'c \<Rightarrow> bool"
    and abs_of :: "'c \<Rightarrow> nat \<Rightarrow> bytes option"
    and get :: "nat \<Rightarrow> nat \<Rightarrow> 'c \<Rightarrow> bytes option \<times> 'c"
    and put :: "nat \<Rightarrow> bytes \<Rightarrow> 'c \<Rightarrow> 'c"
  assumes get_keeps: "inv c \<Longrightarrow> get off n c = (r, c') \<Longrightarrow> inv c' \<and> abs_of c' = abs_of c"
    and get_hit: "inv c \<Longrightarrow> get off n c = (Some dat, c') \<Longrightarrow>
      \<exists>blk. abs_of c (off div BLOCK_SIZE) = Some blk \<and> off mod BLOCK_SIZE + n \<le> length blk \<and>
            dat = read_at blk (off mod BLOCK_SIZE) n"
    and put_keeps: "inv c \<Longrightarrow> inv (put off src c)"
    and put_abs: "inv c \<Longrightarrow> abs_of (put off src c) k = Some blk \<Longrightarrow>
      abs_of c k = Some blk \<or> k = off div BLOCK_SIZE \<and> blk = take BLOCK_SIZE src"
begin

lemma get_from_file:
  assumes "inv c" and "blocks_of_file file (abs_of c)" and "get off n c = (Some dat, c')"
  shows "dat = read_at file off n \<and> off + n \<le> length file"
proof -
  obtain blk where blk: "abs_of c (off div BLOCK_SIZE) = Some blk" "off mod BLOCK_SIZE + n \<le> length blk"
    "dat = read_at blk (off mod BLOCK_SIZE) n" using get_hit [OF assms(1,3)] by blast
  define L where "L = length blk"
  have f: "blk = read_at file (off div BLOCK_SIZE * BLOCK_SIZE) L" "off div BLOCK_SIZE * BLOCK_SIZE + L \<le> length file"
    using assms(2) blk(1) unfolding blocks_of_file_def L_def by blast+
  have le: "off mod BLOCK_SIZE + n \<le> L" using blk(2) by (simp add: L_def)
  have "dat = read_at file (off div BLOCK_SIZE * BLOCK_SIZE + off mod BLOCK_SIZE) n"
    using read_at_read_at [OF le] blk(3) f(1) by metis
  moreover have off: "off div BLOCK_SIZE * BLOCK_SIZE + off mod BLOCK_SIZE = off" by (rule div_mult_mod_eq)
  moreover have "off + n \<le> length file" using le f(2) off by linarith
  ultimately show ?thesis by simp
qed

lemma put_from_file:
  assumes "inv c" and "blocks_of_file file (abs_of c)" and "off mod BLOCK_SIZE = 0" and "off + n \<le> length file"
  shows "blocks_of_file file (abs_of (put off (read_at file off n) c))"
  unfolding blocks_of_file_def
proof (intro allI impI)
  fix k blk assume a: "abs_of (put off (read_at file off n) c) k = Some blk"
  show "length blk \<le> BLOCK_SIZE \<and> k * BLOCK_SIZE + length blk \<le> length file \<and>
        blk = read_at file (k * BLOCK_SIZE) (length blk)"
  proof (cases "abs_of c k = Some blk")
    case True
    then show ?thesis using assms(2) unfolding blocks_of_file_def by blast
  next
    case False
    then have k: "k = off div BLOCK_SIZE" and blk: "blk = take BLOCK_SIZE (read_at file off n)"
      using put_abs [OF assms(1) a] by auto
    have off: "k * BLOCK_SIZE = off" using k assms(3) div_mult_mod_eq [of off BLOCK_SIZE] by simp
    have eq: "blk = read_at file off (min BLOCK_SIZE n)" using blk by (simp add: read_at_def)
    have len: "length blk = min BLOCK_SIZE n" using eq assms(4) by simp
    show ?thesis unfolding off len using eq assms(4) by simp
  qed
qed

lemma run_ops_from_file:
  assumes "inv c" and "blocks_of_file file (abs_of c)" and "list_all (fill_ok file) ops"
    and "run_ops get put file ops c = (rs, c')"
  shows "inv c' \<and> blocks_of_file file (abs_of c') \<and>
         (\<forall>off n dat. (off, n, Some dat) \<in> set rs \<longrightarrow> dat = read_at file off n \<and> off + n \<le> length file)"
  using assms
proof (induction ops arbitrary: c rs)
  case (Cons x ops)
  show ?case
  proof (cases x)
    case (Lookup off n)
    obtain r c1 rs1 where g: "get off n c = (r, c1)" "run_ops get put file ops c1 = (rs1, c')" "rs = (off, n, r) # rs1"
      using Cons.prems(4) Lookup by (auto split: prod.splits)
    have "inv c1" "blocks_of_file file (abs_of c1)" using get_keeps [OF Cons.prems(1) g(1)] Cons.prems(2) by simp_all
    then have IH: "inv c' \<and> blocks_of_file file (abs_of c') \<and>
         (\<forall>off n dat. (off, n, Some dat) \<in> set rs1 \<longrightarrow> dat = read_at file off n \<and> off + n \<le> length file)"
      using Cons.IH [OF _ _ _ g(2)] Cons.prems(3) by simp
    have "dat = read_at file off n \<and> off + n \<le> length file" if "r = Some dat" for dat
      using get_from_file [OF Cons.prems(1,2)] g(1) that by blast
    then show ?thesis using IH g(3) by auto
  next
    case (Fill off n)
    have ok: "off mod BLOCK_SIZE = 0" "off + n \<le> length file" "list_all (fill_ok file) ops"
      using Cons.prems(3) Fill by simp_all
    have "run_ops get put file ops (put off (read_at file off n) c) = (rs, c')" using Cons.prems(4) Fill by simp
    then show ?thesis
      by (rule Cons.IH [OF put_keeps [OF Cons.prems(1)] put_from_file [OF Cons.prems(1,2) ok(1,2)] ok(3)])
  qed
qed simp

end

interpretation gpu_cache: block_cache cache_inv cache_abs cached_bytes Put
proof unfold_locales
  fix c c' :: GPUBlockCache and off n r dat src k blk
  show "cache_inv c \<Longrightarrow> cached_bytes off n c = (r, c') \<Longrightarrow> cache_inv c' \<and> cache_abs c' = cache_abs c"
    by (rule cached_bytes_inv)
  show "cache_inv c \<Longrightarrow> cached_bytes off n c = (Some dat, c') \<Longrightarrow>
      \<exists>blk. cache_abs c (off div BLOCK_SIZE) = Some blk \<and> off mod BLOCK_SIZE + n \<le> length blk \<and>
            dat = read_at blk (off mod BLOCK_SIZE) n"
    by (rule cached_bytes_hit)
  show "cache_inv c \<Longrightarrow> cache_inv (Put off src c)" by (rule Put_inv)
  show "cache_inv c \<Longrightarrow> cache_abs (Put off src c) k = Some blk \<Longrightarrow>
      cache_abs c k = Some blk \<or> k = off div BLOCK_SIZE \<and> blk = take BLOCK_SIZE src"
    by (rule Put_abs)
qed

section \<open>Reads across blocks\<close>

lemma sub64_le: "b \<le> a \<Longrightarrow> a < 2 ^ 64 \<Longrightarrow> sub64 a b = a - b"
proof -
  assume a: "b \<le> a" "a < 2 ^ 64"
  have u: "unat (word_of_nat a :: u64) = a" "unat (word_of_nat b :: u64) = b"
    using a by (simp_all add: unat_of_nat take_bit_nat_eq_self)
  then have "(word_of_nat b :: u64) \<le> word_of_nat a" using a(1) by (simp add: word_le_nat_alt)
  then show ?thesis using u by (simp add: sub64_def unat_sub)
qed

text \<open>Every cached block holds all bytes the file has there.\<close>

definition full_blocks :: "bytes \<Rightarrow> (nat \<Rightarrow> bytes option) \<Rightarrow> bool" where
  "full_blocks file a \<longleftrightarrow>
     (\<forall>k blk. a k = Some blk \<longrightarrow> k * BLOCK_SIZE < length file \<and> blk = read_at file (k * BLOCK_SIZE) BLOCK_SIZE)"

text \<open>One step of the copy loop at the current offset, in a cache of full blocks.\<close>

lemma multi_block_copy_step:
  assumes inv: "cache_inv c" and full: "full_blocks file (cache_abs c)" and pool: "d_cache_pool c = Some pool"
    and cached: "map_of (cache_map c) bid \<noteq> None"
    and cur: "bid * BLOCK_SIZE \<le> cur" "cur < bid * BLOCK_SIZE + BLOCK_SIZE" "cur < length file"
    and n: "copied < n" "n < 2 ^ 64" "cur < 2 ^ 64" "n \<le> length out"
    and m: "m = min (n - copied) (min BLOCK_SIZE (length file - bid * BLOCK_SIZE) - (cur - bid * BLOCK_SIZE))"
  obtains c' where "cache_inv c'" and "cache_abs c' = cache_abs c" and "d_cache_pool c' = Some pool"
    and "\<forall>j. map_of (cache_map c') j = None \<longleftrightarrow> map_of (cache_map c) j = None"
    and "multi_block_copy n pool (bid # bids) copied cur out c =
         multi_block_copy n pool bids (copied + m) (cur + m) (write_at out copied (read_at file cur m)) c'"
proof -
  obtain b where b: "map_of (cache_map c) bid = Some b" using cached by blast
  obtain pool' where "d_cache_pool c = Some pool'" "cb_d_data b + cb_size b \<le> length pool'"
    "cache_abs c bid = Some (read_at pool' (cb_d_data b) (cb_size b))" "cb_size b \<le> BLOCK_SIZE"
    "length pool' = MAX_CACHED_BLOCKS * BLOCK_SIZE"
    by (rule block_in_pool [OF inv b])
  then have p: "cb_d_data b + cb_size b \<le> length pool" "cb_size b \<le> BLOCK_SIZE"
    "cache_abs c bid = Some (read_at pool (cb_d_data b) (cb_size b))"
    using pool by simp_all
  have blk: "read_at pool (cb_d_data b) (cb_size b) = read_at file (bid * BLOCK_SIZE) BLOCK_SIZE"
    using full p(3) by (auto simp: full_blocks_def)
  have sz: "cb_size b = min BLOCK_SIZE (length file - bid * BLOCK_SIZE)"
    using arg_cong [OF blk, of length] p(1) by simp
  let ?o = "cur - bid * BLOCK_SIZE"
  have o: "sub64 cur (bid * BLOCK_SIZE) = ?o" using cur n by (simp add: sub64_le)
  have "?o \<le> cb_size b" "cb_size b < 2 ^ 64" using sz cur p(2) by (auto simp: BLOCK_SIZE_def)
  then have s: "sub64 (cb_size b) ?o = cb_size b - ?o" by (simp add: sub64_le)
  have r: "sub64 n copied = n - copied" using n by (simp add: sub64_le)
  have mb: "min (n - copied) (cb_size b - ?o) = m" using m sz by simp
  have om: "?o + m \<le> cb_size b" using mb \<open>?o \<le> cb_size b\<close> by simp
  have rd: "read_at pool (cb_d_data b + ?o) m = read_at file cur m"
  proof -
    have "read_at pool (cb_d_data b + ?o) m = read_at (read_at file (bid * BLOCK_SIZE) BLOCK_SIZE) ?o m"
      using read_at_read_at [OF om] blk by metis
    also have "\<dots> = read_at file (bid * BLOCK_SIZE + ?o) m" using om p(2) by (simp add: read_at_read_at)
    finally show ?thesis using cur by simp
  qed
  define c' where "c' = c\<lparr>access_counter := access_counter c + 1, cache_map := touch bid (access_counter c + 1) (cache_map c)\<rparr>"
  have fits: "\<not> (cb_d_data b + ?o + m > length pool \<or> copied + m > length out)"
    using om p(1) mb n by auto
  have "multi_block_copy n pool (bid # bids) copied cur out c =
        multi_block_copy n pool bids (copied + m) (cur + m) (write_at out copied (read_at file cur m)) c'"
    unfolding multi_block_copy.simps b option.case Let_def o s r mb c'_def [symmetric] rd using fits by simp
  moreover have "cache_inv c'" "cache_abs c' = cache_abs c" "d_cache_pool c' = Some pool"
    unfolding c'_def using inv pool by (simp_all add: touch_inv [simplified] touch_abs)
  moreover have "\<forall>j. map_of (cache_map c') j = None \<longleftrightarrow> map_of (cache_map c) j = None"
    by (simp add: c'_def map_of_touch)
  ultimately show ?thesis using that by blast
qed

lemma window_last:
  "B \<le> cur \<Longrightarrow> cur + x \<le> B + S \<Longrightarrow> cur + x \<le> F \<Longrightarrow> x = min x (min S (F - B) - (cur - B))" for x :: nat
  by (auto simp: min_def)

lemma window_full:
  "B \<le> cur \<Longrightarrow> cur < B + S \<Longrightarrow> B + S \<le> F \<Longrightarrow> B + S - cur \<le> x \<Longrightarrow>
     B + S - cur = min x (min S (F - B) - (cur - B))" for x :: nat
  by (auto simp: min_def)

lemma multi_block_copy_file:
  assumes "cache_inv c" and "full_blocks file (cache_abs c)" and "d_cache_pool c = Some pool"
    and "\<And>j. bid \<le> j \<Longrightarrow> j \<le> last_bid \<Longrightarrow> map_of (cache_map c) j \<noteq> None"
    and "bid * BLOCK_SIZE \<le> cur" "cur < bid * BLOCK_SIZE + BLOCK_SIZE"
    and "bid \<le> last_bid" "last_bid * BLOCK_SIZE < cur + (n - copied)" "cur + (n - copied) \<le> last_bid * BLOCK_SIZE + BLOCK_SIZE"
    and "cur + (n - copied) \<le> length file" "length file < 2 ^ 64"
    and "copied < n" "n < 2 ^ 64" "n \<le> length out"
  shows "\<exists>c'. multi_block_copy n pool [bid..<last_bid + 1] copied cur out c =
                Returns (write_at out copied (read_at file cur (n - copied)), c') \<and>
              cache_inv c' \<and> cache_abs c' = cache_abs c"
  using assms
proof (induction "last_bid - bid" arbitrary: bid copied cur out c)
  case 0
  then have bid: "bid = last_bid" by simp
  define m where "m = n - copied"
  have lt: "cur < length file" using "0.prems"(10,12) by linarith
  then have lt': "cur < 2 ^ 64" using "0.prems"(11) by linarith
  have cached: "map_of (cache_map c) bid \<noteq> None" using "0.prems"(4) bid by simp
  have m: "m = min (n - copied) (min BLOCK_SIZE (length file - bid * BLOCK_SIZE) - (cur - bid * BLOCK_SIZE))"
    unfolding m_def by (rule window_last) (use "0.prems"(5,9,10) bid in simp_all)
  obtain c' where c': "cache_inv c'" "cache_abs c' = cache_abs c" "d_cache_pool c' = Some pool"
    "\<forall>j. map_of (cache_map c') j = None \<longleftrightarrow> map_of (cache_map c) j = None"
    "multi_block_copy n pool [bid] copied cur out c =
       multi_block_copy n pool [] (copied + m) (cur + m) (write_at out copied (read_at file cur m)) c'"
    by (rule multi_block_copy_step [OF "0.prems"(1,2,3) cached "0.prems"(5,6) lt "0.prems"(12,13) lt' "0.prems"(14) m, where bids = "[]"])
  have "[bid..<last_bid + 1] = [bid]" using bid by simp
  then show ?case using c'(1,2,5) m_def by simp
next
  case (Suc d)
  then have lt: "bid < last_bid" by simp
  have step: "bid * BLOCK_SIZE + BLOCK_SIZE \<le> last_bid * BLOCK_SIZE" by (rule slots_apart [OF lt])
  define m where "m = bid * BLOCK_SIZE + BLOCK_SIZE - cur"
  have "cur < length file" using Suc.prems(10,12) by linarith
  then have bounds: "cur < length file" "cur < 2 ^ 64" using Suc.prems(11) by linarith+
  have mlt: "m < n - copied" using Suc.prems(6,8) step unfolding m_def by linarith
  have m: "m = min (n - copied) (min BLOCK_SIZE (length file - bid * BLOCK_SIZE) - (cur - bid * BLOCK_SIZE))"
    unfolding m_def by (rule window_full) (use Suc.prems(5,6,8,10) step mlt m_def in linarith)+
  have cached: "map_of (cache_map c) bid \<noteq> None" using Suc.prems(4,7) by simp
  obtain c1 where c1: "cache_inv c1" "cache_abs c1 = cache_abs c" "d_cache_pool c1 = Some pool"
    "\<forall>j. map_of (cache_map c1) j = None \<longleftrightarrow> map_of (cache_map c) j = None"
    "multi_block_copy n pool (bid # [bid + 1..<last_bid + 1]) copied cur out c =
       multi_block_copy n pool [bid + 1..<last_bid + 1] (copied + m) (cur + m) (write_at out copied (read_at file cur m)) c1"
    by (rule multi_block_copy_step [OF Suc.prems(1,2,3) cached Suc.prems(5,6) bounds(1) Suc.prems(12,13) bounds(2) Suc.prems(14) m, where bids = "[bid + 1..<last_bid + 1]"])
  have cur': "cur + m = (bid + 1) * BLOCK_SIZE" using Suc.prems(6) by (simp add: m_def)
  have rest: "cur + m + (n - (copied + m)) = cur + (n - copied)" using mlt by simp
  have len: "length (read_at file cur m) = m" using Suc.prems(10) mlt by simp
  have out': "length (write_at out copied (read_at file cur m)) = length out" using len mlt Suc.prems(14) by simp
  have "\<exists>c'. multi_block_copy n pool [bid + 1..<last_bid + 1] (copied + m) (cur + m) (write_at out copied (read_at file cur m)) c1 =
      Returns (write_at (write_at out copied (read_at file cur m)) (copied + m) (read_at file (cur + m) (n - (copied + m))), c') \<and>
      cache_inv c' \<and> cache_abs c' = cache_abs c1"
  proof (rule Suc.hyps(1) [OF _ c1(1) _ c1(3)])
    show "d = last_bid - (bid + 1)" using Suc.hyps(2) by linarith
    show "full_blocks file (cache_abs c1)" using Suc.prems(2) c1(2) by simp
    show "map_of (cache_map c1) j \<noteq> None" if "bid + 1 \<le> j" "j \<le> last_bid" for j
      using Suc.prems(4) [of j] that c1(4) by simp
    show "(bid + 1) * BLOCK_SIZE \<le> cur + m" "cur + m < (bid + 1) * BLOCK_SIZE + BLOCK_SIZE"
      unfolding cur' by simp_all
    show "bid + 1 \<le> last_bid" using lt by simp
    show "last_bid * BLOCK_SIZE < cur + m + (n - (copied + m))"
      "cur + m + (n - (copied + m)) \<le> last_bid * BLOCK_SIZE + BLOCK_SIZE"
      "cur + m + (n - (copied + m)) \<le> length file"
      unfolding rest by (rule Suc.prems(8), rule Suc.prems(9), rule Suc.prems(10))
    show "copied + m < n" using mlt by linarith
    show "n \<le> length (write_at out copied (read_at file cur m))" unfolding out' by (rule Suc.prems(14))
  qed (rule Suc.prems(11), rule Suc.prems(13))
  then obtain c' where c': "multi_block_copy n pool [bid + 1..<last_bid + 1] (copied + m) (cur + m) (write_at out copied (read_at file cur m)) c1 =
      Returns (write_at (write_at out copied (read_at file cur m)) (copied + m) (read_at file (cur + m) (n - (copied + m))), c')"
    "cache_inv c'" "cache_abs c' = cache_abs c1" by blast
  have "read_at file cur (n - copied) = read_at file cur m @ read_at file (cur + m) (n - (copied + m))"
    using read_at_add [where buf = "file" and off = cur and m = m and n = "n - (copied + m)"] mlt by simp
  moreover have "write_at (write_at out copied (read_at file cur m)) (copied + m) (read_at file (cur + m) (n - (copied + m))) =
      write_at out copied (read_at file cur m @ read_at file (cur + m) (n - (copied + m)))"
    by (rule write_at_consecutive) (use len mlt Suc.prems(14) in auto)
  moreover have "[bid..<last_bid + 1] = bid # [bid + 1..<last_bid + 1]" using lt by (simp add: upt_conv_Cons)
  ultimately show ?case using c1(2,5) c' by simp
qed

lemma multi_block_copy_inv:
  "multi_block_copy n pool bids copied cur out c = Returns (out', c') \<Longrightarrow> cache_inv c \<Longrightarrow>
     cache_inv c' \<and> cache_abs c' = cache_abs c \<and> length out' = length out"
proof (induction n pool bids copied cur out c rule: multi_block_copy.induct)
  case (2 n pool bid bids copied cur out c)
  obtain b where b: "map_of (cache_map c) bid = Some b" using "2.prems"(1) by (cases "map_of (cache_map c) bid") auto
  define c1 where "c1 = c\<lparr>access_counter := access_counter c + 1, cache_map := touch bid (access_counter c + 1) (cache_map c)\<rparr>"
  define o1 where "o1 = sub64 cur (bid * BLOCK_SIZE)"
  define m where "m = min (sub64 n copied) (sub64 (cb_size b) o1)"
  have r: "\<not> (cb_d_data b + o1 + m > length pool \<or> copied + m > length out)"
    "multi_block_copy n pool bids (copied + m) (cur + m) (write_at out copied (read_at pool (cb_d_data b + o1) m)) c1 = Returns (out', c')"
    using "2.prems"(1) unfolding multi_block_copy.simps b option.case Let_def
      c1_def [symmetric] o1_def [symmetric] m_def [symmetric] by (auto split: if_splits)
  have "cache_inv c1" "cache_abs c1 = cache_abs c"
    unfolding c1_def using "2.prems"(2) by (simp_all add: touch_inv [simplified] touch_abs)
  moreover have "cache_inv c' \<and> cache_abs c' = cache_abs c1 \<and>
      length out' = length (write_at out copied (read_at pool (cb_d_data b + o1) m))"
    using "2.IH" [OF b c1_def refl o1_def m_def r(1)] r(2) \<open>cache_inv c1\<close> by blast
  moreover have "length (write_at out copied (read_at pool (cb_d_data b + o1) m)) = length out"
    using r(1) by (intro length_write_at) auto
  ultimately show ?case by simp
qed simp

lemma TryGetMultiBlock_inv:
  "TryGetMultiBlock off n out c = Returns (r, out', c') \<Longrightarrow> cache_inv c \<Longrightarrow>
     cache_inv c' \<and> cache_abs c' = cache_abs c \<and> length out' = length out"
  using multi_block_copy_inv [where c = "c\<lparr>cache_hits := cache_hits c + 1\<rparr>"]
  by (auto simp: TryGetMultiBlock_def Let_def bind_outcome_Returns_iff stats_inv split: if_splits option.splits)

lemma multi_block_hit:
  assumes "cache_inv c" and "full_blocks file (cache_abs c)"
    and "\<And>k. off div BLOCK_SIZE \<le> k \<Longrightarrow> k \<le> (off + n - 1) div BLOCK_SIZE \<Longrightarrow> cache_abs c k \<noteq> None"
    and "0 < n" and "off + n \<le> length file" and "length file < 2 ^ 64" and "n \<le> length out"
  shows "\<exists>c'. TryGetMultiBlock off n out c = Returns (True, write_at out 0 (read_at file off n), c') \<and>
              cache_inv c' \<and> cache_abs c' = cache_abs c"
proof -
  let ?s = "off div BLOCK_SIZE" and ?e = "(off + n - 1) div BLOCK_SIZE"
  let ?c = "c\<lparr>cache_hits := cache_hits c + 1\<rparr>"
  have cached: "map_of (cache_map c) k \<noteq> None" if "?s \<le> k" "k \<le> ?e" for k
    using assms(3) [OF that] by (auto simp: cache_abs_def split: option.splits)
  have se: "?s \<le> ?e" using assms(4) by (intro div_le_mono) simp
  obtain pool where pool: "d_cache_pool c = Some pool"
    using assms(3) [of ?s] se by (auto simp: cache_abs_def split: option.splits)
  have inv: "cache_inv ?c" "full_blocks file (cache_abs ?c)" "d_cache_pool ?c = Some pool"
    using assms(1,2) pool by (simp_all add: stats_inv)
  have lo: "?s * BLOCK_SIZE \<le> off" "off < ?s * BLOCK_SIZE + BLOCK_SIZE"
    using div_mult_mod_eq [of off BLOCK_SIZE] mod_less_divisor [OF block_size_pos(1), of off] by linarith+
  have hi: "?e * BLOCK_SIZE < off + (n - 0)" "off + (n - 0) \<le> ?e * BLOCK_SIZE + BLOCK_SIZE"
    using div_mult_mod_eq [of "off + n - 1" BLOCK_SIZE] mod_less_divisor [OF block_size_pos(1), of "off + n - 1"]
      assms(4) by linarith+
  have "\<exists>c'. multi_block_copy n pool [?s..<?e + 1] 0 off out ?c =
                Returns (write_at out 0 (read_at file off (n - 0)), c') \<and> cache_inv c' \<and> cache_abs c' = cache_abs ?c"
    by (rule multi_block_copy_file [OF inv _ lo se hi]) (use cached assms in auto)
  then obtain c' where "multi_block_copy n pool [?s..<?e + 1] 0 off out ?c = Returns (write_at out 0 (read_at file off n), c')"
    "cache_inv c'" "cache_abs c' = cache_abs ?c" by auto
  moreover have "list_all (\<lambda>bid. map_of (cache_map c) bid \<noteq> None) [?s..<?e + 1]"
    using cached by (simp add: list_all_iff del: upt_Suc)
  ultimately show ?thesis
    using assms(4) pool unfolding TryGetMultiBlock_def Let_def by (simp add: stats_inv del: upt_Suc)
qed

lemma multi_block_miss:
  assumes "\<not> (\<forall>k. off div BLOCK_SIZE \<le> k \<longrightarrow> k \<le> (off + n - 1) div BLOCK_SIZE \<longrightarrow> map_of (cache_map c) k \<noteq> None)"
    and "0 < n"
  shows "TryGetMultiBlock off n out c = Returns (False, out, c\<lparr>cache_misses := cache_misses c + 1\<rparr>)"
proof -
  have "\<not> list_all (\<lambda>bid. map_of (cache_map c) bid \<noteq> None) [off div BLOCK_SIZE..<(off + n - 1) div BLOCK_SIZE + 1]"
    using assms(1) by (auto simp: list_all_iff simp del: upt_Suc)
  then show ?thesis using assms(2) by (simp add: TryGetMultiBlock_def Let_def del: upt_Suc)
qed

text \<open>In a cache of full blocks a request inside the file either hits, with the bytes of the file, or misses.\<close>

lemma TryGetMultiBlock_file:
  assumes inv: "cache_inv c" "full_blocks file (cache_abs c)"
    and n: "0 < n" "off + n \<le> length file" "length file < 2 ^ 64" "n \<le> length out"
  obtains c' where "TryGetMultiBlock off n out c = Returns (True, write_at out 0 (read_at file off n), c') \<or>
      TryGetMultiBlock off n out c = Returns (False, out, c')"
    and "cache_inv c'" and "full_blocks file (cache_abs c')"
proof (cases "\<forall>k. off div BLOCK_SIZE \<le> k \<longrightarrow> k \<le> (off + n - 1) div BLOCK_SIZE \<longrightarrow> map_of (cache_map c) k \<noteq> None")
  case True
  have "cache_abs c k \<noteq> None" if "off div BLOCK_SIZE \<le> k" "k \<le> (off + n - 1) div BLOCK_SIZE" for k
  proof -
    obtain b where "map_of (cache_map c) k = Some b" using True \<open>off div BLOCK_SIZE \<le> k\<close> \<open>k \<le> (off + n - 1) div BLOCK_SIZE\<close> by blast
    then show ?thesis by (rule block_in_pool [OF inv(1)]) simp
  qed
  then have "\<exists>c'. TryGetMultiBlock off n out c = Returns (True, write_at out 0 (read_at file off n), c') \<and>
      cache_inv c' \<and> cache_abs c' = cache_abs c"
    by (rule multi_block_hit [OF inv _ n])
  then show thesis using that inv(2) by (auto simp: stats_inv)
next
  case False
  show thesis
    by (rule that [OF disjI2 [OF multi_block_miss [OF False n(1)]]]) (use inv in \<open>simp_all add: stats_inv\<close>)
qed

section \<open>Reachable caches\<close>

text \<open>The caches that a sequence of calls can produce from a new one.\<close>

inductive cache_reachable :: "GPUBlockCache \<Rightarrow> bool" where
  reach_new: "pool = None \<or> (\<exists>p. pool = Some p \<and> length p = MAX_CACHED_BLOCKS * BLOCK_SIZE) \<Longrightarrow>
    cache_reachable (new_GPUBlockCache pool)"
| reach_get: "cache_reachable c \<Longrightarrow> cache_reachable (snd (TryGet off n c))"
| reach_multi: "cache_reachable c \<Longrightarrow> TryGetMultiBlock off n out c = Returns (r, out', c') \<Longrightarrow> cache_reachable c'"
| reach_put: "cache_reachable c \<Longrightarrow> cache_reachable (Put off src c)"
| reach_clear: "cache_reachable c \<Longrightarrow> cache_reachable (cache_Clear c)"

lemma cache_Clear_inv: "cache_inv c \<Longrightarrow> cache_inv (cache_Clear c)"
  by (auto simp: cache_inv_def cache_wf_def cache_Clear_def slots_def split: option.splits)

lemma reachable_inv: "cache_reachable c \<Longrightarrow> cache_inv c"
proof (induction rule: cache_reachable.induct)
  case reach_new
  then show ?case by (rule new_cache_inv)
next
  case reach_get
  then show ?case using TryGet_inv by blast
next
  case reach_multi
  then show ?case using TryGetMultiBlock_inv by blast
qed (simp_all add: Put_inv cache_Clear_inv)

section \<open>Example caches\<close>

definition zero_pool :: bytes where
  "zero_pool = replicate (MAX_CACHED_BLOCKS * BLOCK_SIZE) 0"

definition small_cache :: GPUBlockCache where
  "small_cache = Put 0 [1, 2, 3] (new_GPUBlockCache (Some zero_pool))"

lemma zero_cache_reachable: "cache_reachable (new_GPUBlockCache (Some zero_pool))"
  by (rule reach_new) (simp add: zero_pool_def)

lemma small_cache_reachable: "cache_reachable small_cache"
  unfolding small_cache_def by (rule reach_put [OF zero_cache_reachable])

lemma small_cache_abs: "cache_abs small_cache k = (if k = 0 then Some [1, 2, 3] else None)"
proof -
  let ?n = "new_GPUBlockCache (Some zero_pool)"
  have "cache_abs small_cache k = (if k = 0 div BLOCK_SIZE then Some (take BLOCK_SIZE [1, 2, 3]) else cache_abs (make_room ?n) k)"
    unfolding small_cache_def
    by (rule Put_new [OF reachable_inv [OF zero_cache_reachable], of zero_pool 0 "[1, 2, 3]"])
      (simp_all add: new_GPUBlockCache_def)
  moreover have "make_room ?n = ?n" by (simp add: make_room_def new_GPUBlockCache_def MAX_CACHED_BLOCKS_def)
  ultimately show ?thesis by (simp add: BLOCK_SIZE_def cache_abs_def new_GPUBlockCache_def)
qed

lemma small_cache_full: "full_blocks [1, 2, 3] (cache_abs small_cache)"
  by (auto simp: full_blocks_def small_cache_abs read_at_def BLOCK_SIZE_def split: if_splits)

text \<open>A cache with \<open>m\<close> blocks, up to a full one.\<close>

definition filled_cache :: "nat \<Rightarrow> GPUBlockCache" where
  "filled_cache m = fold (\<lambda>i. Put (i * BLOCK_SIZE) [1]) [0..<m] (new_GPUBlockCache (Some zero_pool))"

lemma filled_cache_keys:
  "m \<le> MAX_CACHED_BLOCKS \<Longrightarrow>
     cache_reachable (filled_cache m) \<and> map fst (cache_map (filled_cache m)) = rev [0..<m] \<and>
     d_cache_pool (filled_cache m) \<noteq> None"
proof (induction m)
  case 0
  then show ?case using zero_cache_reachable by (simp add: filled_cache_def new_GPUBlockCache_def)
next
  case (Suc m)
  let ?c = "filled_cache m"
  have IH: "cache_reachable ?c" "map fst (cache_map ?c) = rev [0..<m]" "d_cache_pool ?c \<noteq> None" using Suc by simp_all
  obtain pool where pool: "d_cache_pool ?c = Some pool" using IH(3) by blast
  have step: "filled_cache (Suc m) = Put (m * BLOCK_SIZE) [1] ?c" by (simp add: filled_cache_def)
  have len: "length (cache_map ?c) = m" using arg_cong [OF IH(2), of length] by simp
  have "set (map fst (cache_map ?c)) = {0..<m}" using IH(2) by simp
  then have "map_of (cache_map ?c) m = None" by (simp add: map_of_eq_None_iff)
  then have new: "map_of (cache_map ?c) (m * BLOCK_SIZE div BLOCK_SIZE) = None" by simp
  obtain slot where "Put (m * BLOCK_SIZE) [1] ?c =
      (add_block (m * BLOCK_SIZE div BLOCK_SIZE) slot pool (take BLOCK_SIZE [1]) (make_room ?c))\<lparr>free_slots := []\<rparr>"
    using Put_new [OF reachable_inv [OF IH(1)] pool new, of "[1]"] by metis
  moreover have "make_room ?c = ?c" using len Suc.prems by (simp add: make_room_def)
  ultimately have "map fst (cache_map (filled_cache (Suc m))) = rev [0..<Suc m]" "d_cache_pool (filled_cache (Suc m)) \<noteq> None"
    using step IH(2) by (simp_all add: add_block_def)
  then show ?case using reach_put [OF IH(1)] step by simp
qed

section \<open>Properties\<close>

text \<open>
  C17: in every reachable cache at most 512 blocks are cached, no two of them under the same number or in
  the same slot, and the slots in use are exactly the first ones of the pool.
\<close>

theorem block_cache_invariant:
  assumes "cache_reachable c"
  shows "length (cache_map c) \<le> MAX_CACHED_BLOCKS \<and> distinct (map fst (cache_map c)) \<and> distinct (slots c) \<and>
         set (slots c) = {0..<length (cache_map c)} \<and> free_slots c = []"
  using reachable_inv [OF assms] unfolding cache_inv_def cache_wf_def by auto

theorem block_cache_invariant_witness:
  "free_slots (Put 0 [1, 2] (new_GPUBlockCache (Some (replicate (MAX_CACHED_BLOCKS * BLOCK_SIZE) 0)))) = []"
  using block_cache_invariant [OF reach_put [OF reach_new]] by simp



text \<open>
  C24: when the blocks a request needs are all cached in full, \<open>TryGetMultiBlock\<close> writes the requested
  bytes of the file to the output buffer, across block boundaries, and nothing else.
\<close>

theorem TryGetMultiBlock_copies:
  assumes "cache_inv c" and "full_blocks file (cache_abs c)"
    and "\<And>k. off div BLOCK_SIZE \<le> k \<Longrightarrow> k \<le> (off + n - 1) div BLOCK_SIZE \<Longrightarrow> cache_abs c k \<noteq> None"
    and "0 < n" and "off + n \<le> length file" and "length file < 2 ^ 64" and "n \<le> length out"
  shows "\<exists>c'. TryGetMultiBlock off n out c = Returns (True, write_at out 0 (read_at file off n), c') \<and>
              cache_inv c' \<and> cache_abs c' = cache_abs c"
  using assms by (rule multi_block_hit)

theorem TryGetMultiBlock_copies_witness:
  "\<exists>c'. TryGetMultiBlock 1 2 [0, 0, 5] small_cache = Returns (True, [2, 3, 5], c')"
proof -
  have "\<exists>c'. TryGetMultiBlock 1 2 [0, 0, 5] small_cache = Returns (True, write_at [0, 0, 5] 0 (read_at [1, 2, 3] 1 2), c') \<and>
      cache_inv c' \<and> cache_abs c' = cache_abs small_cache"
    by (rule TryGetMultiBlock_copies [OF reachable_inv [OF small_cache_reachable] small_cache_full])
      (simp_all add: small_cache_abs BLOCK_SIZE_def)
  then show ?thesis by (auto simp: write_at_def read_at_def)
qed

text \<open>
  C27: \<open>Put\<close> of a new block into a full cache evicts the least recently used block and no other: the
  one block whose access count is below all others.
\<close>

theorem Put_evicts_lru:
  assumes "cache_reachable c" and "length (cache_map c) = MAX_CACHED_BLOCKS"
    and "map_of (cache_map c) (off div BLOCK_SIZE) = None"
  shows "\<exists>v vb. map_of (cache_map c) v = Some vb \<and>
           (\<forall>j b. map_of (cache_map c) j = Some b \<longrightarrow> j \<noteq> v \<longrightarrow> cb_access_count vb < cb_access_count b) \<and>
           cache_abs (Put off src c) =
             (\<lambda>k. if k = off div BLOCK_SIZE then Some (take BLOCK_SIZE src) else if k = v then None else cache_abs c k)"
proof -
  have inv: "cache_inv c" and wf: "cache_wf c" using reachable_inv [OF assms(1)] by (simp_all add: cache_inv_def)
  have ne: "cache_map c \<noteq> []" using assms(2) by (auto simp: MAX_CACHED_BLOCKS_def)
  obtain pool where pool: "d_cache_pool c = Some pool" using wf ne by (cases "d_cache_pool c") (auto simp: cache_wf_def)
  obtain xs v vb ys where s: "cache_map c = xs @ (v, vb) # ys"
    "EvictLRU c = c\<lparr>free_slots := free_slots c @ [slot_of vb],
       slot_map := map (\<lambda>(i, b). (i, slot_of b)) (xs @ ys), cache_map := xs @ ys\<rparr>"
    "\<And>j b. (j, b) \<in> set (xs @ ys) \<Longrightarrow> cb_access_count vb < cb_access_count b"
    using EvictLRU_split [OF wf ne] by metis
  have d: "distinct (map fst (cache_map c))" using wf by (simp add: cache_wf_def)
  have v: "map_of (cache_map c) v = Some vb" using d s(1) by (simp add: map_of_is_SomeI del: map_of_append)
  have others: "cb_access_count vb < cb_access_count b" if "map_of (cache_map c) j = Some b" "j \<noteq> v" for j b
    using s(3) [of j b] map_of_SomeD [OF that(1)] that(2) s(1) by auto
  have vx: "map_of xs v = None" "map_of ys v = None" using d s(1) by (simp_all add: map_of_eq_None_iff)
  have "map_of (xs @ ys) k = (if k = v then None else map_of (cache_map c) k)" for k
    using vx s(1) by (simp add: map_add_def split: option.splits)
  then have ev: "cache_abs (make_room c) k = (if k = v then None else cache_abs c k)" for k
    using assms(2) s(2) pool by (simp add: make_room_def cache_abs_def)
  have "cache_abs (Put off src c) k =
          (if k = off div BLOCK_SIZE then Some (take BLOCK_SIZE src) else cache_abs (make_room c) k)" for k
    using Put_new [OF inv pool assms(3)] by metis
  then show ?thesis using v others ev by (intro exI [of _ v] exI [of _ vb]) auto
qed

theorem Put_evicts_lru_witness:
  "\<exists>v. cache_abs (Put (512 * BLOCK_SIZE) [4] (filled_cache 512)) 512 = Some [4] \<and>
       v \<noteq> 512 \<and> map_of (cache_map (filled_cache 512)) v \<noteq> None \<and>
       cache_abs (Put (512 * BLOCK_SIZE) [4] (filled_cache 512)) v = None"
proof -
  let ?c = "filled_cache 512"
  have f: "cache_reachable ?c" "map fst (cache_map ?c) = rev [0..<512]"
    using filled_cache_keys [of 512] by (simp_all add: MAX_CACHED_BLOCKS_def del: upt_rec_numeral)
  have len: "length (cache_map ?c) = MAX_CACHED_BLOCKS"
    using arg_cong [OF f(2), of length] by (simp add: MAX_CACHED_BLOCKS_def del: upt_rec_numeral)
  have "set (map fst (cache_map ?c)) = {0..<512}" unfolding f(2) by (simp del: upt_rec_numeral)
  then have new: "map_of (cache_map ?c) 512 = None" by (simp add: map_of_eq_None_iff)
  then have new': "map_of (cache_map ?c) (512 * BLOCK_SIZE div BLOCK_SIZE) = None" by simp
  obtain v vb where "map_of (cache_map ?c) v = Some vb"
    "cache_abs (Put (512 * BLOCK_SIZE) [4] ?c) =
       (\<lambda>k. if k = 512 * BLOCK_SIZE div BLOCK_SIZE then Some (take BLOCK_SIZE [4]) else if k = v then None else cache_abs ?c k)"
    using Put_evicts_lru [OF f(1) len new', of "[4]"] by blast
  moreover have "take BLOCK_SIZE [4 :: byte] = [4]" by (simp add: BLOCK_SIZE_def)
  ultimately show ?thesis using new by (intro exI [of _ v]) auto
qed



text \<open>
  A request that starts inside a cached last block of a file and reaches beyond its end is a miss for
  \<open>TryGet\<close> and a hit for \<open>TryGetMultiBlock\<close>, which copies only the bytes up to the end and reports
  neither the shortfall nor an error.
\<close>

lemma TryGetMultiBlock_past_end:
  assumes "cache_inv c" and "cache_abs c (off div BLOCK_SIZE) = Some blk"
    and "off mod BLOCK_SIZE \<le> length blk" and "length blk < off mod BLOCK_SIZE + n"
    and "(off + n - 1) div BLOCK_SIZE = off div BLOCK_SIZE"
    and "off < 2 ^ 64" and "n < 2 ^ 64" and "n \<le> length out"
  shows "fst (TryGet off n c) = None \<and>
         (\<exists>c'. TryGetMultiBlock off n out c = Returns (True, write_at out 0 (drop (off mod BLOCK_SIZE) blk), c'))"
proof -
  let ?k = "off div BLOCK_SIZE" and ?o = "off mod BLOCK_SIZE"
  obtain b where b: "map_of (cache_map c) ?k = Some b" using assms(2) by (auto simp: cache_abs_def split: option.splits)
  obtain pool where pool: "d_cache_pool c = Some pool" "cb_d_data b + cb_size b \<le> length pool"
    "cache_abs c ?k = Some (read_at pool (cb_d_data b) (cb_size b))" "cb_size b \<le> BLOCK_SIZE"
    using block_in_pool [OF assms(1) b] by metis
  have blk: "blk = read_at pool (cb_d_data b) (cb_size b)" "length blk = cb_size b" using pool assms(2) by auto
  have off: "?k * BLOCK_SIZE + ?o = off" by (rule div_mult_mod_eq)
  have o: "sub64 off (?k * BLOCK_SIZE) = ?o" using off assms(6) sub64_le [of "?k * BLOCK_SIZE" off] by linarith
  have s: "sub64 (cb_size b) ?o = cb_size b - ?o"
    using assms(3) blk(2) pool(4) by (intro sub64_le) (auto simp: BLOCK_SIZE_def)
  have r: "sub64 n 0 = n" using assms(7) by (simp add: sub64_le)
  have m: "min n (cb_size b - ?o) = cb_size b - ?o" using assms(4) blk(2) by simp
  have rd: "read_at pool (cb_d_data b + ?o) (cb_size b - ?o) = drop ?o blk"
    unfolding blk(1) by (simp add: read_at_def drop_take add.commute)
  have n: "n \<noteq> 0" using assms(3,4) by linarith
  have miss: "fst (TryGet off n c) = None" using b assms(4) blk(2) by (simp add: TryGet_def Let_def)
  have fits: "\<not> (cb_d_data b + ?o + (cb_size b - ?o) > length pool \<or> 0 + (cb_size b - ?o) > length out)"
    using pool(2) assms(3,4,8) blk(2) by auto
  have "\<exists>c'. multi_block_copy n pool [?k] 0 off out (c\<lparr>cache_hits := cache_hits c + 1\<rparr>) = Returns (write_at out 0 (drop ?o blk), c')"
    using fits by (simp add: b Let_def o s r m rd)
  then show ?thesis using miss n pool(1) b assms(5) by (auto simp: TryGetMultiBlock_def Let_def)
qed

end
