(* ===== verification/GDS_Random_Access.thy ===== *)
theory GDS_Random_Access
  imports GPU_Block_Cache GDS_File_System
begin

text \<open>
  The read side of the GPUDirect file layer: class \<open>GDSRandomAccessFile\<close> of
  \<^verbatim>\<open>gds/gds_file_system.cuh\<close>. A read to device memory tries the block cache, first in one block
  and then across blocks; on a miss it reads either the whole cache block or the requested range widened
  to the alignment, and copies the requested part out. A read to host memory has no cache.

  cuFile and the CUDA allocator are the record \<open>ra_env\<close>: \<open>cuFileRead\<close> of a size and an offset
  gives the bytes read or a negative error, and \<open>cudaMalloc\<close> of a size gives fresh memory or fails.
  What the reader relies on of cuFile is \<open>cu_read_spec\<close>: a read returns the bytes the file has in the
  range. The caller's scratch buffer, the file object's own buffer and the cache pool are the three
  regions a result can point to. The codes of \<^verbatim>\<open>rocksdb::IOStatus\<close> are written with the codes of
  the library's own \<open>IOStatus\<close>.

  The contract \<open>random_file\<close> is what callers rely on: a read returns the bytes of the file. It is
  interpreted on the device read, for requests inside one cache block, and on the host read.
\<close>

section \<open>State\<close>

record ra_env =
  cuFileRead :: "nat \<Rightarrow> nat \<Rightarrow> int + bytes"
  cudaMalloc :: "nat \<Rightarrow> bytes option"
  cudaMemcpy_ok :: bool

record GDSRandomAccessFile =
  ra_filename :: string
  ra_options :: GDSOptions
  ra_file_fd :: int
  ra_initialized :: bool
  ra_file_size :: nat
  ra_gpu_buffer :: "bytes option"
  ra_gpu_buffer_size :: nat
  ra_gpu_cache :: "GPUBlockCache option"

definition SCRATCH :: nat where "SCRATCH = 0"
definition GPU_BUFFER :: nat where "GPU_BUFFER = 1"
definition CACHE_POOL :: nat where "CACHE_POOL = 2"

definition slice_at :: "nat \<Rightarrow> nat \<Rightarrow> nat \<Rightarrow> DeviceSlice" where
  "slice_at region off n = \<lparr>slice_data = DevPtr region off, slice_size = n\<rparr>"

text \<open>A copy between buffers; leaving either of them is undefined.\<close>

definition memcpy_to :: "bytes \<Rightarrow> nat \<Rightarrow> nat \<Rightarrow> bytes \<Rightarrow> bytes outcome" where
  "memcpy_to src off n dst =
     (if off + n > length src \<or> n > length dst then Undefined ''copy beyond a buffer''
      else Returns (write_at dst 0 (read_at src off n)))"

section \<open>Buffers and opening\<close>

definition ra_EnsureGPUBuffer :: "ra_env \<Rightarrow> GDSRandomAccessFile \<Rightarrow> nat \<Rightarrow> IOStatus \<times> GDSRandomAccessFile" where
  "ra_EnsureGPUBuffer env s required_size =
     (let aligned_size = align_up (GDSAlignment (ra_options s)) required_size
      in if ra_gpu_buffer s \<noteq> None \<and> ra_gpu_buffer_size s \<ge> aligned_size then (io_OK, s)
         else
           let s = (if ra_gpu_buffer s \<noteq> None then s\<lparr>ra_gpu_buffer := None, ra_gpu_buffer_size := 0\<rparr> else s)
           in case cudaMalloc env aligned_size of
                None \<Rightarrow> (io_IOError ''Failed to allocate GPU buffer'',
                         s\<lparr>ra_gpu_buffer := None, ra_gpu_buffer_size := 0\<rparr>)
              | Some b \<Rightarrow> (io_OK, s\<lparr>ra_gpu_buffer := Some b, ra_gpu_buffer_size := aligned_size\<rparr>))"

definition ra_InitializeGDS :: "ra_env \<Rightarrow> 'f open_env \<Rightarrow> GDSRandomAccessFile \<Rightarrow> IOStatus \<times> GDSRandomAccessFile" where
  "ra_InitializeGDS env oenv s =
     (if \<not> cudaSetDevice_ok oenv then (io_CudaError ''Failed to set CUDA device'', s)
      else
        let s = s\<lparr>ra_file_fd := open_fd oenv\<rparr>
        in if open_fd oenv < 0 then (io_IOError ''Failed to open file for GDS reading'', s)
           else
             case fstat_size oenv of
               None \<Rightarrow> (io_IOError ''Failed to get file size'', s\<lparr>ra_file_fd := -1\<rparr>)
             | Some n \<Rightarrow>
                 let s = s\<lparr>ra_file_size := n\<rparr>
                 in if cuFileHandleRegister oenv = None
                    then (io_IOError ''Failed to register file with cuFile'', s\<lparr>ra_file_fd := -1\<rparr>)
                    else
                      let (buffer_status, s) = ra_EnsureGPUBuffer env s (DefaultGPUBufferSize (ra_options s))
                      in if \<not> io_ok buffer_status then (buffer_status, s\<lparr>ra_file_fd := -1\<rparr>)
                         else (io_OK, s\<lparr>ra_initialized := True\<rparr>))"

definition new_GDSRandomAccessFile ::
  "ra_env \<Rightarrow> 'f open_env \<Rightarrow> string \<Rightarrow> GDSOptions \<Rightarrow> GDSRandomAccessFile outcome" where
  "new_GDSRandomAccessFile env oenv filename options =
     (let (status, s) = ra_InitializeGDS env oenv
            \<lparr>ra_filename = filename, ra_options = options, ra_file_fd = -1, ra_initialized = False,
             ra_file_size = 0, ra_gpu_buffer = None, ra_gpu_buffer_size = 0,
             ra_gpu_cache = (if EnableGPUCache options
                             then Some (new_GPUBlockCache (cudaMalloc env (BLOCK_SIZE * MAX_CACHED_BLOCKS)))
                             else None)\<rparr>
      in if \<not> io_ok status then Throws ''GDS initialization failed'' else Returns s)"

definition delete_GDSRandomAccessFile :: "GDSRandomAccessFile \<Rightarrow> GDSRandomAccessFile" where
  "delete_GDSRandomAccessFile s =
     (let s = (if ra_gpu_buffer s \<noteq> None then s\<lparr>ra_gpu_buffer := None\<rparr> else s);
          s = (if ra_file_fd s \<ge> 0 then s\<lparr>ra_file_fd := -1\<rparr> else s)
      in s\<lparr>ra_initialized := False\<rparr>)"

section \<open>Reading to device memory\<close>

type_synonym read_result = "DeviceSlice \<times> bytes option"

text \<open>
  The two cache attempts: a slice and the scratch buffer after a hit, or \<open>None\<close>.
\<close>

definition read_from_cache ::
  "ra_env \<Rightarrow> GDSRandomAccessFile \<Rightarrow> nat \<Rightarrow> nat \<Rightarrow> bytes option \<Rightarrow> (read_result option \<times> GDSRandomAccessFile) outcome" where
  "read_from_cache env s off n d_scratch =
     (case ra_gpu_cache s of
        None \<Rightarrow> Returns (None, s)
      | Some c \<Rightarrow>
          let (r, c) = TryGet off n c;
              s = s\<lparr>ra_gpu_cache := Some c\<rparr>
          in case (case r of Some (p, cached_size) \<Rightarrow> if cached_size \<ge> n then Some p else None | None \<Rightarrow> None) of
               Some p \<Rightarrow>
                 (case d_scratch of
                    Some d \<Rightarrow>
                      bind_outcome (memcpy_to (case d_cache_pool c of Some pool \<Rightarrow> pool | None \<Rightarrow> []) p n d)
                        (\<lambda>d. Returns (Some (slice_at SCRATCH 0 n, Some d), s))
                  | None \<Rightarrow> Returns (Some (slice_at CACHE_POOL p n, None), s))
             | None \<Rightarrow>
                 (case d_scratch of
                    Some d \<Rightarrow>
                      bind_outcome (TryGetMultiBlock off n d c)
                        (\<lambda>(hit, d, c). Returns (if hit then Some (slice_at SCRATCH 0 n, Some d) else None,
                                                s\<lparr>ra_gpu_cache := Some c\<rparr>))
                  | None \<Rightarrow>
                      let (buffer_status, s) = ra_EnsureGPUBuffer env s n
                      in if io_ok buffer_status
                         then bind_outcome (TryGetMultiBlock off n (the (ra_gpu_buffer s)) c)
                                (\<lambda>(hit, b, c). Returns (if hit then Some (slice_at GPU_BUFFER 0 n, None) else None,
                                                        s\<lparr>ra_gpu_buffer := Some b, ra_gpu_cache := Some c\<rparr>))
                         else Returns (None, s)))"

text \<open>
  The range to read on a miss: the file offset, the size, where the request starts in it, whether it
  goes to the object's buffer, and whether it is a prefetch of a cache block.
\<close>

record read_plan =
  read_offset :: nat
  read_n :: nat
  offset_in_read :: nat
  need_temp_buffer :: bool
  should_prefetch :: bool

definition plan_read :: "GDSRandomAccessFile \<Rightarrow> nat \<Rightarrow> nat \<Rightarrow> bool \<Rightarrow> read_plan" where
  "plan_read s off n no_scratch =
     (let a = GDSAlignment (ra_options s);
          block_start = off div BLOCK_SIZE * BLOCK_SIZE;
          p = (if ra_gpu_cache s \<noteq> None \<and> EnableCachePrefetch (ra_options s) \<and> n < BLOCK_SIZE \<and>
                  n \<ge> MinReadSizeForCache (ra_options s)
               then \<lparr>read_offset = block_start,
                     read_n = min BLOCK_SIZE (sub64 (ra_file_size s) block_start),
                     offset_in_read = off - block_start, need_temp_buffer = True, should_prefetch = True\<rparr>
               else
                 let is_aligned = (off mod a = 0 \<and> n mod a = 0)
                 in if \<not> is_aligned
                    then let aligned = off div a * a
                         in \<lparr>read_offset = aligned, read_n = (off - aligned + n + a - 1) div a * a,
                             offset_in_read = off - aligned, need_temp_buffer = True, should_prefetch = False\<rparr>
                    else \<lparr>read_offset = off, read_n = n, offset_in_read = 0, need_temp_buffer = no_scratch,
                          should_prefetch = False\<rparr>);
          p = (if read_offset p mod a \<noteq> 0
               then let aligned_offset = read_offset p div a * a
                    in p\<lparr>offset_in_read := offset_in_read p + (read_offset p - aligned_offset),
                         read_offset := aligned_offset\<rparr>
               else p)
      in if read_n p mod a \<noteq> 0 then p\<lparr>read_n := (read_n p + a - 1) div a * a\<rparr> else p)"

text \<open>
  The read itself into the chosen buffer, the insertion into the cache, and the extraction of the
  requested bytes. The size of the result is computed with unsigned 64-bit numbers.
\<close>

definition read_from_disk ::
  "ra_env \<Rightarrow> GDSRandomAccessFile \<Rightarrow> nat \<Rightarrow> nat \<Rightarrow> bytes option \<Rightarrow>
     (IOStatus \<times> read_result option \<times> GDSRandomAccessFile) outcome" where
  "read_from_disk env s off n d_scratch =
     (let a = GDSAlignment (ra_options s);
          p = plan_read s off n (d_scratch = None);
          (buffer_status, s) = (if need_temp_buffer p then ra_EnsureGPUBuffer env s (read_n p) else (io_OK, s))
      in if \<not> io_ok buffer_status then Returns (io_IOError ''Failed to ensure GPU buffer'', None, s)
         else
           let read_buffer = (if need_temp_buffer p then the (ra_gpu_buffer s) else the d_scratch)
           in if read_n p mod a \<noteq> 0 \<or> read_offset p mod a \<noteq> 0
              then Undefined ''assert(read_n % options_.GDSAlignment == 0)''
              else if read_n p > length read_buffer then Undefined ''read beyond a buffer''
              else
                case cuFileRead env (read_n p) (read_offset p) of
                  Inl e \<Rightarrow> Returns (io_IOError ''cuFileRead failed'', None, s)
                | Inr dat \<Rightarrow>
                    let read_buffer = write_at read_buffer 0 dat;
                        bytes_read = length dat;
                        s = (if need_temp_buffer p then s\<lparr>ra_gpu_buffer := Some read_buffer\<rparr> else s);
                        s = (case ra_gpu_cache s of
                               Some c \<Rightarrow>
                                 if bytes_read > 0 \<and> should_prefetch p
                                 then s\<lparr>ra_gpu_cache :=
                                          Some (Put (off div BLOCK_SIZE * BLOCK_SIZE)
                                                  (take (min bytes_read BLOCK_SIZE) read_buffer) c)\<rparr>
                                 else s
                             | None \<Rightarrow> s);
                        actual_bytes = min n (sub64 bytes_read (offset_in_read p))
                    in if need_temp_buffer p
                       then
                         (case d_scratch of
                            Some d \<Rightarrow>
                              bind_outcome (memcpy_to read_buffer (offset_in_read p) actual_bytes d)
                                (\<lambda>d. Returns (io_OK, Some (slice_at SCRATCH 0 actual_bytes, Some d), s))
                          | None \<Rightarrow>
                              Returns (io_OK, Some (slice_at GPU_BUFFER (offset_in_read p) actual_bytes, None), s))
                       else Returns (io_OK, Some (slice_at SCRATCH 0 actual_bytes, Some read_buffer), s))"

definition Read ::
  "ra_env \<Rightarrow> GDSRandomAccessFile \<Rightarrow> nat \<Rightarrow> nat \<Rightarrow> bytes option \<Rightarrow>
     (IOStatus \<times> read_result option \<times> GDSRandomAccessFile) outcome" where
  "Read env s off n d_scratch =
     (if \<not> ra_initialized s then Returns (io_IOError ''GDS not initialized'', None, s)
      else
        bind_outcome (read_from_cache env s off n d_scratch)
          (\<lambda>(r, s). case r of
                       Some res \<Rightarrow> Returns (io_OK, Some res, s)
                     | None \<Rightarrow> read_from_disk env s off n d_scratch))"

section \<open>Reading to host memory\<close>

definition host_Read ::
  "ra_env \<Rightarrow> GDSRandomAccessFile \<Rightarrow> nat \<Rightarrow> nat \<Rightarrow> bytes option \<Rightarrow>
     (IOStatus \<times> (nat \<times> bytes) option \<times> GDSRandomAccessFile) outcome" where
  "host_Read env s off n scratch =
     (if \<not> ra_initialized s then Returns (io_IOError ''GDS not initialized'', None, s)
      else case scratch of
        None \<Rightarrow> Returns (io_InvalidParam ''scratch buffer is null'', None, s)
      | Some d \<Rightarrow>
          let a = GDSAlignment (ra_options s);
              is_aligned = (off mod a = 0 \<and> n mod a = 0);
              rd_offset = (if is_aligned then off else off div a * a);
              offset_in_aligned_block = (if is_aligned then 0 else off - rd_offset);
              rd_n = (if is_aligned then n else (offset_in_aligned_block + n + a - 1) div a * a);
              (buffer_status, s) = ra_EnsureGPUBuffer env s rd_n
          in if \<not> io_ok buffer_status then Returns (io_IOError ''Failed to allocate GPU buffer'', None, s)
             else
               let b = the (ra_gpu_buffer s)
               in if rd_n mod a \<noteq> 0 \<or> rd_offset mod a \<noteq> 0
                  then Undefined ''assert(read_n % options_.GDSAlignment == 0)''
                  else if rd_n > length b then Undefined ''read beyond a buffer''
                  else
                    case cuFileRead env rd_n rd_offset of
                      Inl e \<Rightarrow> Returns (io_IOError ''cuFileRead failed'', None, s)
                    | Inr dat \<Rightarrow>
                        let b = write_at b 0 dat;
                            s = s\<lparr>ra_gpu_buffer := Some b\<rparr>;
                            actual_bytes =
                              (if \<not> is_aligned \<and> length dat > offset_in_aligned_block
                               then min n (length dat - offset_in_aligned_block)
                               else if is_aligned then min n (length dat) else n)
                        in if \<not> cudaMemcpy_ok env
                           then Returns (io_IOError ''Failed to copy data from GPU to host'', None, s)
                           else
                             bind_outcome (memcpy_to b offset_in_aligned_block actual_bytes d)
                               (\<lambda>d. Returns (io_OK, Some (actual_bytes, d), s)))"

section \<open>The rest of the interface\<close>

definition Prefetch :: "nat \<Rightarrow> nat \<Rightarrow> GDSRandomAccessFile \<Rightarrow> IOStatus \<times> GDSRandomAccessFile" where
  "Prefetch off n s = (io_UnsupportedError ''Prefetch not implemented for GDS'', s)"

record FSReadRequest =
  req_offset :: nat
  req_len :: nat
  req_scratch :: "bytes option"
  req_status :: IOStatus
  req_result :: "(nat \<times> bytes) option"

fun MultiRead_loop ::
  "ra_env \<Rightarrow> GDSRandomAccessFile \<Rightarrow> FSReadRequest list \<Rightarrow> (FSReadRequest list \<times> GDSRandomAccessFile) outcome" where
  "MultiRead_loop env s [] = Returns ([], s)"
| "MultiRead_loop env s (r # rs) =
     bind_outcome (host_Read env s (req_offset r) (req_len r) (req_scratch r))
       (\<lambda>(st, res, s).
          bind_outcome (MultiRead_loop env s rs)
            (\<lambda>(rs, s). Returns (r\<lparr>req_status := st,
                                    req_result := (case res of Some x \<Rightarrow> Some x | None \<Rightarrow> req_result r)\<rparr> # rs, s)))"

definition MultiRead ::
  "ra_env \<Rightarrow> GDSRandomAccessFile \<Rightarrow> FSReadRequest list \<Rightarrow>
     (IOStatus \<times> FSReadRequest list \<times> GDSRandomAccessFile) outcome" where
  "MultiRead env s reqs =
     (if \<not> ra_initialized s then Returns (io_IOError ''GDS not initialized'', reqs, s)
      else bind_outcome (MultiRead_loop env s reqs) (\<lambda>(reqs, s). Returns (io_OK, reqs, s)))"

definition GetRequiredBufferAlignment :: "GDSRandomAccessFile \<Rightarrow> nat" where
  "GetRequiredBufferAlignment s = GDSAlignment (ra_options s)"

definition ra_GetFileSize :: "GDSRandomAccessFile \<Rightarrow> IOStatus \<times> nat" where
  "ra_GetFileSize s = (io_OK, ra_file_size s)"

definition InvalidateCache :: "nat \<Rightarrow> nat \<Rightarrow> GDSRandomAccessFile \<Rightarrow> IOStatus \<times> GDSRandomAccessFile" where
  "InvalidateCache off n s = (io_OK, s)"

definition ClearCache :: "GDSRandomAccessFile \<Rightarrow> GDSRandomAccessFile" where
  "ClearCache s = (case ra_gpu_cache s of Some c \<Rightarrow> s\<lparr>ra_gpu_cache := Some (cache_Clear c)\<rparr> | None \<Rightarrow> s)"

definition GetCacheStats :: "GDSRandomAccessFile \<Rightarrow> (nat \<times> nat \<times> nat) option" where
  "GetCacheStats s = map_option GetStats (ra_gpu_cache s)"

section \<open>Alignment\<close>

lemma unat_and_not_mask: "unat ((x :: u64) AND NOT (mask k)) = unat x - unat x mod 2 ^ k"
proof -
  have "(x AND NOT (mask k)) + take_bit k x = (x AND NOT (mask k)) OR take_bit k x"
    by (rule disjunctive_add) (auto simp: bit_simps)
  also have "\<dots> = x" by (rule bit_word_eqI) (auto simp: bit_simps)
  finally have "x AND NOT (mask k) = x - take_bit k x" by (simp add: algebra_simps)
  moreover have "unat (take_bit k x) = unat x mod 2 ^ k"
    unfolding unsigned_take_bit_eq by (simp add: take_bit_eq_mod)
  moreover have "take_bit k x \<le> x"
    using \<open>unat (take_bit k x) = unat x mod 2 ^ k\<close> by (simp add: word_le_nat_alt)
  ultimately show ?thesis by (simp add: unat_sub)
qed

lemma align_up_pow2:
  assumes "n + 2 ^ k \<le> 2 ^ 64"
  shows "align_up (2 ^ k) n = (n + 2 ^ k - 1) div 2 ^ k * 2 ^ k"
proof -
  have m: "(word_of_nat (2 ^ k) - 1 :: u64) = mask k" by (simp add: mask_eq_decr_exp)
  have p: "0 < (2::nat) ^ k" by simp
  have w: "(word_of_nat n + word_of_nat (2 ^ k) - 1 :: u64) = word_of_nat (n + 2 ^ k - 1)"
    by (simp add: of_nat_diff Suc_le_eq)
  have "unat (word_of_nat (n + 2 ^ k - 1) :: u64) = n + 2 ^ k - 1"
    using assms p by (simp add: unat_of_nat take_bit_nat_eq_self)
  then show ?thesis unfolding align_up_def m w unat_and_not_mask by (simp add: minus_mod_eq_div_mult)
qed

definition round_up :: "nat \<Rightarrow> nat \<Rightarrow> nat" where
  "round_up a n = (n + a - 1) div a * a"

lemma round_up_mod [simp]: "round_up a n mod a = 0"
  by (simp add: round_up_def)

lemma round_up_ge: "0 < a \<Longrightarrow> n \<le> round_up a n"
  using div_mult_mod_eq [of "n + a - 1" a] mod_less_divisor [of a "n + a - 1"]
  unfolding round_up_def by linarith

lemma round_up_less: "0 < a \<Longrightarrow> round_up a n < n + a"
  using div_mult_mod_eq [of "n + a - 1" a] unfolding round_up_def by linarith

lemma round_up_le:
  assumes "0 < a" and "m mod a = 0" and "n \<le> m"
  shows "round_up a n \<le> m"
proof -
  obtain q where q: "m = q * a" using assms(2) by (metis add_0_right div_mult_mod_eq)
  have "(n + a - 1) div a \<le> (q * a + (a - 1)) div a" using assms(1,3) q by (intro div_le_mono) simp
  also have "\<dots> = q + (a - 1) div a" using assms(1) by (intro div_mult_self3) simp
  also have "\<dots> = q" using assms(1) by simp
  finally show ?thesis unfolding round_up_def q by (rule mult_le_mono1)
qed

lemma round_up_id: "0 < a \<Longrightarrow> n mod a = 0 \<Longrightarrow> round_up a n = n"
  using round_up_ge [of a n] round_up_le [of a n n] by simp

section \<open>Well-formed files\<close>

definition cu_read_spec :: "bytes \<Rightarrow> ra_env \<Rightarrow> bool" where
  "cu_read_spec file env \<longleftrightarrow> (\<forall>n off. cuFileRead env n off = Inr (read_at file off n))"

definition malloc_spec :: "ra_env \<Rightarrow> bool" where
  "malloc_spec env \<longleftrightarrow> (\<forall>n. \<exists>b. cudaMalloc env n = Some b \<and> length b = n)"

text \<open>
  An open file object on a file: the recorded size is right, the object's buffer has the recorded size,
  and the cache holds whole blocks of the file. The alignment is a power of two up to a cache block.
\<close>

definition ra_ready :: "bytes \<Rightarrow> GDSOptions \<Rightarrow> bool \<Rightarrow> GDSRandomAccessFile \<Rightarrow> bool" where
  "ra_ready file opts cached s \<longleftrightarrow>
     ra_initialized s \<and> ra_options s = opts \<and> ra_file_size s = length file \<and> length file < 2 ^ 62 \<and>
     (\<exists>k \<le> 18. GDSAlignment opts = 2 ^ k) \<and>
     (\<forall>b. ra_gpu_buffer s = Some b \<longrightarrow> ra_gpu_buffer_size s = length b) \<and>
     (cached \<longleftrightarrow> ra_gpu_cache s \<noteq> None) \<and>
     (\<forall>c. ra_gpu_cache s = Some c \<longrightarrow> cache_inv c \<and> full_blocks file (cache_abs c))"

lemma align_facts:
  assumes "ra_ready file opts cached s"
  shows "0 < GDSAlignment opts" "GDSAlignment opts \<le> BLOCK_SIZE" "BLOCK_SIZE mod GDSAlignment opts = 0"
    "n < 2 ^ 63 \<Longrightarrow> align_up (GDSAlignment opts) n = round_up (GDSAlignment opts) n"
proof -
  obtain k where k: "k \<le> 18" "GDSAlignment opts = 2 ^ k" using assms by (auto simp: ra_ready_def)
  have b: "BLOCK_SIZE = 2 ^ k * 2 ^ (18 - k)" using k(1) by (simp add: BLOCK_SIZE_def flip: power_add)
  show "0 < GDSAlignment opts" "BLOCK_SIZE mod GDSAlignment opts = 0" unfolding b k(2) by simp_all
  show le: "GDSAlignment opts \<le> BLOCK_SIZE" unfolding b k(2) by simp
  assume "n < 2 ^ 63"
  moreover have "(2 :: nat) ^ k \<le> 2 ^ 63" using k(1) by (intro power_increasing) simp_all
  ultimately show "align_up (GDSAlignment opts) n = round_up (GDSAlignment opts) n"
    using align_up_pow2 [of n k] k(2) by (simp add: round_up_def)
qed

lemma ra_EnsureGPUBuffer_ok:
  assumes "ra_ready file opts cached s" and "malloc_spec env" and "n < 2 ^ 63"
  obtains b s' where "ra_EnsureGPUBuffer env s n = (io_OK, s')" "ra_gpu_buffer s' = Some b" "n \<le> length b"
    "ra_ready file opts cached s'" "ra_gpu_cache s' = ra_gpu_cache s"
proof -
  let ?r = "align_up (GDSAlignment opts) n"
  have r: "n \<le> ?r" using align_facts [OF assms(1)] assms(3) round_up_ge by simp
  have o: "ra_options s = opts" using assms(1) by (simp add: ra_ready_def)
  show thesis
  proof (cases "ra_gpu_buffer s \<noteq> None \<and> ra_gpu_buffer_size s \<ge> ?r")
    case True
    then obtain b where "ra_gpu_buffer s = Some b" by blast
    moreover have "n \<le> length b" using True r assms(1) calculation by (auto simp: ra_ready_def)
    ultimately show thesis using that True assms(1) o by (simp add: ra_EnsureGPUBuffer_def)
  next
    case False
    obtain b where b: "cudaMalloc env ?r = Some b" "length b = ?r" using assms(2) by (auto simp: malloc_spec_def)
    let ?s = "(s\<lparr>ra_gpu_buffer := Some b, ra_gpu_buffer_size := ?r\<rparr>)"
    have e: "ra_EnsureGPUBuffer env s n = (io_OK, ?s)"
      unfolding ra_EnsureGPUBuffer_def Let_def o b(1) using False by auto
    show thesis by (rule that [OF e]) (use b r assms(1) in \<open>auto simp: ra_ready_def\<close>)
  qed
qed

section \<open>Plans\<close>

definition prefetching :: "GDSOptions \<Rightarrow> bool \<Rightarrow> nat \<Rightarrow> bool" where
  "prefetching opts cached n \<longleftrightarrow>
     cached \<and> EnableCachePrefetch opts \<and> n < BLOCK_SIZE \<and> MinReadSizeForCache opts \<le> n"

lemma plan_read_plain:
  assumes "ra_ready file opts cached s" and "\<not> prefetching opts cached n"
  shows "plan_read s off n no_scratch =
     \<lparr>read_offset = off div GDSAlignment opts * GDSAlignment opts,
      read_n = round_up (GDSAlignment opts) (off mod GDSAlignment opts + n),
      offset_in_read = off mod GDSAlignment opts,
      need_temp_buffer = (\<not> (off mod GDSAlignment opts = 0 \<and> n mod GDSAlignment opts = 0) \<or> no_scratch),
      should_prefetch = False\<rparr>"
proof -
  have a: "0 < GDSAlignment opts" by (rule align_facts [OF assms(1)])
  have o: "ra_options s = opts" and c: "cached \<longleftrightarrow> ra_gpu_cache s \<noteq> None" using assms(1) by (simp_all add: ra_ready_def)
  have np: "\<not> (ra_gpu_cache s \<noteq> None \<and> EnableCachePrefetch opts \<and> n < BLOCK_SIZE \<and> n \<ge> MinReadSizeForCache opts)"
    using assms(2) c by (auto simp: prefetching_def)
  have al: "off div GDSAlignment opts * GDSAlignment opts = off" if "off mod GDSAlignment opts = 0"
    using that div_mult_mod_eq [of off "GDSAlignment opts"] by simp
  have r: "(k + GDSAlignment opts - 1) div GDSAlignment opts * GDSAlignment opts = round_up (GDSAlignment opts) k" for k
    by (simp add: round_up_def)
  show ?thesis
  proof (cases "off mod GDSAlignment opts = 0 \<and> n mod GDSAlignment opts = 0")
    case True
    then show ?thesis
      unfolding plan_read_def Let_def o if_not_P [OF np] using al round_up_id [OF a] by simp
  next
    case False
    then show ?thesis
      unfolding plan_read_def Let_def o if_not_P [OF np] r minus_div_mult_eq_mod by simp
  qed
qed

lemma plan_read_prefetch:
  assumes "ra_ready file opts cached s" and "prefetching opts cached n" and "off < length file"
  shows "plan_read s off n no_scratch =
     \<lparr>read_offset = off div BLOCK_SIZE * BLOCK_SIZE,
      read_n = round_up (GDSAlignment opts) (min BLOCK_SIZE (length file - off div BLOCK_SIZE * BLOCK_SIZE)),
      offset_in_read = off mod BLOCK_SIZE, need_temp_buffer = True, should_prefetch = True\<rparr>"
proof -
  let ?a = "GDSAlignment opts" and ?b = "off div BLOCK_SIZE * BLOCK_SIZE"
  have a: "0 < ?a" "BLOCK_SIZE mod ?a = 0" by (rule align_facts [OF assms(1)])+
  have o: "ra_options s = opts" "ra_file_size s = length file" and c: "cached \<longleftrightarrow> ra_gpu_cache s \<noteq> None"
    and l: "length file < 2 ^ 62"
    using assms(1) by (simp_all add: ra_ready_def)
  have p: "ra_gpu_cache s \<noteq> None \<and> EnableCachePrefetch opts \<and> n < BLOCK_SIZE \<and> n \<ge> MinReadSizeForCache opts"
    using assms(2) c by (auto simp: prefetching_def)
  have "?b \<le> off" by simp
  then have sub: "sub64 (length file) ?b = length file - ?b" using assms(3) l by (intro sub64_le) (linarith, simp)
  have r: "(k + ?a - 1) div ?a * ?a = round_up ?a k" for k by (simp add: round_up_def)
  have al: "?b mod ?a = 0" using a(2) by (metis mod_0 mod_mult_right_eq mult_0_right)
  show ?thesis
    unfolding plan_read_def Let_def o sub if_P [OF p] minus_div_mult_eq_mod r using al round_up_id [OF a(1)] by simp
qed

text \<open>The bytes a plan reads, in a file that contains the request.\<close>

lemma plain_covers:
  assumes "0 < a" and "off + n \<le> length file"
  shows "off mod a + n \<le> length (read_at file (off div a * a) (round_up a (off mod a + n)))"
proof -
  have "off mod a + n \<le> round_up a (off mod a + n)" using assms(1) by (rule round_up_ge)
  moreover have "off mod a + n \<le> length file - off div a * a"
    using assms(2) div_mult_mod_eq [of off a] by linarith
  ultimately show ?thesis by simp
qed

lemma prefetch_reads_block:
  assumes a: "0 < a" "BLOCK_SIZE mod a = 0"
  shows "read_at file b (round_up a (min BLOCK_SIZE (length file - b))) = read_at file b BLOCK_SIZE"
proof (cases "BLOCK_SIZE \<le> length file - b")
  case True
  then show ?thesis using round_up_id [OF a] by (simp add: min_def)
next
  case False
  then have "length file - b \<le> round_up a (min BLOCK_SIZE (length file - b))"
    using round_up_ge [OF a(1), of "length file - b"] by (simp add: min_def)
  then show ?thesis using False by (simp add: read_at_def)
qed

section \<open>The contract of a file read at random\<close>

text \<open>The bytes a slice denotes after a read.\<close>

definition result_bytes :: "GDSRandomAccessFile \<Rightarrow> read_result \<Rightarrow> bytes" where
  "result_bytes s r =
     (case slice_data (fst r) of
        NullPtr \<Rightarrow> []
      | DevPtr region off \<Rightarrow>
          read_at
            (if region = SCRATCH then (case snd r of Some d \<Rightarrow> d | None \<Rightarrow> [])
             else if region = GPU_BUFFER then (case ra_gpu_buffer s of Some b \<Rightarrow> b | None \<Rightarrow> [])
             else (case ra_gpu_cache s of Some c \<Rightarrow> (case d_cache_pool c of Some pool \<Rightarrow> pool | None \<Rightarrow> []) | None \<Rightarrow> []))
            off (slice_size (fst r)))"

lemma result_bytes_simps:
  "result_bytes s (slice_at SCRATCH 0 n, Some d) = take n d"
  "ra_gpu_buffer s = Some b \<Longrightarrow> result_bytes s (slice_at GPU_BUFFER off n, sc) = read_at b off n"
  "ra_gpu_cache s = Some c \<Longrightarrow> d_cache_pool c = Some pool \<Longrightarrow>
     result_bytes s (slice_at CACHE_POOL off n, sc) = read_at pool off n"
  by (simp_all add: result_bytes_def slice_at_def read_at_def SCRATCH_def GPU_BUFFER_def CACHE_POOL_def)

lemma slice_at_size [simp]: "slice_size (slice_at region off n) = n"
  by (simp add: slice_at_def)

text \<open>A device read is inside one cache block whenever it would prefetch.\<close>

definition one_block :: "GDSOptions \<Rightarrow> bool \<Rightarrow> nat \<Rightarrow> nat \<Rightarrow> bool" where
  "one_block opts cached off n \<longleftrightarrow> (prefetching opts cached n \<longrightarrow> off mod BLOCK_SIZE + n \<le> BLOCK_SIZE)"

definition room :: "nat \<Rightarrow> bytes option \<Rightarrow> bool" where
  "room n sc \<longleftrightarrow> (\<forall>d. sc = Some d \<longrightarrow> n \<le> length d)"

lemma take_write_at_0: "n = length xs \<Longrightarrow> n \<le> length d \<Longrightarrow> take n (write_at d 0 xs) = xs"
  by (simp add: write_at_def)

text \<open>The buffer after a read of \<open>dat\<close>, and the extraction of the request from it.\<close>

lemma extract_request:
  assumes "k + n \<le> length dat" "length dat \<le> length b" "length dat < 2 ^ 64"
  shows "min n (sub64 (length dat) k) = n" "k + n \<le> length (write_at b 0 dat)"
    "read_at (write_at b 0 dat) k n = read_at dat k n"
proof -
  show "min n (sub64 (length dat) k) = n" using assms sub64_le [of k "length dat"] by simp
  show "k + n \<le> length (write_at b 0 dat)" using assms by simp
  have "write_at b 0 dat = dat @ drop (length dat) b" by (simp add: write_at_def)
  then show "read_at (write_at b 0 dat) k n = read_at dat k n" using assms(1) by (simp add: read_at_prefix)
qed

text \<open>
  A read into the object's buffer of bytes that contain the request, with a cache that stays one of full
  blocks.
\<close>

lemma temp_read_result:
  assumes ready: "ra_ready file opts cached s" and buf: "ra_gpu_buffer s = Some b"
    and dat: "k + n \<le> length dat" "length dat \<le> length b" "length dat < 2 ^ 64"
    and sc: "room n sc"
    and s': "ra_ready file opts cached s'" "ra_gpu_buffer s' = Some (write_at b 0 dat)"
    and bytes: "read_at dat k n = read_at file off n" "off + n \<le> length file"
  shows "\<exists>res.
     (case sc of
        Some d \<Rightarrow> bind_outcome (memcpy_to (write_at b 0 dat) k (min n (sub64 (length dat) k)) d)
                   (\<lambda>d. Returns (io_OK, Some (slice_at SCRATCH 0 (min n (sub64 (length dat) k)), Some d), s'))
      | None \<Rightarrow> Returns (io_OK, Some (slice_at GPU_BUFFER k (min n (sub64 (length dat) k)), None), s')) =
       Returns (io_OK, Some res, s') \<and> slice_size (fst res) = n \<and> result_bytes s' res = read_at file off n"
proof -
  note e = extract_request [OF dat]
  show ?thesis
  proof (cases sc)
    case None
    then show ?thesis using e bytes(1) s'(2) by (simp add: result_bytes_simps)
  next
    case (Some d)
    have "n \<le> length d" using sc Some by (simp add: room_def)
    moreover have "length (read_at file off n) = n" using bytes(2) by simp
    ultimately show ?thesis
      using Some e bytes(1)
      by (simp add: memcpy_to_def result_bytes_simps take_write_at_0)
  qed
qed

lemma full_blocks_Put:
  assumes "cache_inv c" and "full_blocks file (cache_abs c)" and "off < length file"
  shows "full_blocks file (cache_abs (Put (off div BLOCK_SIZE * BLOCK_SIZE)
           (read_at file (off div BLOCK_SIZE * BLOCK_SIZE) BLOCK_SIZE) c))"
  unfolding full_blocks_def
proof (intro allI impI)
  let ?b = "off div BLOCK_SIZE * BLOCK_SIZE"
  fix k blk
  assume "cache_abs (Put ?b (read_at file ?b BLOCK_SIZE) c) k = Some blk"
  then consider (old) "cache_abs c k = Some blk"
    | (new) "k = off div BLOCK_SIZE" "blk = take BLOCK_SIZE (read_at file ?b BLOCK_SIZE)"
    using Put_abs [OF assms(1)] by fastforce
  then show "k * BLOCK_SIZE < length file \<and> blk = read_at file (k * BLOCK_SIZE) BLOCK_SIZE"
  proof cases
    case old
    then show ?thesis using assms(2) by (simp add: full_blocks_def)
  next
    case new
    have "?b \<le> off" by simp
    then have "?b < length file" using assms(3) by linarith
    then show ?thesis using new by (simp add: read_at_def)
  qed
qed

text \<open>What a read of \<open>n\<close> bytes promises of its result.\<close>

definition reads_ok ::
  "bytes \<Rightarrow> GDSOptions \<Rightarrow> bool \<Rightarrow> nat \<Rightarrow> nat \<Rightarrow> (IOStatus \<times> read_result option \<times> GDSRandomAccessFile) outcome \<Rightarrow> bool" where
  "reads_ok file opts cached off n r \<longleftrightarrow>
     (\<exists>res s'. r = Returns (io_OK, Some res, s') \<and> slice_size (fst res) = n \<and>
        result_bytes s' res = read_at file off n \<and> ra_ready file opts cached s')"

text \<open>The file object after \<open>dat\<close> was read into its buffer \<open>b\<close>.\<close>

definition after_read :: "bool \<Rightarrow> nat \<Rightarrow> bytes \<Rightarrow> bytes \<Rightarrow> GDSRandomAccessFile \<Rightarrow> GDSRandomAccessFile" where
  "after_read pre off b dat s =
     (let s = s\<lparr>ra_gpu_buffer := Some (write_at b 0 dat)\<rparr>
      in case ra_gpu_cache s of
           Some c \<Rightarrow>
             if length dat > 0 \<and> pre
             then s\<lparr>ra_gpu_cache := Some (Put (off div BLOCK_SIZE * BLOCK_SIZE)
                                            (take (min (length dat) BLOCK_SIZE) (write_at b 0 dat)) c)\<rparr>
             else s
         | None \<Rightarrow> s)"

lemma read_from_disk_temp:
  assumes "p = plan_read s off n (sc = None)" "need_temp_buffer p"
    "read_n p mod GDSAlignment (ra_options s) = 0" "read_offset p mod GDSAlignment (ra_options s) = 0"
    "ra_EnsureGPUBuffer env s (read_n p) = (io_OK, s1)" "ra_gpu_buffer s1 = Some b" "read_n p \<le> length b"
    "cuFileRead env (read_n p) (read_offset p) = Inr dat" "k = offset_in_read p"
    "s2 = after_read (should_prefetch p) off b dat s1"
  shows "read_from_disk env s off n sc =
     (case sc of
        Some d \<Rightarrow> bind_outcome (memcpy_to (write_at b 0 dat) k (min n (sub64 (length dat) k)) d)
                   (\<lambda>d. Returns (io_OK, Some (slice_at SCRATCH 0 (min n (sub64 (length dat) k)), Some d), s2))
      | None \<Rightarrow> Returns (io_OK, Some (slice_at GPU_BUFFER k (min n (sub64 (length dat) k)), None), s2))"
  unfolding read_from_disk_def after_read_def Let_def assms(1) [symmetric] assms(9,10)
  using assms(2-8) by (simp cong: option.case_cong if_cong)

text \<open>A prefetch reads the whole cache block into the buffer and inserts it.\<close>

lemma disk_prefetch_block:
  assumes ready: "ra_ready file opts cached s" and env: "cu_read_spec file env" "malloc_spec env"
    and off: "off < length file" and pre: "prefetching opts cached n"
    and dat: "dat = read_at file (off div BLOCK_SIZE * BLOCK_SIZE) BLOCK_SIZE"
  obtains b s1 s2 where "ra_ready file opts cached s1" "ra_gpu_buffer s1 = Some b"
    "length dat \<le> length b" "ra_ready file opts cached s2" "ra_gpu_buffer s2 = Some (write_at b 0 dat)"
    "read_from_disk env s off n sc =
     (case sc of
        Some d \<Rightarrow> bind_outcome (memcpy_to (write_at b 0 dat) (off mod BLOCK_SIZE) (min n (sub64 (length dat) (off mod BLOCK_SIZE))) d)
                   (\<lambda>d. Returns (io_OK, Some (slice_at SCRATCH 0 (min n (sub64 (length dat) (off mod BLOCK_SIZE))), Some d), s2))
      | None \<Rightarrow> Returns (io_OK, Some (slice_at GPU_BUFFER (off mod BLOCK_SIZE) (min n (sub64 (length dat) (off mod BLOCK_SIZE))), None), s2))"
proof -
  let ?a = "GDSAlignment opts" and ?b = "off div BLOCK_SIZE * BLOCK_SIZE"
  have a: "0 < ?a" "BLOCK_SIZE mod ?a = 0" by (rule align_facts [OF ready])+
  have o: "ra_options s = opts" using ready by (simp add: ra_ready_def)
  define p where "p = plan_read s off n (sc = None)"
  have p: "p = \<lparr>read_offset = ?b, read_n = round_up ?a (min BLOCK_SIZE (length file - ?b)),
      offset_in_read = off mod BLOCK_SIZE, need_temp_buffer = True, should_prefetch = True\<rparr>"
    unfolding p_def by (rule plan_read_prefetch [OF ready pre off])
  have rn: "read_n p < 2 ^ 63"
    using round_up_le [OF a, of "min BLOCK_SIZE (length file - ?b)"] p by (simp add: BLOCK_SIZE_def)
  obtain b s1 where s1: "ra_EnsureGPUBuffer env s (read_n p) = (io_OK, s1)" "ra_gpu_buffer s1 = Some b"
      "read_n p \<le> length b" "ra_ready file opts cached s1" "ra_gpu_cache s1 = ra_gpu_cache s"
    by (rule ra_EnsureGPUBuffer_ok [OF ready env(2) rn])
  have rd: "read_at file (read_offset p) (read_n p) = dat" using prefetch_reads_block [OF a] p dat by simp
  have ln: "length dat \<le> length b" using arg_cong [OF rd, of length] s1(3) by simp
  obtain c where c: "ra_gpu_cache s = Some c" "cache_inv c" "full_blocks file (cache_abs c)"
    using pre ready by (auto simp: prefetching_def ra_ready_def)
  have src: "take (min (length dat) BLOCK_SIZE) (write_at b 0 dat) = dat" by (simp add: write_at_def dat)
  have "?b \<le> off" by simp
  then have "?b < length file" using off by linarith
  then have ne: "dat \<noteq> []" by (simp add: dat read_at_def)
  define s2 where "s2 = s1\<lparr>ra_gpu_buffer := Some (write_at b 0 dat), ra_gpu_cache := Some (Put ?b dat c)\<rparr>"
  have ar: "s2 = after_read (should_prefetch p) off b dat s1"
    using s1(5) c(1) ne p src by (simp add: after_read_def s2_def Let_def)
  have lb: "length (write_at b 0 dat) = length b" using ln by (intro length_write_at) simp
  have s2: "ra_ready file opts cached s2" "ra_gpu_buffer s2 = Some (write_at b 0 dat)"
    using s1(2,4,5) c full_blocks_Put [OF c(2,3) off] Put_inv [OF c(2)] lb
    unfolding ra_ready_def s2_def dat by auto
  have m: "read_n p mod GDSAlignment (ra_options s) = 0" "read_offset p mod GDSAlignment (ra_options s) = 0"
    unfolding o using p a(2) by (simp_all, metis mod_0 mod_mult_right_eq mult_0_right)
  have f: "need_temp_buffer p" "off mod BLOCK_SIZE = offset_in_read p" using p by simp_all
  have "cuFileRead env (read_n p) (read_offset p) = Inr dat" using env(1) rd by (simp add: cu_read_spec_def)
  from that [OF s1(4,2) ln s2 read_from_disk_temp [OF p_def f(1) m s1(1,2,3) this f(2) ar]] show thesis .
qed

lemma disk_prefetch_ok:
  assumes ready: "ra_ready file opts cached s" and env: "cu_read_spec file env" "malloc_spec env"
    and n: "0 < n" "off + n \<le> length file" and sc: "room n sc" and one: "off mod BLOCK_SIZE + n \<le> BLOCK_SIZE"
    and pre: "prefetching opts cached n"
  shows "reads_ok file opts cached off n (read_from_disk env s off n sc)"
proof -
  define dat where "dat = read_at file (off div BLOCK_SIZE * BLOCK_SIZE) BLOCK_SIZE"
  have off: "off < length file" using n by linarith
  obtain b s1 s2 where r: "ra_ready file opts cached s1" "ra_gpu_buffer s1 = Some b"
    "length dat \<le> length b" "ra_ready file opts cached s2" "ra_gpu_buffer s2 = Some (write_at b 0 dat)"
    "read_from_disk env s off n sc =
     (case sc of
        Some d \<Rightarrow> bind_outcome (memcpy_to (write_at b 0 dat) (off mod BLOCK_SIZE) (min n (sub64 (length dat) (off mod BLOCK_SIZE))) d)
                   (\<lambda>d. Returns (io_OK, Some (slice_at SCRATCH 0 (min n (sub64 (length dat) (off mod BLOCK_SIZE))), Some d), s2))
      | None \<Rightarrow> Returns (io_OK, Some (slice_at GPU_BUFFER (off mod BLOCK_SIZE) (min n (sub64 (length dat) (off mod BLOCK_SIZE))), None), s2))"
    by (rule disk_prefetch_block [OF ready env off pre dat_def])
  have bo: "off div BLOCK_SIZE * BLOCK_SIZE + off mod BLOCK_SIZE = off" by (rule div_mult_mod_eq)
  then have "off mod BLOCK_SIZE + n \<le> length file - off div BLOCK_SIZE * BLOCK_SIZE" using n(2) by linarith
  then have cov: "off mod BLOCK_SIZE + n \<le> length dat" using one by (simp add: dat_def)
  have lt: "length dat < 2 ^ 64" by (simp add: dat_def BLOCK_SIZE_def)
  have "read_at dat (off mod BLOCK_SIZE) n = read_at file off n"
    using one by (simp add: dat_def read_at_read_at bo)
  from temp_read_result [OF r(1,2) cov r(3) lt sc r(4,5) this n(2)] r(4) show ?thesis
    unfolding reads_ok_def r(6) by blast
qed

lemma disk_temp_ok:
  assumes ready: "ra_ready file opts cached s" and env: "cu_read_spec file env" "malloc_spec env"
    and n: "off + n \<le> length file" and sc: "room n sc" and pre: "\<not> prefetching opts cached n"
    and temp: "\<not> (off mod GDSAlignment opts = 0 \<and> n mod GDSAlignment opts = 0) \<or> sc = None"
  shows "reads_ok file opts cached off n (read_from_disk env s off n sc)"
proof -
  let ?a = "GDSAlignment opts"
  let ?dat = "read_at file (off div ?a * ?a) (round_up ?a (off mod ?a + n))"
  have a: "0 < ?a" "?a \<le> BLOCK_SIZE" by (rule align_facts [OF ready])+
  have o: "ra_options s = opts" and len: "length file < 2 ^ 62" using ready by (simp_all add: ra_ready_def)
  have bs: "BLOCK_SIZE \<le> 2 ^ 60" by (simp add: BLOCK_SIZE_def)
  define p where "p = plan_read s off n (sc = None)"
  have p: "p = \<lparr>read_offset = off div ?a * ?a, read_n = round_up ?a (off mod ?a + n), offset_in_read = off mod ?a,
      need_temp_buffer = (\<not> (off mod ?a = 0 \<and> n mod ?a = 0) \<or> sc = None), should_prefetch = False\<rparr>"
    unfolding p_def by (rule plan_read_plain [OF ready pre])
  have cov: "off mod ?a + n \<le> length ?dat" by (rule plain_covers [OF a(1) n])
  have m: "read_n p mod GDSAlignment (ra_options s) = 0" "read_offset p mod GDSAlignment (ra_options s) = 0"
    unfolding o using p by simp_all
  have rn: "read_n p < 2 ^ 63"
    using round_up_less [OF a(1), of "off mod ?a + n"] mod_less_divisor [OF a(1), of off] n len a(2) bs p by simp
  obtain b s1 where s1: "ra_EnsureGPUBuffer env s (read_n p) = (io_OK, s1)" "ra_gpu_buffer s1 = Some b"
      "read_n p \<le> length b" "ra_ready file opts cached s1" "ra_gpu_cache s1 = ra_gpu_cache s"
    by (rule ra_EnsureGPUBuffer_ok [OF ready env(2) rn])
  have ln: "length ?dat \<le> length b" "length ?dat < 2 ^ 64" using p s1(3) len by simp_all
  define s2 where "s2 = s1\<lparr>ra_gpu_buffer := Some (write_at b 0 ?dat)\<rparr>"
  have ar: "s2 = after_read (should_prefetch p) off b ?dat s1"
    using p by (simp add: after_read_def s2_def Let_def split: option.splits)
  have lb: "length (write_at b 0 ?dat) = length b" using ln by (intro length_write_at) simp
  have s2: "ra_ready file opts cached s2" "ra_gpu_buffer s2 = Some (write_at b 0 ?dat)"
    using s1(2,4) lb unfolding ra_ready_def s2_def by auto
  have f: "need_temp_buffer p" "off mod ?a = offset_in_read p" using p temp by simp_all
  have rd: "cuFileRead env (read_n p) (read_offset p) = Inr ?dat" using env(1) p by (simp add: cu_read_spec_def)
  have "read_at ?dat (off mod ?a) n = read_at file off n"
    using round_up_ge [OF a(1), of "off mod ?a + n"] by (simp add: read_at_read_at)
  from temp_read_result [OF s1(4,2) cov ln sc s2 this n] s2(1) show ?thesis
    unfolding reads_ok_def read_from_disk_temp [OF p_def f(1) m s1(1,2,3) rd f(2) ar] by blast
qed

lemma disk_direct_ok:
  assumes ready: "ra_ready file opts cached s" and env: "cu_read_spec file env"
    and n: "off + n \<le> length file" and sc: "room n (Some d)" and pre: "\<not> prefetching opts cached n"
    and z: "off mod GDSAlignment opts = 0" "n mod GDSAlignment opts = 0"
  shows "reads_ok file opts cached off n (read_from_disk env s off n (Some d))"
proof -
  have a: "0 < GDSAlignment opts" by (rule align_facts [OF ready])
  have o: "ra_options s = opts" and len: "length file < 2 ^ 62" using ready by (simp_all add: ra_ready_def)
  define p where "p = plan_read s off n (Some d = None)"
  have q: "read_n p = n" "read_offset p = off" "offset_in_read p = 0" "\<not> should_prefetch p" "\<not> need_temp_buffer p"
    unfolding p_def plan_read_plain [OF ready pre]
    using z round_up_id [OF a] div_mult_mod_eq [of off "GDSAlignment opts"] by simp_all
  have ld: "n \<le> length d" using sc by (simp add: room_def)
  have sub: "min n (sub64 n 0) = n" using n len by (simp add: sub64_le)
  have ln: "length (read_at file off n) = n" using n by simp
  have rd: "cuFileRead env n off = Inr (read_at file off n)" using env by (simp add: cu_read_spec_def)
  have "read_from_disk env s off n (Some d) =
      Returns (io_OK, Some (slice_at SCRATCH 0 n, Some (write_at d 0 (read_at file off n))), s)"
    unfolding read_from_disk_def Let_def p_def [symmetric] o using q z ld ln sub rd by (simp split: option.splits)
  then show ?thesis using ready ln ld by (simp add: reads_ok_def result_bytes_simps take_write_at_0)
qed

lemma read_from_disk_ok:
  assumes "ra_ready file opts cached s" "cu_read_spec file env" "malloc_spec env" "0 < n" "off + n \<le> length file"
    "room n sc" "one_block opts cached off n"
  shows "reads_ok file opts cached off n (read_from_disk env s off n sc)"
proof (cases "prefetching opts cached n")
  case True
  then show ?thesis using disk_prefetch_ok [OF assms(1-6)] assms(7) by (simp add: one_block_def)
next
  case False
  then show ?thesis
    using disk_temp_ok [OF assms(1,2,3,5,6) False] disk_direct_ok [OF assms(1,2,5) _ False] assms(6)
    by (cases "off mod GDSAlignment opts = 0 \<and> n mod GDSAlignment opts = 0"; cases sc) auto
qed

text \<open>A request inside the file either hits the cache, with the bytes of the file, or goes to the disk.\<close>

lemma ra_ready_cache:
  "ra_ready file opts True s \<Longrightarrow> cache_inv c \<Longrightarrow> full_blocks file (cache_abs c) \<Longrightarrow>
     ra_ready file opts True (s\<lparr>ra_gpu_cache := Some c\<rparr>)"
  by (auto simp: ra_ready_def)

lemma ra_ready_buffer:
  "ra_ready file opts cached s \<Longrightarrow> ra_gpu_buffer s = Some b \<Longrightarrow> length b' = length b \<Longrightarrow>
     ra_ready file opts cached (s\<lparr>ra_gpu_buffer := Some b'\<rparr>)"
  by (auto simp: ra_ready_def)

lemma cache_hit_ok:
  assumes ready: "ra_ready file opts True s" and c: "cache_inv c" "full_blocks file (cache_abs c)"
    and hit: "TryGet off n c = (Some (p, m), c')" and sc: "room n sc"
  shows "m = n \<and>
    (\<exists>res. (case sc of
        Some d \<Rightarrow> bind_outcome (memcpy_to (case d_cache_pool c' of Some pool \<Rightarrow> pool | None \<Rightarrow> []) p n d)
                   (\<lambda>d. Returns (Some (slice_at SCRATCH 0 n, Some d), s\<lparr>ra_gpu_cache := Some c'\<rparr>))
      | None \<Rightarrow> Returns (Some (slice_at CACHE_POOL p n, None), s\<lparr>ra_gpu_cache := Some c'\<rparr>)) =
      Returns (Some res, s\<lparr>ra_gpu_cache := Some c'\<rparr>) \<and> slice_size (fst res) = n \<and>
      result_bytes (s\<lparr>ra_gpu_cache := Some c'\<rparr>) res = read_at file off n)"
proof -
  obtain b where b: "map_of (cache_map c) (off div BLOCK_SIZE) = Some b" "off mod BLOCK_SIZE + n \<le> cb_size b"
    "p = cb_d_data b + off mod BLOCK_SIZE" "m = n" "d_cache_pool c' = d_cache_pool c"
    using hit TryGet_cases [of off n c] by auto
  obtain pool where pool: "d_cache_pool c = Some pool" "cb_d_data b + cb_size b \<le> length pool"
    "cache_abs c (off div BLOCK_SIZE) = Some (read_at pool (cb_d_data b) (cb_size b))" "cb_size b \<le> BLOCK_SIZE"
    "length pool = MAX_CACHED_BLOCKS * BLOCK_SIZE"
    by (rule block_in_pool [OF c(1) b(1)])
  have blk: "read_at pool (cb_d_data b) (cb_size b) = read_at file (off div BLOCK_SIZE * BLOCK_SIZE) BLOCK_SIZE"
    using c(2) pool(3) by (simp add: full_blocks_def)
  have off: "off div BLOCK_SIZE * BLOCK_SIZE + off mod BLOCK_SIZE = off" by (rule div_mult_mod_eq)
  have "read_at pool p n = read_at (read_at file (off div BLOCK_SIZE * BLOCK_SIZE) BLOCK_SIZE) (off mod BLOCK_SIZE) n"
    unfolding b(3) using read_at_read_at [OF b(2)] blk by metis
  also have "\<dots> = read_at file off n" using b(2) pool(4) off by (simp add: read_at_read_at)
  finally have rd: "read_at pool p n = read_at file off n" .
  have fits: "p + n \<le> length pool" using b(2,3) pool(2) by simp
  have ln: "length (read_at file off n) = n" using arg_cong [OF rd, of length] fits by simp
  show ?thesis
  proof (cases sc)
    case None
    then show ?thesis using b(4,5) pool(1) rd by (simp add: result_bytes_simps)
  next
    case (Some d)
    then have "n \<le> length d" using sc by (simp add: room_def)
    then show ?thesis
      using Some b(4,5) pool(1) rd fits ln by (simp add: memcpy_to_def result_bytes_simps take_write_at_0 del: length_read_at)
  qed
qed

text \<open>What the attempts on the cache give: a correct result, or none and a file object that is still ready.\<close>

definition cache_ok ::
  "bytes \<Rightarrow> GDSOptions \<Rightarrow> bool \<Rightarrow> nat \<Rightarrow> nat \<Rightarrow> (read_result option \<times> GDSRandomAccessFile) outcome \<Rightarrow> bool" where
  "cache_ok file opts cached off n r \<longleftrightarrow>
     (\<exists>r' s'. r = Returns (r', s') \<and> ra_ready file opts cached s' \<and>
        (\<forall>res. r' = Some res \<longrightarrow> slice_size (fst res) = n \<and> result_bytes s' res = read_at file off n))"

lemma multi_block_ok:
  assumes ready: "ra_ready file opts True s" and c: "cache_inv c" "full_blocks file (cache_abs c)"
    and n: "0 < n" "off + n \<le> length file" and sc: "room n sc" and env: "malloc_spec env"
  shows "cache_ok file opts True off n
     (case sc of
        Some d \<Rightarrow>
          bind_outcome (TryGetMultiBlock off n d c)
            (\<lambda>(hit, d, c). Returns (if hit then Some (slice_at SCRATCH 0 n, Some d) else None, s\<lparr>ra_gpu_cache := Some c\<rparr>))
      | None \<Rightarrow>
          let (buffer_status, s) = ra_EnsureGPUBuffer env s n
          in if io_ok buffer_status
             then bind_outcome (TryGetMultiBlock off n (the (ra_gpu_buffer s)) c)
                    (\<lambda>(hit, b, c). Returns (if hit then Some (slice_at GPU_BUFFER 0 n, None) else None,
                                            s\<lparr>ra_gpu_buffer := Some b, ra_gpu_cache := Some c\<rparr>))
             else Returns (None, s))"
proof -
  have len: "length file < 2 ^ 62" using ready by (simp add: ra_ready_def)
  then have l64: "length file < 2 ^ 64" and n63: "n < 2 ^ 63" using n by simp_all
  have ln: "length (read_at file off n) = n" using n by simp
  show ?thesis
  proof (cases sc)
    case (Some d)
    then have d: "n \<le> length d" using sc by (simp add: room_def)
    obtain c' where c': "TryGetMultiBlock off n d c = Returns (True, write_at d 0 (read_at file off n), c') \<or>
        TryGetMultiBlock off n d c = Returns (False, d, c')" "cache_inv c'" "full_blocks file (cache_abs c')"
      by (rule TryGetMultiBlock_file [OF c n l64 d])
    then show ?thesis
      using Some ra_ready_cache [OF ready c'(2,3)] ln d
      by (auto simp: cache_ok_def result_bytes_simps take_write_at_0 simp del: length_read_at)
  next
    case None
    obtain b s1 where s1: "ra_EnsureGPUBuffer env s n = (io_OK, s1)" "ra_gpu_buffer s1 = Some b" "n \<le> length b"
        "ra_ready file opts True s1" "ra_gpu_cache s1 = ra_gpu_cache s"
      by (rule ra_EnsureGPUBuffer_ok [OF ready env n63])
    obtain c' where c': "TryGetMultiBlock off n b c = Returns (True, write_at b 0 (read_at file off n), c') \<or>
        TryGetMultiBlock off n b c = Returns (False, b, c')" "cache_inv c'" "full_blocks file (cache_abs c')"
      by (rule TryGetMultiBlock_file [OF c n l64 s1(3)])
    have "ra_ready file opts True (s1\<lparr>ra_gpu_buffer := Some b', ra_gpu_cache := Some c'\<rparr>)" if "length b' = length b" for b'
      by (rule ra_ready_cache [OF ra_ready_buffer [OF s1(4,2) that] c'(2,3)])
    moreover have "length (write_at b 0 (read_at file off n)) = length b" using ln s1(3) by (intro length_write_at) simp
    moreover have "read_at (write_at b 0 (read_at file off n)) 0 n = read_at file off n"
      using ln by (simp add: read_at_write_at_same)
    ultimately show ?thesis
      using None s1(1,2) c'(1) by (auto simp: cache_ok_def result_bytes_simps simp del: length_read_at length_write_at)
  qed
qed

lemma read_from_cache_ok:
  assumes ready: "ra_ready file opts cached s" and n: "0 < n" "off + n \<le> length file"
    and sc: "room n sc" and env: "malloc_spec env"
  shows "cache_ok file opts cached off n (read_from_cache env s off n sc)"
proof (cases "ra_gpu_cache s")
  case None
  then show ?thesis using ready by (simp add: read_from_cache_def cache_ok_def)
next
  case (Some c)
  then have cached: "cached = True" and c: "cache_inv c" "full_blocks file (cache_abs c)"
    using ready by (auto simp: ra_ready_def)
  have ready': "ra_ready file opts True s" using ready cached by simp
  obtain r c' where t: "TryGet off n c = (r, c')" by fastforce
  have c': "cache_inv c'" "full_blocks file (cache_abs c')" using TryGet_inv [OF c(1), of off n] c(2) t by simp_all
  have s': "ra_ready file opts True (s\<lparr>ra_gpu_cache := Some c'\<rparr>)" by (rule ra_ready_cache [OF ready' c'])
  show ?thesis
  proof (cases r)
    case None
    show ?thesis
      using multi_block_ok [OF s' c' n sc env] None t Some cached
      by (simp add: read_from_cache_def Let_def cong: option.case_cong)
  next
    case (Some pm)
    obtain p m where pm: "pm = (p, m)" by (cases pm)
    obtain res where "m = n" "(case sc of
        Some d \<Rightarrow> bind_outcome (memcpy_to (case d_cache_pool c' of Some pool \<Rightarrow> pool | None \<Rightarrow> []) p n d)
                   (\<lambda>d. Returns (Some (slice_at SCRATCH 0 n, Some d), s\<lparr>ra_gpu_cache := Some c'\<rparr>))
      | None \<Rightarrow> Returns (Some (slice_at CACHE_POOL p n, None), s\<lparr>ra_gpu_cache := Some c'\<rparr>)) =
      Returns (Some res, s\<lparr>ra_gpu_cache := Some c'\<rparr>)" "slice_size (fst res) = n"
      "result_bytes (s\<lparr>ra_gpu_cache := Some c'\<rparr>) res = read_at file off n"
      using cache_hit_ok [OF ready' c _ sc] t Some pm by blast
    then show ?thesis
      using t Some pm \<open>ra_gpu_cache s = Some c\<close> s' cached by (auto simp: read_from_cache_def cache_ok_def)
  qed
qed

lemma Read_ok:
  assumes "ra_ready file opts cached s" "cu_read_spec file env" "malloc_spec env" "0 < n" "off + n \<le> length file"
    "room n sc" "one_block opts cached off n"
  shows "reads_ok file opts cached off n (Read env s off n sc)"
proof -
  have i: "ra_initialized s" using assms(1) by (simp add: ra_ready_def)
  obtain r s' where r: "read_from_cache env s off n sc = Returns (r, s')" "ra_ready file opts cached s'"
    "\<And>res. r = Some res \<Longrightarrow> slice_size (fst res) = n \<and> result_bytes s' res = read_at file off n"
    using read_from_cache_ok [OF assms(1,4,5,6,3)] unfolding cache_ok_def by blast
  show ?thesis
  proof (cases r)
    case None
    then show ?thesis using read_from_disk_ok [OF r(2) assms(2-7)] i r(1) by (simp add: Read_def)
  next
    case (Some res)
    then show ?thesis using r i by (auto simp: Read_def reads_ok_def)
  qed
qed

text \<open>The host read: no cache, always through the object's buffer.\<close>

lemma host_Read_buffer:
  assumes ready: "ra_ready file opts cached s" and env: "cu_read_spec file env" "malloc_spec env" "cudaMemcpy_ok env"
    and n: "n < 2 ^ 62" and a: "a = GDSAlignment opts"
    and dat: "dat = read_at file (off div a * a) (round_up a (off mod a + n))"
  obtains b s' where "off mod a + n \<le> length b" "length dat \<le> length b" "ra_ready file opts cached s'"
    "host_Read env s off n (Some d) =
       bind_outcome (memcpy_to (write_at b 0 dat) (off mod a)
           (if off mod a = 0 \<and> n mod a = 0 then min n (length dat)
            else if length dat > off mod a then min n (length dat - off mod a) else n) d)
         (\<lambda>d. Returns (io_OK, Some (if off mod a = 0 \<and> n mod a = 0 then min n (length dat)
            else if length dat > off mod a then min n (length dat - off mod a) else n, d), s'))"
proof -
  have a': "0 < a" "a \<le> BLOCK_SIZE" using align_facts [OF ready] a by simp_all
  have o: "ra_options s = opts" "ra_initialized s" using ready by (simp_all add: ra_ready_def)
  let ?n = "round_up a (off mod a + n)"
  have rn: "?n < 2 ^ 63"
    using round_up_less [OF a'(1), of "off mod a + n"] mod_less_divisor [OF a'(1), of off] n a'(2)
    by (simp add: BLOCK_SIZE_def)
  obtain b s1 where s1: "ra_EnsureGPUBuffer env s ?n = (io_OK, s1)" "ra_gpu_buffer s1 = Some b" "?n \<le> length b"
      "ra_ready file opts cached s1" "ra_gpu_cache s1 = ra_gpu_cache s"
    by (rule ra_EnsureGPUBuffer_ok [OF ready env(2) rn])
  have ge: "off mod a + n \<le> ?n" by (rule round_up_ge [OF a'(1)])
  have ld: "length dat \<le> ?n" unfolding dat by simp
  let ?s = "s1\<lparr>ra_gpu_buffer := Some (write_at b 0 dat)\<rparr>"
  have s': "ra_ready file opts cached ?s"
    using ld s1(3) by (intro ra_ready_buffer [OF s1(4,2)] length_write_at) simp
  have rd: "cuFileRead env ?n (off div a * a) = Inr dat" using env(1) dat by (simp add: cu_read_spec_def)
  have ru: "(off mod a + n + a - 1) div a * a = ?n" by (simp add: round_up_def)
  show thesis
  proof (cases "off mod a = 0 \<and> n mod a = 0")
    case True
    then have e: "?n = n" "off div a * a = off" using round_up_id [OF a'(1), of n] div_mult_mod_eq [of off a] by simp_all
    show thesis
      by (rule that [OF _ _ s']) (use ge ld s1 True e rd o env(3) a in \<open>simp_all add: host_Read_def Let_def\<close>)
  next
    case False
    show thesis
    proof (rule that [OF _ _ s'])
      show "host_Read env s off n (Some d) =
         bind_outcome (memcpy_to (write_at b 0 dat) (off mod a)
             (if off mod a = 0 \<and> n mod a = 0 then min n (length dat)
              else if length dat > off mod a then min n (length dat - off mod a) else n) d)
           (\<lambda>d. Returns (io_OK, Some (if off mod a = 0 \<and> n mod a = 0 then min n (length dat)
              else if length dat > off mod a then min n (length dat - off mod a) else n, d), ?s))"
        unfolding host_Read_def Let_def o(1) a [symmetric] if_not_P [OF False] minus_div_mult_eq_mod ru
        using s1(1,2,3) o(2) rd env(3) False by (simp del: One_nat_def cong: if_cong)
    qed (use ge ld s1(3) in simp_all)
  qed
qed

lemma host_Read_ok:
  assumes ready: "ra_ready file opts cached s" and env: "cu_read_spec file env" "malloc_spec env" "cudaMemcpy_ok env"
    and n: "off + n \<le> length file" and d: "n \<le> length d"
  shows "\<exists>s'. host_Read env s off n (Some d) = Returns (io_OK, Some (n, write_at d 0 (read_at file off n)), s') \<and>
              ra_ready file opts cached s'"
proof -
  define a where "a = GDSAlignment opts"
  define dat where "dat = read_at file (off div a * a) (round_up a (off mod a + n))"
  have a: "0 < a" using align_facts [OF ready] a_def by simp
  have "length file < 2 ^ 62" using ready by (simp add: ra_ready_def)
  then have n62: "n < 2 ^ 62" using n by linarith
  obtain b s' where b: "off mod a + n \<le> length b" "length dat \<le> length b" "ra_ready file opts cached s'"
    "host_Read env s off n (Some d) =
       bind_outcome (memcpy_to (write_at b 0 dat) (off mod a)
           (if off mod a = 0 \<and> n mod a = 0 then min n (length dat)
            else if length dat > off mod a then min n (length dat - off mod a) else n) d)
         (\<lambda>d. Returns (io_OK, Some (if off mod a = 0 \<and> n mod a = 0 then min n (length dat)
            else if length dat > off mod a then min n (length dat - off mod a) else n, d), s'))"
    by (rule host_Read_buffer [OF ready env n62 a_def dat_def])
  have cov: "off mod a + n \<le> length dat" unfolding dat_def by (rule plain_covers [OF a n])
  have sz: "(if off mod a = 0 \<and> n mod a = 0 then min n (length dat)
      else if length dat > off mod a then min n (length dat - off mod a) else n) = n"
    using cov by (auto simp: min_def)
  have "read_at (write_at b 0 dat) (off mod a) n = read_at dat (off mod a) n"
    using cov by (simp add: write_at_def read_at_prefix)
  also have "\<dots> = read_at file off n"
    unfolding dat_def using round_up_ge [OF a, of "off mod a + n"] by (simp add: read_at_read_at)
  finally have rd: "read_at (write_at b 0 dat) (off mod a) n = read_at file off n" .
  have "length (write_at b 0 dat) = length b" using b(2) by (intro length_write_at) simp
  then show ?thesis using b(1,3,4) sz rd d by (simp add: memcpy_to_def)
qed

text \<open>
  The contract: an allowed read of a range of the file, into a destination that can take it, succeeds
  with the bytes of the file and leaves the object ready for the next one.
\<close>

fun read_all ::
  "('s \<Rightarrow> nat \<Rightarrow> nat \<Rightarrow> 'd \<Rightarrow> (IOStatus \<times> 'r option \<times> 's) outcome) \<Rightarrow> ('s \<Rightarrow> 'r \<Rightarrow> bytes) \<Rightarrow> 's \<Rightarrow>
     (nat \<times> nat \<times> 'd) list \<Rightarrow> ((IOStatus \<times> bytes option) list \<times> 's) outcome" where
  "read_all rd bytes_of s [] = Returns ([], s)"
| "read_all rd bytes_of s ((off, n, d) # reqs) =
     bind_outcome (rd s off n d)
       (\<lambda>(st, r, s'). bind_outcome (read_all rd bytes_of s' reqs)
          (\<lambda>(rs, s''). Returns ((st, map_option (bytes_of s') r) # rs, s'')))"

definition valid_request ::
  "bytes \<Rightarrow> (nat \<Rightarrow> nat \<Rightarrow> bool) \<Rightarrow> (nat \<Rightarrow> 'd \<Rightarrow> bool) \<Rightarrow> nat \<times> nat \<times> 'd \<Rightarrow> bool" where
  "valid_request content allowed dest_ok q \<longleftrightarrow>
     (case q of (off, n, d) \<Rightarrow> 0 < n \<and> off + n \<le> length content \<and> allowed off n \<and> dest_ok n d)"

locale random_file =
  fixes ready :: "'s \<Rightarrow> bool" and content :: bytes and allowed :: "nat \<Rightarrow> nat \<Rightarrow> bool"
    and dest_ok :: "nat \<Rightarrow> 'd \<Rightarrow> bool"
    and rd :: "'s \<Rightarrow> nat \<Rightarrow> nat \<Rightarrow> 'd \<Rightarrow> (IOStatus \<times> 'r option \<times> 's) outcome"
    and bytes_of :: "'s \<Rightarrow> 'r \<Rightarrow> bytes"
  assumes read_ok: "ready s \<Longrightarrow> 0 < n \<Longrightarrow> off + n \<le> length content \<Longrightarrow> allowed off n \<Longrightarrow> dest_ok n d \<Longrightarrow>
    \<exists>r s'. rd s off n d = Returns (io_OK, Some r, s') \<and> bytes_of s' r = read_at content off n \<and> ready s'"
begin

lemma read_all_ok:
  "ready s \<Longrightarrow> list_all (valid_request content allowed dest_ok) reqs \<Longrightarrow>
     \<exists>s'. read_all rd bytes_of s reqs = Returns (map (\<lambda>(off, n, d). (io_OK, Some (read_at content off n))) reqs, s') \<and>
          ready s'"
proof (induction reqs arbitrary: s)
  case (Cons q reqs)
  obtain off n d where q: "q = (off, n, d)" by (metis prod_cases3)
  have "valid_request content allowed dest_ok (off, n, d)" and rest: "list_all (valid_request content allowed dest_ok) reqs"
    using Cons.prems(2) q by simp_all
  then have v: "0 < n" "off + n \<le> length content" "allowed off n" "dest_ok n d" by (simp_all add: valid_request_def)
  obtain r s1 where r: "rd s off n d = Returns (io_OK, Some r, s1)" "bytes_of s1 r = read_at content off n" "ready s1"
    using read_ok [OF Cons.prems(1) v] by blast
  obtain s' where "read_all rd bytes_of s1 reqs = Returns (map (\<lambda>(off, n, d). (io_OK, Some (read_at content off n))) reqs, s')"
    "ready s'" using Cons.IH [OF r(3) rest] by blast
  then show ?case using r q by simp
qed simp

end

text \<open>The bytes a host read left in the caller's buffer.\<close>

definition host_bytes :: "GDSRandomAccessFile \<Rightarrow> nat \<times> bytes \<Rightarrow> bytes" where
  "host_bytes s r = take (fst r) (snd r)"

definition host_room :: "nat \<Rightarrow> bytes option \<Rightarrow> bool" where
  "host_room n sc \<longleftrightarrow> (\<exists>d. sc = Some d \<and> n \<le> length d)"

definition read_env_ok :: "bytes \<Rightarrow> ra_env \<Rightarrow> bool" where
  "read_env_ok file env \<longleftrightarrow> cu_read_spec file env \<and> malloc_spec env \<and> cudaMemcpy_ok env"

interpretation device_file: random_file
  "\<lambda>s. ra_ready data opts cached s \<and> read_env_ok data env" "data" "one_block opts cached" room "Read env" result_bytes
  for data opts cached env
proof unfold_locales
  fix s n off d
  assume a: "ra_ready data opts cached s \<and> read_env_ok data env" "0 < n" "off + n \<le> length data"
    "one_block opts cached off n" "room n d"
  then have "reads_ok data opts cached off n (Read env s off n d)"
    by (intro Read_ok) (simp_all add: read_env_ok_def)
  then show "\<exists>r s'. Read env s off n d = Returns (io_OK, Some r, s') \<and> result_bytes s' r = read_at data off n \<and>
      ra_ready data opts cached s' \<and> read_env_ok data env"
    using a(1) unfolding reads_ok_def by blast
qed

interpretation host_file: random_file
  "\<lambda>s. ra_ready data opts cached s \<and> read_env_ok data env" "data" "\<lambda>_ _. True" host_room "host_Read env" host_bytes
  for data opts cached env
proof unfold_locales
  fix s n off d
  assume a: "ra_ready data opts cached s \<and> read_env_ok data env" "0 < n" "off + n \<le> length data" "host_room n d"
  then obtain x where x: "d = Some x" "n \<le> length x" by (auto simp: host_room_def)
  have "length (read_at data off n) = n" using a(3) by simp
  then show "\<exists>r s'. host_Read env s off n d = Returns (io_OK, Some r, s') \<and> host_bytes s' r = read_at data off n \<and>
      ra_ready data opts cached s' \<and> read_env_ok data env"
    using host_Read_ok [of data opts cached s env off n x] a x
    by (auto simp: read_env_ok_def host_bytes_def take_write_at_0 simp del: length_read_at)
qed

section \<open>Opening\<close>

definition open_ok :: "bytes \<Rightarrow> 'f open_env \<Rightarrow> bool" where
  "open_ok file oenv \<longleftrightarrow>
     cudaSetDevice_ok oenv \<and> open_fd oenv \<ge> 0 \<and> fstat_size oenv = Some (length file) \<and>
     cuFileHandleRegister oenv \<noteq> None"

definition options_ok :: "GDSOptions \<Rightarrow> bool" where
  "options_ok opts \<longleftrightarrow> (\<exists>k \<le> 18. GDSAlignment opts = 2 ^ k) \<and> DefaultGPUBufferSize opts < 2 ^ 63"

lemma default_options_ok: "options_ok default_GDSOptions"
  unfolding options_ok_def default_GDSOptions_def by (auto intro: exI [of _ 12])

lemma new_GDSRandomAccessFile_ready:
  assumes "open_ok file oenv" and "malloc_spec env" and "options_ok opts" and "length file < 2 ^ 62"
  obtains s where "new_GDSRandomAccessFile env oenv filename opts = Returns s"
    and "ra_ready file opts (EnableGPUCache opts) s"
proof -
  obtain pool where pool: "cudaMalloc env (BLOCK_SIZE * MAX_CACHED_BLOCKS) = Some pool"
    "length pool = MAX_CACHED_BLOCKS * BLOCK_SIZE"
    using assms(2) unfolding malloc_spec_def by (metis mult.commute)
  let ?c = "if EnableGPUCache opts then Some (new_GPUBlockCache (Some pool)) else None"
  define s0 where "s0 = \<lparr>ra_filename = filename, ra_options = opts, ra_file_fd = open_fd oenv, ra_initialized = True,
      ra_file_size = length file, ra_gpu_buffer = None, ra_gpu_buffer_size = 0, ra_gpu_cache = ?c\<rparr>"
  have "cache_inv (new_GPUBlockCache (Some pool))" by (rule new_cache_inv) (use pool in simp)
  moreover have "full_blocks file (cache_abs (new_GPUBlockCache (Some pool)))"
    by (simp add: full_blocks_def cache_abs_def new_GPUBlockCache_def)
  ultimately have r0: "ra_ready file opts (EnableGPUCache opts) s0"
    using assms(3,4) by (auto simp: ra_ready_def s0_def options_ok_def)
  have "DefaultGPUBufferSize opts < 2 ^ 63" using assms(3) by (simp add: options_ok_def)
  then obtain b s1 where s1: "ra_EnsureGPUBuffer env s0 (DefaultGPUBufferSize opts) = (io_OK, s1)"
    "ra_gpu_buffer s1 = Some b" "DefaultGPUBufferSize opts \<le> length b" "ra_ready file opts (EnableGPUCache opts) s1"
    "ra_gpu_cache s1 = ra_gpu_cache s0"
    by (rule ra_EnsureGPUBuffer_ok [OF r0 assms(2)])
  have init: "ra_EnsureGPUBuffer env (s\<lparr>ra_initialized := x\<rparr>) n =
      (fst (ra_EnsureGPUBuffer env s n), (snd (ra_EnsureGPUBuffer env s n))\<lparr>ra_initialized := x\<rparr>)" for s x n
    by (simp add: ra_EnsureGPUBuffer_def Let_def split: option.splits)
  have "new_GDSRandomAccessFile env oenv filename opts = Returns (s1\<lparr>ra_initialized := True\<rparr>)"
    using assms(1) s1(1) init [where s = s0 and x = False] pool
    by (cases "EnableGPUCache opts") (simp_all add: new_GDSRandomAccessFile_def ra_InitializeGDS_def open_ok_def s0_def Let_def)
  moreover have "ra_ready file opts (EnableGPUCache opts) (s1\<lparr>ra_initialized := True\<rparr>)"
    using s1(4) by (simp add: ra_ready_def)
  ultimately show thesis by (rule that)
qed

section \<open>Example files\<close>

definition example_env :: "bytes \<Rightarrow> ra_env" where
  "example_env content =
     \<lparr>cuFileRead = (\<lambda>n off. Inr (read_at content off n)), cudaMalloc = (\<lambda>n. Some (replicate n 0)), cudaMemcpy_ok = True\<rparr>"

definition example_open :: "bytes \<Rightarrow> unit open_env" where
  "example_open content =
     \<lparr>cudaSetDevice_ok = True, open_fd = 3, fstat_size = Some (length content),
      cuFileHandleRegister = Some \<lparr>cuFileWrite = (\<lambda>_ dat _. (int (length dat), ())), cuMallocOk = (\<lambda>_. True), cu_state = ()\<rparr>,
      initial_write_buffer = []\<rparr>"

definition example_file :: "bytes \<Rightarrow> GDSRandomAccessFile" where
  "example_file content =
     \<lparr>ra_filename = ''f'', ra_options = default_GDSOptions, ra_file_fd = 3, ra_initialized = True,
      ra_file_size = length content, ra_gpu_buffer = None, ra_gpu_buffer_size = 0,
      ra_gpu_cache = Some (new_GPUBlockCache (Some zero_pool))\<rparr>"

lemma example_env_ok: "read_env_ok content (example_env content)"
  by (simp add: read_env_ok_def cu_read_spec_def malloc_spec_def example_env_def)

lemma example_open_ok: "open_ok content (example_open content)"
  by (simp add: open_ok_def example_open_def)

lemma example_file_ready: "length content < 2 ^ 62 \<Longrightarrow> ra_ready content default_GDSOptions True (example_file content)"
  using default_options_ok reachable_inv [OF zero_cache_reachable]
  by (simp add: ra_ready_def options_ok_def example_file_def full_blocks_def cache_abs_def new_GPUBlockCache_def)

section \<open>Properties\<close>

text \<open>
  C12: after a file was opened, every sequence of device reads, with or without a scratch buffer and with or
  without the cache, returns for each request the bytes the file has there, provided the request lies in
  the file and, when the whole cache block would be prefetched, inside one cache block.
\<close>

theorem device_reads_return_file_bytes:
  assumes "open_ok content oenv" and "read_env_ok content env" and "options_ok opts" and "length content < 2 ^ 62"
    and "list_all (valid_request content (one_block opts (EnableGPUCache opts)) room) reqs"
  shows "\<exists>s s'. new_GDSRandomAccessFile env oenv filename opts = Returns s \<and>
           read_all (Read env) result_bytes s reqs =
             Returns (map (\<lambda>(off, n, d). (io_OK, Some (read_at content off n))) reqs, s')"
proof -
  have m: "malloc_spec env" using assms(2) by (simp add: read_env_ok_def)
  obtain s where s: "new_GDSRandomAccessFile env oenv filename opts = Returns s"
    "ra_ready content opts (EnableGPUCache opts) s"
    by (rule new_GDSRandomAccessFile_ready [OF assms(1) m assms(3,4)])
  show ?thesis using device_file.read_all_ok [OF conjI [OF s(2) assms(2)] assms(5)] s(1) by blast
qed

theorem device_reads_return_file_bytes_witness:
  "\<exists>s s'. new_GDSRandomAccessFile (example_env [1, 2, 3, 4, 5]) (example_open [1, 2, 3, 4, 5]) ''f'' default_GDSOptions = Returns s \<and>
     read_all (Read (example_env [1, 2, 3, 4, 5])) result_bytes s [(1, 3, None), (0, 2, Some [0, 0, 0])] =
       Returns ([(io_OK, Some [2, 3, 4]), (io_OK, Some [1, 2])], s')"
proof -
  have "list_all (valid_request [1, 2, 3, 4, 5] (one_block default_GDSOptions (EnableGPUCache default_GDSOptions)) room)
      [(1, 3, None), (0, 2, Some [0, 0, 0])]"
    by (simp add: valid_request_def one_block_def room_def BLOCK_SIZE_def)
  from device_reads_return_file_bytes [OF example_open_ok example_env_ok default_options_ok _ this] show ?thesis
    by (simp add: read_at_def)
qed

text \<open>
  C26: a batch of host reads of ranges of the file gives every request an OK status and exactly the
  requested bytes at the start of its scratch buffer.
\<close>

theorem MultiRead_returns_file_bytes:
  assumes "ra_ready content opts cached s" and "read_env_ok content env"
    and "list_all (\<lambda>r. req_offset r + req_len r \<le> length content \<and> host_room (req_len r) (req_scratch r)) reqs"
  shows "\<exists>reqs' s'. MultiRead env s reqs = Returns (io_OK, reqs', s') \<and> ra_ready content opts cached s' \<and>
           map req_status reqs' = map (\<lambda>_. io_OK) reqs \<and>
           map req_result reqs' =
             map (\<lambda>r. Some (req_len r, write_at (the (req_scratch r)) 0 (read_at content (req_offset r) (req_len r)))) reqs"
proof -
  have env: "cu_read_spec content env" "malloc_spec env" "cudaMemcpy_ok env" using assms(2) by (simp_all add: read_env_ok_def)
  have "\<exists>reqs' s'. MultiRead_loop env s reqs = Returns (reqs', s') \<and> ra_ready content opts cached s' \<and>
           map req_status reqs' = map (\<lambda>_. io_OK) reqs \<and>
           map req_result reqs' =
             map (\<lambda>r. Some (req_len r, write_at (the (req_scratch r)) 0 (read_at content (req_offset r) (req_len r)))) reqs"
    using assms(1,3)
  proof (induction reqs arbitrary: s)
    case (Cons r reqs)
    obtain d where d: "req_scratch r = Some d" "req_len r \<le> length d" "req_offset r + req_len r \<le> length content"
      using Cons.prems(2) by (auto simp: host_room_def)
    obtain s1 where s1: "host_Read env s (req_offset r) (req_len r) (Some d) =
        Returns (io_OK, Some (req_len r, write_at d 0 (read_at content (req_offset r) (req_len r))), s1)"
      "ra_ready content opts cached s1"
      using host_Read_ok [OF Cons.prems(1) env d(3,2)] by blast
    then show ?case using Cons.IH [OF s1(2)] Cons.prems(2) d by auto
  qed simp
  moreover have "ra_initialized s" using assms(1) by (simp add: ra_ready_def)
  ultimately show ?thesis by (auto simp: MultiRead_def)
qed

theorem MultiRead_returns_file_bytes_witness:
  "\<exists>reqs' s'. MultiRead (example_env [1, 2, 3]) (example_file [1, 2, 3])
      [\<lparr>req_offset = 1, req_len = 2, req_scratch = Some [0, 0, 0], req_status = io_OK, req_result = None\<rparr>] = Returns (io_OK, reqs', s') \<and>
    map req_result reqs' = [Some (2, [2, 3, 0])]"
  using MultiRead_returns_file_bytes [OF example_file_ready example_env_ok, of "[1, 2, 3]"
      "[\<lparr>req_offset = 1, req_len = 2, req_scratch = Some [0, 0, 0], req_status = io_OK, req_result = None\<rparr>]"]
  by (auto simp: host_room_def read_at_def write_at_def)

lemma read_from_cache_cold:
  assumes ready: "ra_ready file opts True s" and env: "malloc_spec env"
    and c: "ra_gpu_cache s = Some c" "cache_map c = []" and n: "0 < n" "off + n \<le> length file"
  obtains s' where "read_from_cache env s off n None = Returns (None, s')" "ra_ready file opts True s'"
proof -
  have ok: "cache_ok file opts True off n (read_from_cache env s off n None)"
    by (rule read_from_cache_ok [OF ready n _ env]) (simp add: room_def)
  define c1 where "c1 = c\<lparr>cache_misses := cache_misses c + 1\<rparr>"
  have t: "TryGet off n c = (None, c1)" using c(2) by (simp add: TryGet_def Let_def c1_def)
  have "off div BLOCK_SIZE \<le> (off + n - 1) div BLOCK_SIZE" using n(1) by (intro div_le_mono) simp
  then have "TryGetMultiBlock off n b c1 = Returns (False, b, c1\<lparr>cache_misses := cache_misses c1 + 1\<rparr>)" for b
    using c(2) by (intro multi_block_miss [OF _ n(1)]) (auto simp: c1_def)
  then have "\<exists>s'. read_from_cache env s off n None = Returns (None, s')"
    using c(1) t by (auto simp: read_from_cache_def Let_def split: prod.splits)
  then show thesis using ok that by (auto simp: cache_ok_def)
qed

text \<open>
  A small device read that crosses from one cache block into the next, with an empty cache, returns OK
  and a result cut off at the block boundary, although the file has all the requested bytes.
\<close>

lemma Read_cut_at_block_boundary:
  assumes "ra_ready content opts True s" and "read_env_ok content env"
    and "ra_gpu_cache s = Some c" and "cache_map c = []"
    and "prefetching opts True n" and "0 < n" and "off + n \<le> length content" and "BLOCK_SIZE < off mod BLOCK_SIZE + n"
  shows "\<exists>res s'. Read env s off n None = Returns (io_OK, Some res, s') \<and>
           slice_size (fst res) = BLOCK_SIZE - off mod BLOCK_SIZE \<and> slice_size (fst res) < n"
proof -
  define dat where "dat = read_at content (off div BLOCK_SIZE * BLOCK_SIZE) BLOCK_SIZE"
  have env: "cu_read_spec content env" "malloc_spec env" using assms(2) by (simp_all add: read_env_ok_def)
  have init: "ra_initialized s" using assms(1) by (simp add: ra_ready_def)
  have off: "off < length content" using assms(6,7) by linarith
  obtain s1 where s1: "read_from_cache env s off n None = Returns (None, s1)" "ra_ready content opts True s1"
    by (rule read_from_cache_cold [OF assms(1) env(2) assms(3,4,6,7)])
  obtain b s2 where r: "read_from_disk env s1 off n None =
      Returns (io_OK, Some (slice_at GPU_BUFFER (off mod BLOCK_SIZE) (min n (sub64 (length dat) (off mod BLOCK_SIZE))), None), s2)"
    by (rule disk_prefetch_block [OF s1(2) env off assms(5) dat_def, where sc = None]) auto
  have "off div BLOCK_SIZE * BLOCK_SIZE + off mod BLOCK_SIZE = off" by (rule div_mult_mod_eq)
  then have "BLOCK_SIZE \<le> length content - off div BLOCK_SIZE * BLOCK_SIZE" using assms(7,8) by linarith
  then have ld: "length dat = BLOCK_SIZE" by (simp add: dat_def)
  have "off mod BLOCK_SIZE < BLOCK_SIZE" by simp
  then have "sub64 (length dat) (off mod BLOCK_SIZE) = BLOCK_SIZE - off mod BLOCK_SIZE"
    unfolding ld by (intro sub64_le) (simp_all add: BLOCK_SIZE_def)
  moreover have "BLOCK_SIZE - off mod BLOCK_SIZE < n" using assms(8) \<open>off mod BLOCK_SIZE < BLOCK_SIZE\<close> by linarith
  ultimately show ?thesis using r s1(1) init by (auto simp: Read_def)
qed

text \<open>
  A host read that is not aligned and starts at or after the end of the file reports success and
  \<open>n\<close> bytes, which are left over in the device buffer and not bytes of the file.
\<close>

lemma host_Read_past_end:
  assumes "ra_ready content opts cached s" and "read_env_ok content env"
    and "off mod GDSAlignment opts \<noteq> 0" and "length content \<le> off" and "n < 2 ^ 62" and "n \<le> length d"
  shows "\<exists>d' s'. host_Read env s off n (Some d) = Returns (io_OK, Some (n, d'), s') \<and>
                 read_at content off n = []"
proof -
  define a where "a = GDSAlignment opts"
  define dat where "dat = read_at content (off div a * a) (round_up a (off mod a + n))"
  have env: "cu_read_spec content env" "malloc_spec env" "cudaMemcpy_ok env" using assms(2) by (simp_all add: read_env_ok_def)
  obtain b s' where b: "off mod a + n \<le> length b" "length dat \<le> length b" "ra_ready content opts cached s'"
    "host_Read env s off n (Some d) =
       bind_outcome (memcpy_to (write_at b 0 dat) (off mod a)
           (if off mod a = 0 \<and> n mod a = 0 then min n (length dat)
            else if length dat > off mod a then min n (length dat - off mod a) else n) d)
         (\<lambda>d. Returns (io_OK, Some (if off mod a = 0 \<and> n mod a = 0 then min n (length dat)
            else if length dat > off mod a then min n (length dat - off mod a) else n, d), s'))"
    by (rule host_Read_buffer [OF assms(1) env assms(5) a_def dat_def])
  have "off div a * a + off mod a = off" by (rule div_mult_mod_eq)
  then have "length dat \<le> off mod a" using assms(4) unfolding dat_def by (simp, linarith)
  moreover have "off mod a \<noteq> 0" using assms(3) a_def by simp
  moreover have "length (write_at b 0 dat) = length b" using b(2) by (intro length_write_at) simp
  ultimately show ?thesis using b(1,4) assms(4,6) by (auto simp: memcpy_to_def read_at_def)
qed

end
