(* ===== verification/GDS_Block_Seek.thy ===== *)
theory GDS_Block_Seek
  imports GDS_Block
begin

text \<open>
  The block iterator on well-formed blocks. A block in RocksDB's format is a sequence of entries, each
  with the number of bytes its key shares with the key before, the rest of the key and the value,
  followed by the offsets of the restart points and their number. On such a block the metadata kernel
  finds the parts, \<open>SeekToFirstKernel\<close> and \<open>NextKernel\<close> enumerate the entries, and \<open>SeekKernel\<close> stops
  at the first key that is not below the target. The scans end on every block, corrupt ones included.
\<close>

section \<open>The block format\<close>

type_synonym entry = "nat \<times> bytes \<times> bytes"

definition enc_entry :: "entry \<Rightarrow> bytes" where
  "enc_entry e =
     (case e of (sh, d, v) \<Rightarrow>
        PutVarint32 (word_of_nat sh) @ PutVarint32 (word_of_nat (length d)) @ PutVarint32 (word_of_nat (length v)) @ d @ v)"

definition entries_bytes :: "entry list \<Rightarrow> bytes" where
  "entries_bytes es = concat (map enc_entry es)"

fun keys_from :: "bytes \<Rightarrow> entry list \<Rightarrow> bytes list" where
  "keys_from k [] = []"
| "keys_from k ((sh, d, v) # es) = (take sh k @ d) # keys_from (take sh k @ d) es"

fun shares_ok :: "bytes \<Rightarrow> entry list \<Rightarrow> bool" where
  "shares_ok k [] = True"
| "shares_ok k ((sh, d, v) # es) \<longleftrightarrow> sh \<le> length k \<and> shares_ok (take sh k @ d) es"

definition epos :: "entry list \<Rightarrow> nat \<Rightarrow> nat" where
  "epos es i = length (entries_bytes (take i es))"

definition block_bytes :: "entry list \<Rightarrow> nat list \<Rightarrow> bytes" where
  "block_bytes es rs =
     entries_bytes es @ concat (map (\<lambda>r. PutFixed32 (word_of_nat (epos es r))) rs) @ PutFixed32 (word_of_nat (length rs))"

definition wf_block :: "entry list \<Rightarrow> nat list \<Rightarrow> bool" where
  "wf_block es rs \<longleftrightarrow>
     shares_ok [] es \<and> rs \<noteq> [] \<and> hd rs = 0 \<and> list_all (\<lambda>r. r < length es \<and> fst (es ! r) = 0) rs \<and>
     list_all (\<lambda>k. internal_key k \<and> length k \<le> kKeyBufferSize) (keys_from [] es) \<and>
     sorted_wrt (\<lambda>a b. CompareInternalKeys a b < 0) (keys_from [] es) \<and>
     length (block_bytes es rs) < 2 ^ 31"

section \<open>Positions and keys\<close>

lemma length_keys_from [simp]: "length (keys_from k es) = length es"
  by (induction k es rule: keys_from.induct) auto

definition prev_key :: "entry list \<Rightarrow> nat \<Rightarrow> bytes" where
  "prev_key es i = (if i = 0 then [] else keys_from [] es ! (i - 1))"

lemma keys_from_nth:
  "i < length es \<Longrightarrow> es ! i = (sh, d, v) \<Longrightarrow>
     keys_from k es ! i = take sh (if i = 0 then k else keys_from k es ! (i - 1)) @ d"
proof (induction k es arbitrary: i rule: keys_from.induct)
  case (2 k sh' d' v' es)
  show ?case
  proof (cases i)
    case 0
    then show ?thesis using "2.prems" by simp
  next
    case (Suc j)
    then show ?thesis using "2.IH" [of j] "2.prems" by (cases j) auto
  qed
qed simp

lemma shares_ok_nth:
  "shares_ok k es \<Longrightarrow> i < length es \<Longrightarrow> es ! i = (sh, d, v) \<Longrightarrow>
     sh \<le> length (if i = 0 then k else keys_from k es ! (i - 1))"
proof (induction k es arbitrary: i rule: keys_from.induct)
  case (2 k sh' d' v' es)
  show ?case
  proof (cases i)
    case 0
    then show ?thesis using "2.prems" by simp
  next
    case (Suc j)
    then show ?thesis using "2.IH" [of j] "2.prems" by (cases j) auto
  qed
qed simp

lemma epos_Suc: "i < length es \<Longrightarrow> epos es (Suc i) = epos es i + length (enc_entry (es ! i))"
  by (simp add: epos_def entries_bytes_def take_Suc_conv_app_nth)

lemma epos_0 [simp]: "epos es 0 = 0"
  by (simp add: epos_def entries_bytes_def)

lemma epos_length [simp]: "epos es (length es) = length (entries_bytes es)"
  by (simp add: epos_def)

lemma entries_bytes_split:
  "i < length es \<Longrightarrow> entries_bytes es = entries_bytes (take i es) @ enc_entry (es ! i) @ entries_bytes (drop (Suc i) es)"
  unfolding entries_bytes_def using arg_cong [OF id_take_nth_drop, of i es "\<lambda>x. concat (map enc_entry x)"] by simp

lemma epos_le: "i \<le> length es \<Longrightarrow> epos es i \<le> length (entries_bytes es)"
  unfolding epos_def entries_bytes_def by (metis length_concat_take_le take_map)

lemma enc_entry_length: "3 \<le> length (enc_entry e)"
proof -
  obtain sh d v where e: "e = (sh, d, v)" by (metis prod_cases3)
  show ?thesis
    using PutVarint32_bounds(1) [of "word_of_nat sh"] PutVarint32_bounds(1) [of "word_of_nat (length d)"]
      PutVarint32_bounds(1) [of "word_of_nat (length v)"] by (simp add: e enc_entry_def)
qed

lemma epos_mono_less: "i < j \<Longrightarrow> j \<le> length es \<Longrightarrow> epos es i < epos es j"
proof (induction j)
  case (Suc j)
  have "0 < length (enc_entry (es ! j))" using enc_entry_length [of "es ! j"] by linarith
  then show ?case using Suc epos_Suc [of j es] by (cases "i = j") auto
qed simp

lemma block_lengths:
  assumes "wf_block es rs"
  shows "length (block_bytes es rs) = length (entries_bytes es) + 4 * length rs + 4"
    "length (entries_bytes es) + 4 * length rs + 4 < 2 ^ 31"
proof -
  have "length (concat (map (\<lambda>r. PutFixed32 (word_of_nat (epos es r))) rs)) = 4 * length rs"
    by (induction rs) auto
  then show l: "length (block_bytes es rs) = length (entries_bytes es) + 4 * length rs + 4"
    by (simp add: block_bytes_def)
  then show "length (entries_bytes es) + 4 * length rs + 4 < 2 ^ 31" using assms by (simp add: wf_block_def)
qed

text \<open>The offset of the key bytes of an entry.\<close>

definition kpos :: "entry list \<Rightarrow> nat \<Rightarrow> nat" where
  "kpos es i = (case es ! i of (sh, d, v) \<Rightarrow> epos es (Suc i) - length v - length d)"

lemma kpos_eq:
  assumes "i < length es" and "es ! i = (sh, d, v)"
  shows "kpos es i + length d + length v = epos es (Suc i)"
  using epos_Suc [OF assms(1)] assms(2) by (simp add: kpos_def enc_entry_def)

lemma entry_at_kpos:
  assumes "i < length es" and "es ! i = (sh, d, v)"
  shows "drop (kpos es i) (entries_bytes es) = d @ v @ entries_bytes (drop (Suc i) es)"
proof -
  have "kpos es i = length (entries_bytes (take i es)) + (length (enc_entry (es ! i)) - length (d @ v))"
    using kpos_eq [OF assms] epos_Suc [OF assms(1)] assms(2) by (simp add: enc_entry_def epos_def)
  then show ?thesis
    unfolding entries_bytes_split [OF assms(1)] using assms(2) by (simp add: enc_entry_def)
qed

definition block_state :: "entry list \<Rightarrow> nat list \<Rightarrow> GDSDataBlockIterState \<Rightarrow> bool" where
  "block_state es rs s \<longleftrightarrow>
     bi_data s = block_bytes es rs \<and> bi_restarts s = word_of_nat (length (entries_bytes es)) \<and>
     bi_num_restarts s = word_of_nat (length rs)"

lemma unat_small: "n < 2 ^ 31 \<Longrightarrow> unat (word_of_nat n :: u32) = n"
  by (simp add: unat_of_nat take_bit_nat_eq_self)

lemma sint_small: "n < 2 ^ 31 \<Longrightarrow> sint (word_of_nat n :: u32) = int n"
  by (simp add: signed_of_nat signed_take_bit_int_eq_self)

section \<open>Reading one entry\<close>

lemma take_entries: "take (length (entries_bytes es)) (block_bytes es rs) = entries_bytes es"
  by (simp add: block_bytes_def)

lemma entry_lengths_small:
  assumes "wf_block es rs" and "i < length es" and "es ! i = (sh, d, v)"
  shows "length d + length v < 2 ^ 31" "sh + length d \<le> kKeyBufferSize"
    "length (keys_from [] es ! i) = sh + length d"
proof -
  have "kpos es i + length d + length v \<le> length (entries_bytes es)"
    using kpos_eq [OF assms(2,3)] epos_le [of "Suc i" es] assms(2) by simp
  then show "length d + length v < 2 ^ 31" using block_lengths(2) [OF assms(1)] by linarith
  have "shares_ok [] es" using assms(1) by (simp add: wf_block_def)
  then show l: "length (keys_from [] es ! i) = sh + length d"
    using shares_ok_nth [of "[]" es i] keys_from_nth [OF assms(2,3), of "[]"] assms(2,3) by simp
  have "length (keys_from [] es ! i) \<le> kKeyBufferSize"
    using assms(1,2) by (simp add: wf_block_def list_all_length)
  then show "sh + length d \<le> kKeyBufferSize" using l by simp
qed

lemma decode_entry_at_entry:
  assumes "wf_block es rs" and "block_state es rs s" and "i < length es" and "es ! i = (sh, d, v)"
  shows "decode_entry_at s (epos es i) =
     Returns (Some (word_of_nat sh, word_of_nat (length d), word_of_nat (length v), kpos es i))"
proof -
  let ?E = "entries_bytes es" and ?r = "entries_bytes (drop (Suc i) es)"
  have len: "length ?E < 2 ^ 31" "length ?E \<le> length (block_bytes es rs)" using block_lengths [OF assms(1)] by simp_all
  have lim: "unat (bi_restarts s) = length ?E" using assms(2) len(1) by (simp add: block_state_def unat_small)
  have small: "length d + length v < 2 ^ 31" by (rule entry_lengths_small [OF assms(1,3,4)])
  have "drop (epos es i) ?E = enc_entry (es ! i) @ ?r"
    by (subst entries_bytes_split [OF assms(3)]) (simp add: epos_def)
  then have p: "drop (epos es i) (take (length ?E) (bi_data s)) =
      PutVarint32 (word_of_nat sh) @ PutVarint32 (word_of_nat (length d)) @ PutVarint32 (word_of_nat (length v)) @ d @ v @ ?r"
    using assms(2,4) by (simp add: block_state_def take_entries enc_entry_def)
  have "length (d @ v @ ?r) \<le> length ?E"
    unfolding entries_bytes_split [OF assms(3)] using assms(4) by (simp add: enc_entry_def)
  then have fits: "length (d @ v @ ?r) < 2 ^ 32" using len(1) by simp
  have "DecodeEntry (drop (epos es i) (take (length ?E) (bi_data s))) =
      Some (word_of_nat sh, word_of_nat (length d), word_of_nat (length v), d @ v @ ?r)"
    unfolding p using DecodeEntry_encoded [OF _ fits, of "word_of_nat (length d)" "word_of_nat (length v)"] small
    by (simp add: unat_small)
  moreover have "length ?E - length (d @ v @ ?r) = kpos es i"
  proof -
    have "length (drop (kpos es i) ?E) = length (d @ v @ ?r)" using entry_at_kpos [OF assms(3,4)] by simp
    moreover have "kpos es i \<le> length ?E" using kpos_eq [OF assms(3,4)] epos_le [of "Suc i" es] assms(3) by simp
    ultimately show ?thesis by simp
  qed
  ultimately show ?thesis
    using lim len(2) assms(2) by (simp add: decode_entry_at_def block_state_def)
qed

lemma entry_bytes_at:
  assumes "i < length es" and "es ! i = (sh, d, v)"
  shows "read_at (block_bytes es rs) (kpos es i) (length d) = d"
    "read_at (block_bytes es rs) (kpos es i + length d) (length v) = v"
    "kpos es i + length d + length v \<le> length (entries_bytes es)"
proof -
  show l: "kpos es i + length d + length v \<le> length (entries_bytes es)"
    using kpos_eq [OF assms] epos_le [of "Suc i" es] assms(1) by simp
  have "drop (kpos es i) (block_bytes es rs) = d @ v @ entries_bytes (drop (Suc i) es) @ drop (length (entries_bytes es)) (block_bytes es rs)"
    using entry_at_kpos [OF assms] l by (simp add: block_bytes_def)
  then show "read_at (block_bytes es rs) (kpos es i) (length d) = d"
    "read_at (block_bytes es rs) (kpos es i + length d) (length v) = v"
    by (simp_all add: read_at_def add.commute flip: drop_drop)
qed

lemma restart_point_at:
  assumes "wf_block es rs" and "block_state es rs s" and "j < length rs"
  shows "block_GetRestartPoint (bi_data s) (bi_restarts s) (word_of_nat j) = Returns (word_of_nat (epos es (rs ! j)))"
proof -
  let ?f = "\<lambda>r. PutFixed32 (word_of_nat (epos es r))"
  have len: "length (block_bytes es rs) = length (entries_bytes es) + 4 * length rs + 4"
    "length (entries_bytes es) + 4 * length rs + 4 < 2 ^ 31"
    using block_lengths [OF assms(1)] by simp_all
  have u: "unat (bi_restarts s) = length (entries_bytes es)" "unat (word_of_nat j :: u32) = j"
    using assms(2,3) len(2) by (simp_all add: block_state_def unat_small)
  have "length (concat (map ?f (take j rs))) = 4 * j"
    using assms(3) by (induction j) (simp_all add: take_Suc_conv_app_nth)
  moreover have "concat (map ?f rs) = concat (map ?f (take j rs)) @ ?f (rs ! j) @ concat (map ?f (drop (Suc j) rs))"
    using arg_cong [OF id_take_nth_drop [OF assms(3)], of "\<lambda>x. concat (map ?f x)"] by simp
  ultimately have "drop (length (entries_bytes es) + j * 4) (block_bytes es rs) =
      ?f (rs ! j) @ concat (map ?f (drop (Suc j) rs)) @ PutFixed32 (word_of_nat (length rs))"
    by (simp add: block_bytes_def mult.commute)
  then show ?thesis
    using u len assms(2,3) by (simp add: block_GetRestartPoint_def Let_def block_state_def)
qed

text \<open>
  The key buffer before an entry is read holds the bytes the entry shares with its predecessor; after
  it was read it holds the entry's key.
\<close>

definition buffer_for :: "entry list \<Rightarrow> nat \<Rightarrow> bytes \<Rightarrow> bool" where
  "buffer_for es i kb \<longleftrightarrow>
     length kb = kKeyBufferSize \<and> take (fst (es ! i)) kb = take (fst (es ! i)) (prev_key es i)"

lemma buffer_for_next:
  assumes "length kb = kKeyBufferSize" and "take (length (keys_from [] es ! i)) kb = keys_from [] es ! i"
    and "wf_block es rs" and "Suc i < length es"
  shows "buffer_for es (Suc i) kb"
proof -
  obtain sh d v where e: "es ! Suc i = (sh, d, v)" by (metis prod_cases3)
  have "sh \<le> length (keys_from [] es ! i)"
    using shares_ok_nth [of "[]" es "Suc i"] assms(3,4) e by (simp add: wf_block_def)
  then have "take sh (take (length (keys_from [] es ! i)) kb) = take sh kb" by (simp add: min_absorb1)
  then have "take sh kb = take sh (keys_from [] es ! i)" unfolding assms(2) by simp
  then show ?thesis using assms(1) e by (simp add: buffer_for_def prev_key_def)
qed

lemma buffer_for_restart: "fst (es ! i) = 0 \<Longrightarrow> length kb = kKeyBufferSize \<Longrightarrow> buffer_for es i kb"
  by (simp add: buffer_for_def)

lemma copy_key_entry:
  assumes wf: "wf_block es rs" and s: "block_state es rs s" and i: "i < length es" "es ! i = (sh, d, v)"
    and kb: "buffer_for es i kb" and bound: "kKeyBufferSize \<le> bound"
  obtains kb' where "copy_key bound (bi_data s) (kpos es i) (word_of_nat sh) (word_of_nat (length d)) kb = Returns kb'"
    "length kb' = kKeyBufferSize" "take (sh + length d) kb' = keys_from [] es ! i"
proof -
  have small: "length d + length v < 2 ^ 31" "sh + length d \<le> kKeyBufferSize"
    using entry_lengths_small [OF wf i] by simp_all
  have u: "unat (word_of_nat sh :: u32) = sh" "unat (word_of_nat (length d) :: u32) = length d"
    using small by (simp_all add: unat_small kKeyBufferSize_def)
  have m: "min (length d) (bound - sh) = length d" using small(2) bound by simp
  have kb': "length kb = kKeyBufferSize" "take sh kb = take sh (prev_key es i)" using kb i(2) by (simp_all add: buffer_for_def)
  have rd: "read_at (bi_data s) (kpos es i) (length d) = d"
    using s entry_bytes_at(1) [OF i] by (simp add: block_state_def)
  have in_blk: "kpos es i + length d \<le> length (bi_data s)"
    using s entry_bytes_at(3) [OF i] block_lengths(1) [OF wf] by (simp add: block_state_def)
  have key: "keys_from [] es ! i = take sh kb @ d"
    using keys_from_nth [OF i, of "[]"] kb'(2) by (simp add: prev_key_def split: if_splits)
  have res: "copy_key bound (bi_data s) (kpos es i) (word_of_nat sh) (word_of_nat (length d)) kb = Returns (write_at kb sh d)"
    using u m rd in_blk small(2) kb'(1) by (auto simp: copy_key_def Let_def)
  show thesis
  proof (rule that [OF res])
    show "length (write_at kb sh d) = kKeyBufferSize" using small(2) kb'(1) by simp
    show "take (sh + length d) (write_at kb sh d) = keys_from [] es ! i"
      unfolding key using small(2) kb'(1) by (simp add: write_at_def)
  qed
qed

text \<open>The iterator stands on an entry: it is valid and shows the key and where the value is.\<close>

definition at_entry :: "entry list \<Rightarrow> nat list \<Rightarrow> nat \<Rightarrow> iter \<Rightarrow> bool" where
  "at_entry es rs j i \<longleftrightarrow>
     (case i of (s, b) \<Rightarrow>
        block_state es rs s \<and> bi_current s = word_of_nat (epos es j) \<and> bi_error_code s = 0 \<and> pb_valid_flag b = 1 \<and>
        length (pb_key_buffer b) = kKeyBufferSize \<and>
        pb_key_length b = int (length (keys_from [] es ! j)) \<and>
        take (length (keys_from [] es ! j)) (pb_key_buffer b) = keys_from [] es ! j \<and>
        pb_value_ptr b = kpos es j + length (fst (snd (es ! j))) \<and>
        pb_value_length b = int (length (snd (snd (es ! j)))))"

definition at_end :: "entry list \<Rightarrow> nat list \<Rightarrow> iter \<Rightarrow> bool" where
  "at_end es rs i \<longleftrightarrow>
     (case i of (s, b) \<Rightarrow> block_state es rs s \<and> bi_error_code s = 0 \<and> pb_valid_flag b = 0)"

text \<open>What the kernels compute from an entry: the buffer for it, with valid flag and error code to set.\<close>

lemma read_entry:
  assumes wf: "wf_block es rs" and s: "block_state es rs s" and i: "i < length es"
    and kb: "buffer_for es i (pb_key_buffer b)" and bound: "kKeyBufferSize \<le> bound"
  obtains sh d v kb' b' where "es ! i = (sh, d, v)"
    "decode_entry_at s (epos es i) =
       Returns (Some (word_of_nat sh, word_of_nat (length d), word_of_nat (length v), kpos es i))"
    "copy_key bound (bi_data s) (kpos es i) (word_of_nat sh) (word_of_nat (length d)) (pb_key_buffer b) = Returns kb'"
    "b' = set_entry kb' (word_of_nat sh + word_of_nat (length d)) (kpos es i + unat (word_of_nat (length d) :: u32))
            (word_of_nat (length v)) b"
    "take (nat (pb_key_length b')) kb' = keys_from [] es ! i" "pb_key_length b' = int (sh + length d)"
    "sh + length d \<le> length kb'" "length kb' = kKeyBufferSize"
    "at_entry es rs i (iter_valid (s\<lparr>bi_current := word_of_nat (epos es i)\<rparr>, b'))"
    "word_of_nat (pb_value_ptr b') + (word_of_nat (length v) :: u32) = word_of_nat (epos es (Suc i))"
    "word_of_nat (pb_value_ptr b') + (word_of_int (pb_value_length b') :: u32) = word_of_nat (epos es (Suc i))"
proof -
  obtain sh d v where e: "es ! i = (sh, d, v)" by (metis prod_cases3)
  have small: "length d + length v < 2 ^ 31" "sh + length d \<le> kKeyBufferSize" "length (keys_from [] es ! i) = sh + length d"
    using entry_lengths_small [OF wf i e] by simp_all
  obtain kb' where k: "copy_key bound (bi_data s) (kpos es i) (word_of_nat sh) (word_of_nat (length d)) (pb_key_buffer b) = Returns kb'"
    "length kb' = kKeyBufferSize" "take (sh + length d) kb' = keys_from [] es ! i"
    by (rule copy_key_entry [OF wf s i e kb bound])
  let ?b = "set_entry kb' (word_of_nat sh + word_of_nat (length d)) (kpos es i + unat (word_of_nat (length d) :: u32)) (word_of_nat (length v)) b"
  have sum: "(word_of_nat sh + word_of_nat (length d) :: u32) = word_of_nat (sh + length d)" by simp
  have "sint (word_of_nat sh + word_of_nat (length d) :: u32) = int (sh + length d)"
    unfolding sum using small(2) by (intro sint_small) (simp add: kKeyBufferSize_def)
  moreover have "sint (word_of_nat (length v) :: u32) = int (length v)" using small(1) by (intro sint_small) simp
  moreover have "unat (word_of_nat (length d) :: u32) = length d" using small(1) by (intro unat_small) simp
  ultimately have b: "pb_key_length ?b = int (sh + length d)" "pb_value_length ?b = int (length v)"
    "pb_value_ptr ?b = kpos es i + length d" "pb_key_buffer ?b = kb'"
    by (simp_all add: set_entry_def)
  have nxt: "word_of_nat (pb_value_ptr ?b) + (word_of_nat (length v) :: u32) = word_of_nat (epos es (Suc i))"
    unfolding b(3) kpos_eq [OF i e, symmetric] by simp
  have at: "at_entry es rs i (iter_valid (s\<lparr>bi_current := word_of_nat (epos es i)\<rparr>, ?b))"
    using s b k(2,3) small(3) e by (simp add: at_entry_def iter_valid_def block_state_def)
  have tk: "take (nat (pb_key_length ?b)) kb' = keys_from [] es ! i" unfolding b(1) nat_int by (rule k(3))
  have "word_of_int (pb_value_length ?b) = (word_of_nat (length v) :: u32)" unfolding b(2) by simp
  then have nxt': "word_of_nat (pb_value_ptr ?b) + (word_of_int (pb_value_length ?b) :: u32) = word_of_nat (epos es (Suc i))"
    using nxt by simp
  have fits: "sh + length d \<le> length kb'" using small(2) k(2) by simp
  show thesis
    by (rule that [OF e decode_entry_at_entry [OF wf s i e] k(1) refl tk b(1) fits k(2) at nxt nxt'])
qed

section \<open>The search\<close>

lemma restart_search_ok:
  assumes wf: "wf_block es rs" and s: "block_state es rs s"
    and "-1 \<le> left" "left \<le> right" "right < int (length rs)"
    and "left = -1 \<or> CompareInternalKeys (keys_from [] es ! (rs ! nat left)) t < 0"
  shows "\<exists>l. restart_search s t left right = Returns (Some l) \<and>
             (l = -1 \<or> 0 \<le> l \<and> l < int (length rs) \<and> CompareInternalKeys (keys_from [] es ! (rs ! nat l)) t \<le> 0)"
  using assms(3-6)
proof (induction "nat (right - left)" arbitrary: left right rule: less_induct)
  case less
  show ?case
  proof (cases "left < right")
    case False
    then show ?thesis using less.prems by (subst restart_search.simps) auto
  next
    case True
    define mid where "mid = left + (right - left + 1) div 2"
    have m: "left < mid" "mid \<le> right" "0 \<le> mid" "nat mid < length rs" "word_of_int mid = (word_of_nat (nat mid) :: u32)"
      using True less.prems by (auto simp: mid_def)
    let ?r = "rs ! nat mid"
    have r: "?r < length es" "fst (es ! ?r) = 0" using wf m(4) by (simp_all add: wf_block_def list_all_length)
    obtain d v where e: "es ! ?r = (0, d, v)" using r(2) by (metis prod.collapse)
    have lens: "length d + length v < 2 ^ 31" "length (keys_from [] es ! ?r) = 0 + length d"
      using entry_lengths_small [OF wf r(1) e] by simp_all
    have key: "keys_from [] es ! ?r = d" using keys_from_nth [OF r(1) e, of "[]"] by simp
    have ep: "unat (word_of_nat (epos es ?r) :: u32) = epos es ?r"
      using epos_le [of ?r es] r(1) block_lengths(2) [OF wf] by (intro unat_small) simp
    have rp: "block_GetRestartPoint (bi_data s) (bi_restarts s) (word_of_int mid) = Returns (word_of_nat (epos es ?r))"
      unfolding m(5) by (rule restart_point_at [OF wf s m(4)])
    have de: "decode_entry_at s (epos es ?r) = Returns (Some (0, word_of_nat (length d), word_of_nat (length v), kpos es ?r))"
      using decode_entry_at_entry [OF wf s r(1) e] by simp
    have ud: "unat (word_of_nat (length d) :: u32) = length d" using lens(1) by (intro unat_small) simp
    have rd: "read_at (bi_data s) (kpos es ?r) (length d) = d" "kpos es ?r + length d \<le> length (bi_data s)"
      using s entry_bytes_at(1,3) [OF r(1) e] block_lengths(1) [OF wf] by (simp_all add: block_state_def)
    let ?c = "CompareInternalKeys d t"
    have step: "restart_search s t left right =
        (if ?c < 0 then restart_search s t mid right
         else if ?c > 0 then restart_search s t left (mid - 1) else Returns (Some mid))"
      using True rp ep de ud rd by (subst restart_search.simps) (simp add: mid_def [symmetric] Let_def del: restart_search.simps)
    consider (lt) "?c < 0" | (gt) "?c > 0" | (eq) "?c = 0" by linarith
    then show ?thesis
    proof cases
      case lt
      have "\<exists>l. restart_search s t mid right = Returns (Some l) \<and>
             (l = -1 \<or> 0 \<le> l \<and> l < int (length rs) \<and> CompareInternalKeys (keys_from [] es ! (rs ! nat l)) t \<le> 0)"
        by (rule less.hyps) (use m lt key less.prems in auto)
      then show ?thesis using step lt by simp
    next
      case gt
      have "\<exists>l. restart_search s t left (mid - 1) = Returns (Some l) \<and>
             (l = -1 \<or> 0 \<le> l \<and> l < int (length rs) \<and> CompareInternalKeys (keys_from [] es ! (rs ! nat l)) t \<le> 0)"
        by (rule less.hyps) (use m gt key less.prems in auto)
      then show ?thesis using step gt by simp
    next
      case eq
      then show ?thesis using step key m by simp
    qed
  qed
qed

section \<open>The scan\<close>

lemma current_before_restarts:
  assumes "wf_block es rs" and "block_state es rs s" and "bi_current s = word_of_nat (epos es i)" and "i \<le> length es"
  shows "bi_current s < bi_restarts s \<longleftrightarrow> i < length es" "unat (bi_current s) = epos es i"
proof -
  have e: "epos es i \<le> length (entries_bytes es)" "length (entries_bytes es) < 2 ^ 31"
    using epos_le [OF assms(4)] block_lengths(2) [OF assms(1)] by simp_all
  show u: "unat (bi_current s) = epos es i" using assms(3) e by (simp add: unat_small)
  have "unat (bi_restarts s) = length (entries_bytes es)" using assms(2) e by (simp add: block_state_def unat_small)
  then show "bi_current s < bi_restarts s \<longleftrightarrow> i < length es"
    using u epos_mono_less [of i "length es" es] assms(4) by (auto simp: word_less_nat_alt not_less le_less)
qed

lemma seek_scan_ok:
  assumes wf: "wf_block es rs" and t: "internal_key t"
    and "block_state es rs s" "i \<le> length es" "bi_current s = word_of_nat (epos es i)"
    and "i < length es \<longrightarrow> buffer_for es i (pb_key_buffer b)"
    and "\<forall>j < i. CompareInternalKeys (keys_from [] es ! j) t < 0"
  shows "\<exists>r. seek_scan t (s, b) = Some (Returns r) \<and>
           (if lower_bound CompareInternalKeys t (keys_from [] es) < length es
            then at_entry es rs (lower_bound CompareInternalKeys t (keys_from [] es)) r else at_end es rs r)"
  using assms(3-7)
proof (induction "length es - i" arbitrary: i s b)
  case 0
  then have i: "i = length es" by simp
  have "lower_bound CompareInternalKeys t (keys_from [] es) = length es"
    by (rule lower_bound_unique) (use "0.prems"(5) i in auto)
  moreover have "\<not> bi_current s < bi_restarts s"
    using current_before_restarts(1) [OF wf "0.prems"(1,3,2)] i by simp
  then have "seek_scan t (s, b) = Some (Returns (iter_end (s\<lparr>bi_current := bi_restarts s\<rparr>, b)))"
    by (subst seek_scan.simps) (simp add: seek_scan_round_def)
  ultimately show ?case using "0.prems"(1) by (simp add: at_end_def iter_end_def block_state_def)
next
  case (Suc n)
  then have i: "i < length es" by simp
  note cur = current_before_restarts [OF wf Suc.prems(1,3,2)]
  have s': "s\<lparr>bi_current := word_of_nat (epos es i)\<rparr> = s" using Suc.prems(3) by simp
  have kb: "buffer_for es i (pb_key_buffer b)" using Suc.prems(4) i by simp
  have bound: "kKeyBufferSize \<le> seek_bound" by (simp add: seek_bound_def)
  obtain sh d v kb' b' where r: "es ! i = (sh, d, v)"
    "decode_entry_at s (epos es i) =
       Returns (Some (word_of_nat sh, word_of_nat (length d), word_of_nat (length v), kpos es i))"
    "copy_key seek_bound (bi_data s) (kpos es i) (word_of_nat sh) (word_of_nat (length d)) (pb_key_buffer b) = Returns kb'"
    "b' = set_entry kb' (word_of_nat sh + word_of_nat (length d)) (kpos es i + unat (word_of_nat (length d) :: u32))
            (word_of_nat (length v)) b"
    "take (nat (pb_key_length b')) kb' = keys_from [] es ! i" "pb_key_length b' = int (sh + length d)"
    "sh + length d \<le> length kb'" "length kb' = kKeyBufferSize"
    "at_entry es rs i (iter_valid (s\<lparr>bi_current := word_of_nat (epos es i)\<rparr>, b'))"
    "word_of_nat (pb_value_ptr b') + (word_of_nat (length v) :: u32) = word_of_nat (epos es (Suc i))"
    "word_of_nat (pb_value_ptr b') + (word_of_int (pb_value_length b') :: u32) = word_of_nat (epos es (Suc i))"
    by (rule read_entry [OF wf Suc.prems(1) i kb bound])
  have fits: "\<not> (pb_key_length b' < 0 \<or> nat (pb_key_length b') > length kb')" using r(6,7) by auto
  have round: "seek_scan_round t (s, b) =
      (if CompareInternalKeys (keys_from [] es ! i) t \<ge> 0 then Returns (ScanEnd (iter_valid (s, b')))
       else Returns (ScanNext (s\<lparr>bi_current := word_of_nat (epos es (Suc i))\<rparr>, b')))"
    using cur i r(2,3) fits unfolding seek_scan_round_def by (simp add: Let_def r(4) [symmetric] r(5,10))
  show ?case
  proof (cases "CompareInternalKeys (keys_from [] es ! i) t \<ge> 0")
    case True
    have "lower_bound CompareInternalKeys t (keys_from [] es) = i"
      by (rule lower_bound_unique) (use True Suc.prems(5) i in auto)
    then show ?thesis using True round r(9) s' i by (subst seek_scan.simps) simp
  next
    case False
    let ?s = "s\<lparr>bi_current := word_of_nat (epos es (Suc i))\<rparr>"
    have kb': "pb_key_buffer b' = kb'" using r(4) by (simp add: set_entry_def)
    have nl: "nat (pb_key_length b') = length (keys_from [] es ! i)"
      using r(5,7,6) by (metis length_take min.absorb2 nat_int)
    have buf: "Suc i < length es \<longrightarrow> buffer_for es (Suc i) (pb_key_buffer b')"
      using buffer_for_next [OF r(8) _ wf, of i] r(5) nl kb' by simp
    have below: "\<forall>j < Suc i. CompareInternalKeys (keys_from [] es ! j) t < 0"
      using Suc.prems(5) False by (auto simp: less_Suc_eq)
    have "\<exists>r. seek_scan t (?s, b') = Some (Returns r) \<and>
           (if lower_bound CompareInternalKeys t (keys_from [] es) < length es
            then at_entry es rs (lower_bound CompareInternalKeys t (keys_from [] es)) r else at_end es rs r)"
      by (rule Suc.hyps(1)) (use Suc.hyps(2) Suc.prems(1) i buf below in \<open>auto simp: block_state_def\<close>)
    then show ?thesis using False round by (subst seek_scan.simps) simp
  qed
qed

lemma SeekKernel_ok:
  assumes wf: "wf_block es rs" and t: "internal_key t" and s: "block_state es rs s"
    and b: "length (pb_key_buffer b) = kKeyBufferSize"
  shows "\<exists>r. SeekKernel t (s, b) = Some (Returns r) \<and>
           (if lower_bound CompareInternalKeys t (keys_from [] es) < length es
            then at_entry es rs (lower_bound CompareInternalKeys t (keys_from [] es)) r else at_end es rs r)"
proof -
  let ?ks = "keys_from [] es"
  have rs: "rs \<noteq> []" "hd rs = 0" "list_all (\<lambda>r. r < length es \<and> fst (es ! r) = 0) rs"
    and ks: "\<forall>k \<in> set ?ks. internal_key k" "sorted_wrt (\<lambda>a b. CompareInternalKeys a b < 0) ?ks"
    using wf by (simp_all add: wf_block_def list_all_iff)
  have n: "length rs < 2 ^ 31" "0 < length rs" using block_lengths(2) [OF wf] rs(1) by simp_all
  have "bi_num_restarts s - 1 = word_of_nat (length rs - 1)" using s n(2) by (simp add: block_state_def of_nat_diff Suc_le_eq)
  then have "unat (bi_num_restarts s - 1) = length rs - 1" using n by (simp only: unat_small)
  then have num: "int (unat (bi_num_restarts s - 1)) = int (length rs) - 1" using n(2) by (simp add: of_nat_diff Suc_leI)
  obtain l where l: "restart_search s t (-1) (int (length rs) - 1) = Returns (Some l)"
    "l = -1 \<or> 0 \<le> l \<and> l < int (length rs) \<and> CompareInternalKeys (?ks ! (rs ! nat l)) t \<le> 0"
    using restart_search_ok [OF wf s, of "-1" "int (length rs) - 1" t] n(2) by auto
  define j where "j = (if l = -1 then 0 else nat l)"
  have j: "j < length rs" "(if l = -1 then 0 else word_of_int l) = (word_of_nat j :: u32)"
    using l(2) n(2) by (auto simp: j_def)
  let ?e = "rs ! j"
  have e: "?e < length es" "fst (es ! ?e) = 0" using rs(3) j(1) by (simp_all add: list_all_length)
  have below: "\<forall>i < ?e. CompareInternalKeys (?ks ! i) t < 0"
  proof (cases "l = -1")
    case True
    then have "?e = 0" using rs(1,2) by (simp add: j_def hd_conv_nth)
    then show ?thesis by simp
  next
    case False
    then have le: "CompareInternalKeys (?ks ! ?e) t \<le> 0" using l(2) by (simp add: j_def)
    show ?thesis using ikeys.sorted_below [OF ks(2,1) t _ _ le] e(1) by simp
  qed
  have rp: "block_GetRestartPoint (bi_data s) (bi_restarts s) (word_of_nat j) = Returns (word_of_nat (epos es ?e))"
    by (rule restart_point_at [OF wf s j(1)])
  let ?s = "s\<lparr>bi_restart_index := word_of_nat j, bi_current := word_of_nat (epos es ?e)\<rparr>" and ?b = "b\<lparr>pb_key_length := 0\<rparr>"
  have st: "block_state es rs ?s" "bi_current ?s = word_of_nat (epos es ?e)" using s by (simp_all add: block_state_def)
  have kb: "?e < length es \<longrightarrow> buffer_for es ?e (pb_key_buffer ?b)" using buffer_for_restart [OF e(2)] b by simp
  have "SeekKernel t (s, b) = seek_scan t (?s, ?b)"
    using l(1) num j(2) rp by (simp add: SeekKernel_def seek_from_def)
  then show ?thesis using seek_scan_ok [OF wf t st(1) less_imp_le [OF e(1)] st(2) kb below] by simp
qed

section \<open>Enumeration\<close>

lemma SeekToFirstKernel_ok:
  assumes wf: "wf_block es rs" and s: "block_state es rs s" and b: "length (pb_key_buffer b) = kKeyBufferSize"
  shows "\<exists>r. SeekToFirstKernel (s, b) = Returns r \<and> at_entry es rs 0 r"
proof -
  have rs: "rs \<noteq> []" "rs ! 0 = 0" "0 < length es" "fst (es ! 0) = 0"
    using wf by (auto simp: wf_block_def hd_conv_nth list_all_length)
  have rp: "block_GetRestartPoint (bi_data s) (bi_restarts s) 0 = Returns 0"
    using restart_point_at [OF wf s, of 0] rs(1,2) by simp
  let ?s = "s\<lparr>bi_restart_index := 0, bi_current := 0\<rparr>" and ?b = "b\<lparr>pb_key_length := 0\<rparr>"
  have s': "block_state es rs ?s" "?s\<lparr>bi_current := word_of_nat (epos es 0)\<rparr> = ?s" using s by (simp_all add: block_state_def)
  have kb: "buffer_for es 0 (pb_key_buffer ?b)" using buffer_for_restart [OF rs(4)] b by simp
  have bound: "kKeyBufferSize \<le> seek_bound" by (simp add: seek_bound_def)
  obtain sh d v kb' b' where r: "es ! 0 = (sh, d, v)"
    "decode_entry_at ?s (epos es 0) =
       Returns (Some (word_of_nat sh, word_of_nat (length d), word_of_nat (length v), kpos es 0))"
    "copy_key seek_bound (bi_data ?s) (kpos es 0) (word_of_nat sh) (word_of_nat (length d)) (pb_key_buffer ?b) = Returns kb'"
    "b' = set_entry kb' (word_of_nat sh + word_of_nat (length d)) (kpos es 0 + unat (word_of_nat (length d) :: u32))
            (word_of_nat (length v)) ?b"
    "take (nat (pb_key_length b')) kb' = keys_from [] es ! 0" "pb_key_length b' = int (sh + length d)"
    "sh + length d \<le> length kb'" "length kb' = kKeyBufferSize"
    "at_entry es rs 0 (iter_valid (?s\<lparr>bi_current := word_of_nat (epos es 0)\<rparr>, b'))"
    "word_of_nat (pb_value_ptr b') + (word_of_nat (length v) :: u32) = word_of_nat (epos es (Suc 0))"
    "word_of_nat (pb_value_ptr b') + (word_of_int (pb_value_length b') :: u32) = word_of_nat (epos es (Suc 0))"
    by (rule read_entry [OF wf s'(1) rs(3) kb bound])
  have "SeekToFirstKernel (s, b) = Returns (iter_valid (?s, b'))"
    using rp r(1-4) rs(4) by (simp add: SeekToFirstKernel_def Let_def)
  then show ?thesis using r(9) s'(2) by simp
qed

lemma at_entry_next:
  assumes wf: "wf_block es rs" and at: "at_entry es rs j i" and j: "j < length es"
  shows "\<exists>r. NextKernel i = Returns r \<and> (if Suc j < length es then at_entry es rs (Suc j) r else at_end es rs r)"
proof -
  obtain s b where i: "i = (s, b)" by (cases i)
  obtain sh d v where e: "es ! j = (sh, d, v)" by (metis prod_cases3)
  have a: "block_state es rs s" "pb_valid_flag b = 1" "length (pb_key_buffer b) = kKeyBufferSize"
    "take (length (keys_from [] es ! j)) (pb_key_buffer b) = keys_from [] es ! j"
    "pb_value_ptr b = kpos es j + length d" "pb_value_length b = int (length v)"
    using at e unfolding i at_entry_def by simp_all
  define s1 where "s1 = s\<lparr>bi_current := word_of_nat (epos es (Suc j))\<rparr>"
  have cur: "word_of_nat (pb_value_ptr b) + (word_of_int (pb_value_length b) :: u32) = word_of_nat (epos es (Suc j))"
    unfolding a(5,6) kpos_eq [OF j e, symmetric] by simp
  have s1: "block_state es rs s1" "bi_current s1 = word_of_nat (epos es (Suc j))" "s1\<lparr>bi_current := word_of_nat (epos es (Suc j))\<rparr> = s1"
    using a(1) by (simp_all add: s1_def block_state_def)
  note before = current_before_restarts [OF wf s1(1,2) Suc_leI [OF j]]
  show ?thesis
  proof (cases "Suc j < length es")
    case False
    then have "NextKernel i = Returns (iter_end (s1, b))"
      using a(2) cur before unfolding i NextKernel_def by (simp add: Let_def s1_def [symmetric] not_less)
    then show ?thesis using False s1(1) by (simp add: at_end_def iter_end_def block_state_def)
  next
    case True
    have kb: "buffer_for es (Suc j) (pb_key_buffer b)" by (rule buffer_for_next [OF a(3,4) wf True])
    obtain sh d v kb' b' where r: "es ! Suc j = (sh, d, v)"
      "decode_entry_at s1 (epos es (Suc j)) =
         Returns (Some (word_of_nat sh, word_of_nat (length d), word_of_nat (length v), kpos es (Suc j)))"
      "copy_key kKeyBufferSize (bi_data s1) (kpos es (Suc j)) (word_of_nat sh) (word_of_nat (length d)) (pb_key_buffer b) = Returns kb'"
      "b' = set_entry kb' (word_of_nat sh + word_of_nat (length d)) (kpos es (Suc j) + unat (word_of_nat (length d) :: u32))
              (word_of_nat (length v)) b"
      "take (nat (pb_key_length b')) kb' = keys_from [] es ! Suc j" "pb_key_length b' = int (sh + length d)"
      "sh + length d \<le> length kb'" "length kb' = kKeyBufferSize"
      "at_entry es rs (Suc j) (iter_valid (s1\<lparr>bi_current := word_of_nat (epos es (Suc j))\<rparr>, b'))"
      "word_of_nat (pb_value_ptr b') + (word_of_nat (length v) :: u32) = word_of_nat (epos es (Suc (Suc j)))"
      "word_of_nat (pb_value_ptr b') + (word_of_int (pb_value_length b') :: u32) = word_of_nat (epos es (Suc (Suc j)))"
      by (rule read_entry [OF wf s1(1) True kb order_refl])
    have nb: "\<not> bi_restarts s1 \<le> bi_current s1" using before(1) True by (simp add: not_le)
    have "NextKernel i = Returns (iter_valid (s1, b'))"
      using a(2) cur before(2) nb r(2-4) unfolding i NextKernel_def by (simp add: Let_def s1_def [symmetric] not_less)
    then show ?thesis using True r(9) s1(3) by simp
  qed
qed

section \<open>Metadata\<close>

lemma footer_bits:
  assumes "n < 2 ^ 31"
  shows "(word_of_nat n :: u32) AND kNumRestartsMask = word_of_nat n" "(word_of_nat n :: u32) AND push_bit 31 1 = 0"
proof -
  have tb: "take_bit 31 (word_of_nat n :: u32) = word_of_nat n"
    using assms by (simp add: word_unat_eq_iff unsigned_take_bit_eq unat_small take_bit_nat_eq_self)
  have "(word_of_nat n :: u32) AND kNumRestartsMask = take_bit 31 (word_of_nat n)"
    by (simp add: kNumRestartsMask_def take_bit_eq_mask mask_eq_exp_minus_1)
  then show "(word_of_nat n :: u32) AND kNumRestartsMask = word_of_nat n" using tb by simp
  show "(word_of_nat n :: u32) AND push_bit 31 1 = 0"
  proof (rule bit_word_eqI)
    fix m
    have "\<not> bit (word_of_nat n :: u32) 31" using arg_cong [OF tb, of "\<lambda>w. bit w 31"] by (simp add: bit_take_bit_iff)
    then show "bit ((word_of_nat n :: u32) AND push_bit 31 1) m = bit (0 :: u32) m"
      by (cases "m = 31") (simp_all only: bit_and_iff bit_push_bit_iff bit_1_iff bit_0_eq, auto)
  qed
qed

lemma InitializeBlockMetadataKernel_ok:
  assumes "wf_block es rs"
  shows "InitializeBlockMetadataKernel (block_bytes es rs) (word_of_nat (length (block_bytes es rs))) =
     Returns (\<lparr>md_num_restarts = word_of_nat (length rs), md_restart_offset = word_of_nat (length (entries_bytes es)),
               md_index_type = 0, md_block_size = word_of_nat (length (block_bytes es rs))\<rparr>, True)"
proof -
  let ?B = "block_bytes es rs" and ?E = "length (entries_bytes es)"
  have len: "length ?B = ?E + 4 * length rs + 4" "?E + 4 * length rs + 4 < 2 ^ 31" by (rule block_lengths [OF assms])+
  have u: "unat (word_of_nat (length ?B) :: u32) = length ?B" using len by (intro unat_small) simp
  have big: "\<not> (word_of_nat (length ?B) :: u32) < 4" using u len(1) by (simp add: word_less_nat_alt)
  then have "unat (word_of_nat (length ?B) - 4 :: u32) = length ?B - 4"
    using u by (simp add: unat_sub not_less)
  moreover have "drop (length ?B - 4) ?B = PutFixed32 (word_of_nat (length rs)) @ []" using len(1) by (simp add: block_bytes_def)
  ultimately have footer: "DecodeFixed32 (drop (unat (word_of_nat (length ?B) - 4 :: u32)) ?B) = word_of_nat (length rs)"
    using DecodeFixed32_PutFixed32 [of "word_of_nat (length rs)" "[]"] by simp
  have n: "length rs < 2 ^ 31" "0 < length rs" using len(2) assms by (simp_all add: wf_block_def)
  have pos: "(0 :: u32) < word_of_nat (length rs)" using n by (simp add: word_less_nat_alt unat_small)
  have off: "(word_of_nat (length ?B) - (1 + word_of_nat (length rs)) * 4 :: u32) = word_of_nat ?E"
    unfolding len(1) by (simp add: algebra_simps)
  show ?thesis
    unfolding InitializeBlockMetadataKernel_def Let_def footer using big u pos off footer_bits [OF n(1)] by simp
qed

section \<open>Progress on every block\<close>

lemma GetVarint32Ptr_loop_shorter: "GetVarint32Ptr_loop shift r p = Some (v, q) \<Longrightarrow> length q < length p"
  by (induction shift r p rule: GetVarint32Ptr_loop.induct) (auto simp: Let_def split: if_splits)

lemma DecodeEntry_progress:
  assumes "DecodeEntry p = Some (sh, ns, vl, q)" and "length p < 2 ^ 32"
  shows "length q < length p" "unat (ns + vl) \<le> length q"
proof -
  obtain l where l: "entry_lengths p = Some ([sh, ns, vl], q)" "\<not> word_of_nat (length q) < ns + vl"
    using assms(1) unfolding DecodeEntry_eq_entry_lengths
    by (auto split: if_splits option.splits prod.splits list.splits)
  show lt: "length q < length p"
    using l(1) GetVarint32Ptr_loop_shorter unfolding entry_lengths_def GetVarint32Ptr_def
    by (auto simp: numeral_3_eq_3 split: option.splits prod.splits) (meson less_trans)
  then have "unat (word_of_nat (length q) :: u32) = length q" using assms(2) by (simp add: unat_of_nat take_bit_nat_eq_self)
  then show "unat (ns + vl) \<le> length q" using l(2) by (simp add: word_less_nat_alt not_less)
qed

text \<open>
  An entry that decodes ends behind its start and not behind the restart array, even when the sum of its
  lengths wraps around.
\<close>

lemma decode_entry_at_progress:
  assumes "decode_entry_at s off = Returns (Some (sh, ns, vl, p))" and "off \<le> unat (bi_restarts s)"
  shows "off < unat (word_of_nat (p + unat ns) + vl :: u32)" "unat (word_of_nat (p + unat ns) + vl :: u32) \<le> unat (bi_restarts s)"
proof -
  let ?l = "unat (bi_restarts s)"
  obtain q where q: "DecodeEntry (drop off (take ?l (bi_data s))) = Some (sh, ns, vl, q)" "p = ?l - length q" "?l \<le> length (bi_data s)"
    using assms(1) by (auto simp: decode_entry_at_def Let_def split: if_splits option.splits)
  have l32: "?l < 2 ^ 32" using unsigned_less [of "bi_restarts s", where 'a = nat] by simp
  have len: "length (drop off (take ?l (bi_data s))) = ?l - off" using q(3) by simp
  then have "length (drop off (take ?l (bi_data s))) < 2 ^ 32" using l32 by simp
  note pr = DecodeEntry_progress [OF q(1) this, unfolded len]
  have end_at: "unat (word_of_nat (p + unat ns) + vl :: u32) = p + unat (ns + vl)"
  proof -
    have "(word_of_nat (p + unat ns) + vl :: u32) = word_of_nat (p + unat (ns + vl))" by simp
    moreover have "p + unat (ns + vl) < 2 ^ 32" using pr(2) q(2) l32 pr(1) by linarith
    ultimately show ?thesis by (simp only: unat_of_nat) (simp add: take_bit_nat_eq_self)
  qed
  show "off < unat (word_of_nat (p + unat ns) + vl :: u32)" "unat (word_of_nat (p + unat ns) + vl :: u32) \<le> ?l"
    unfolding end_at using pr q(2) assms(2) by linarith+
qed

lemma seek_scan_round_progress:
  assumes "seek_scan_round t (s, b) = Returns (ScanNext (s', b'))"
  shows "unat (bi_restarts s') - unat (bi_current s') < unat (bi_restarts s) - unat (bi_current s)"
proof -
  have lt: "bi_current s < bi_restarts s" using assms by (auto simp: seek_scan_round_def split: if_splits)
  then have le: "unat (bi_current s) \<le> unat (bi_restarts s)" by (simp add: word_less_nat_alt)
  obtain sh ns vl p where d: "decode_entry_at s (unat (bi_current s)) = Returns (Some (sh, ns, vl, p))"
    "s' = s\<lparr>bi_current := word_of_nat (p + unat ns) + vl\<rparr>"
    using assms lt
    by (auto simp: seek_scan_round_def bind_outcome_Returns_iff Let_def set_entry_def split: option.splits if_splits)
  show ?thesis using decode_entry_at_progress [OF d(1) le] d(2) lt by (simp add: word_less_nat_alt diff_less_mono2)
qed

lemma seek_scan_total: "\<exists>r. seek_scan t i = Some r"
proof (induction "unat (bi_restarts (fst i)) - unat (bi_current (fst i))" arbitrary: i rule: less_induct)
  case less
  obtain s b where i: "i = (s, b)" by (cases i)
  show ?case
  proof (cases "seek_scan_round t i")
    case (Returns st)
    show ?thesis
    proof (cases st)
      case (ScanNext i')
      obtain s' b' where i': "i' = (s', b')" by (cases i')
      have "\<exists>r. seek_scan t i' = Some r"
        using less.hyps [of i'] seek_scan_round_progress [of t s b s' b'] Returns ScanNext i i' by simp
      then show ?thesis using Returns ScanNext by (subst seek_scan.simps) simp
    qed (use Returns in \<open>subst seek_scan.simps, simp\<close>)
  qed (subst seek_scan.simps, simp)+
qed

lemma SeekKernel_total: "\<exists>r. SeekKernel t i = Some r"
proof -
  have "\<exists>r. seek_from t i l = Some r" for l
    using seek_scan_total by (auto simp: seek_from_def Let_def split: prod.splits outcome.splits)
  then show ?thesis by (auto simp: SeekKernel_def split: outcome.splits option.splits)
qed

section \<open>The iterator\<close>

definition on_entry :: "entry list \<Rightarrow> nat list \<Rightarrow> nat \<Rightarrow> GDSDataBlockIter \<Rightarrow> bool" where
  "on_entry es rs j it \<longleftrightarrow>
     (\<exists>s b. gi_state it = Some s \<and> gi_buffer it = Some b \<and> at_entry es rs j (s, b))"

definition past_end :: "entry list \<Rightarrow> nat list \<Rightarrow> GDSDataBlockIter \<Rightarrow> bool" where
  "past_end es rs it \<longleftrightarrow> (\<exists>s b. gi_state it = Some s \<and> gi_buffer it = Some b \<and> at_end es rs (s, b))"

text \<open>The value the iterator points to, read from the block.\<close>

definition value_bytes :: "bytes \<Rightarrow> GDSDataBlockIter \<Rightarrow> bytes" where
  "value_bytes blk it = (case gi_DValue it of None \<Rightarrow> [] | Some (p, n) \<Rightarrow> read_at blk p (nat n))"

lemma on_entry_shows:
  assumes "on_entry es rs j it" and "j < length es"
  shows "gi_Valid it" "gi_key it = Returns (keys_from [] es ! j)" "value_bytes (block_bytes es rs) it = snd (snd (es ! j))"
proof -
  obtain s b where i: "gi_state it = Some s" "gi_buffer it = Some b" "at_entry es rs j (s, b)"
    using assms(1) by (auto simp: on_entry_def)
  obtain sh d v where e: "es ! j = (sh, d, v)" by (metis prod_cases3)
  note a = i(3) [unfolded at_entry_def, simplified e fst_conv snd_conv]
  show v: "gi_Valid it" using i a by (simp add: gi_Valid_def)
  have tk: "take (length (keys_from [] es ! j)) (pb_key_buffer b) = keys_from [] es ! j" using a by simp
  have "length (keys_from [] es ! j) \<le> length (pb_key_buffer b)"
    using arg_cong [OF tk, of length] by simp
  then show "gi_key it = Returns (keys_from [] es ! j)" using v i(2) a by (simp add: gi_key_def)
  show "value_bytes (block_bytes es rs) it = snd (snd (es ! j))"
    using i(2) a e entry_bytes_at(2) [OF assms(2) e, of rs] by (simp add: value_bytes_def gi_DValue_def)
qed

lemma past_end_invalid: "past_end es rs it \<Longrightarrow> \<not> gi_Valid it"
  by (auto simp: past_end_def at_end_def gi_Valid_def)

lemma NextImpl_on_entry:
  assumes "wf_block es rs" and "on_entry es rs j it" and "j < length es"
  shows "\<exists>it'. NextImpl it = Returns it' \<and> (if Suc j < length es then on_entry es rs (Suc j) it' else past_end es rs it')"
proof -
  obtain s b where i: "gi_state it = Some s" "gi_buffer it = Some b" "at_entry es rs j (s, b)"
    using assms(2) by (auto simp: on_entry_def)
  obtain r where r: "NextKernel (s, b) = Returns r" "if Suc j < length es then at_entry es rs (Suc j) r else at_end es rs r"
    using at_entry_next [OF assms(1) i(3) assms(3)] by blast
  have "pb_valid_flag b \<noteq> 0" using i(3) by (simp add: at_entry_def)
  then have "NextImpl it = Returns (set_iter it r)" using i r(1) by (simp add: NextImpl_def launch_on_def)
  then show ?thesis using r(2) by (cases r) (auto simp: on_entry_def past_end_def set_iter_def)
qed

text \<open>A new iterator on a well-formed block.\<close>

lemma block_iterator_ready:
  assumes wf: "wf_block es rs" and cmp: "contains ''Bytewise'' name" and old: "old = None \<or> old = Some new_GDSDataBlockIter"
  obtains d it s where "new_DeviceBlock True (block_bytes es rs) own = Returns d" "blk_contents d = block_bytes es rs"
    "NewDataIterator True (Some name) (Some b) old d = Returns it"
    "gi_state it = Some s" "gi_buffer it = Some b" "gi_status it = StOK" "block_state es rs s"
proof -
  let ?B = "block_bytes es rs"
  have big: "\<not> length ?B < 4" "?B \<noteq> []" using block_lengths(1) [OF wf] by auto
  define m where "m = \<lparr>md_num_restarts = word_of_nat (length rs) :: u32, md_restart_offset = word_of_nat (length (entries_bytes es)),
      md_index_type = 0, md_block_size = word_of_nat (length ?B)\<rparr>"
  have kernel: "InitializeBlockMetadataKernel ?B (word_of_nat (length ?B)) = Returns (m, True)"
    unfolding m_def by (rule InitializeBlockMetadataKernel_ok [OF wf])
  let ?d = "\<lparr>blk_contents = ?B, blk_own_bytes = own, blk_metadata = Some m,
      blk_h_metadata = \<lparr>md_num_restarts = 0, md_restart_offset = 0, md_index_type = 0, md_block_size = 0\<rparr>,
      blk_metadata_cached = False\<rparr>"
  have d: "new_DeviceBlock True ?B own = Returns ?d"
    using kernel big by (simp add: new_DeviceBlock_def InitializeMetadataGPU_def)
  let ?s = "InitializeIteratorStateKernel ?B m"
  let ?it = "\<lparr>gi_state = Some ?s, gi_comparator = Some name, gi_buffer = Some b, gi_status = StOK\<rparr>"
  have it: "NewDataIterator True (Some name) (Some b) old ?d = Returns ?it"
    using cmp old by (auto simp: NewDataIterator_def gi_Initialize_def gi_Cleanup_def new_GDSDataBlockIter_def Let_def)
  show thesis
    by (rule that [OF d _ it, of ?s]) (simp_all add: InitializeIteratorStateKernel_def block_state_def m_def)
qed

text \<open>The entries an iterator visits, up to a number of steps.\<close>

fun collect :: "nat \<Rightarrow> bytes \<Rightarrow> GDSDataBlockIter \<Rightarrow> (bytes \<times> bytes) list outcome" where
  "collect 0 blk it = Returns []"
| "collect (Suc n) blk it =
     (if \<not> gi_Valid it then Returns []
      else bind_outcome (gi_key it)
             (\<lambda>k. bind_outcome (NextImpl it)
                (\<lambda>it'. bind_outcome (collect n blk it') (\<lambda>r. Returns ((k, value_bytes blk it) # r)))))"

lemma collect_from:
  assumes "wf_block es rs"
  shows "j < length es \<Longrightarrow> on_entry es rs j it \<Longrightarrow> length es - j < n \<Longrightarrow>
     collect n (block_bytes es rs) it = Returns (drop j (zip (keys_from [] es) (map (\<lambda>e. snd (snd e)) es)))"
proof (induction n arbitrary: j it)
  case (Suc n)
  note here = on_entry_shows [OF Suc.prems(2,1)]
  obtain it' where it': "NextImpl it = Returns it'" "if Suc j < length es then on_entry es rs (Suc j) it' else past_end es rs it'"
    using NextImpl_on_entry [OF assms Suc.prems(2,1)] by blast
  have dr: "drop j (zip (keys_from [] es) (map (\<lambda>e. snd (snd e)) es)) =
      (keys_from [] es ! j, snd (snd (es ! j))) # drop (Suc j) (zip (keys_from [] es) (map (\<lambda>e. snd (snd e)) es))"
    using Suc.prems(1) by (simp add: Cons_nth_drop_Suc [symmetric])
  have rest: "collect n (block_bytes es rs) it' = Returns (drop (Suc j) (zip (keys_from [] es) (map (\<lambda>e. snd (snd e)) es)))"
  proof (cases "Suc j < length es")
    case True
    then show ?thesis using Suc.IH [of "Suc j" it'] it'(2) Suc.prems(3) by simp
  next
    case False
    then have "\<not> gi_Valid it'" "n \<noteq> 0" using it'(2) past_end_invalid Suc.prems by auto
    then show ?thesis using False by (cases n) auto
  qed
  show ?case unfolding dr using here it'(1) rest by simp
qed simp

lemma next_until_invalid_from:
  assumes wf: "wf_block es rs"
  shows "j < length es \<Longrightarrow> on_entry es rs j it \<Longrightarrow>
     \<exists>it'. next_until_invalid it = Some (Returns it') \<and> past_end es rs it'"
proof (induction "length es - j" arbitrary: j it rule: less_induct)
  case less
  obtain it' where it': "NextImpl it = Returns it'" "if Suc j < length es then on_entry es rs (Suc j) it' else past_end es rs it'"
    using NextImpl_on_entry [OF wf less.prems(2,1)] by blast
  show ?case
  proof (cases "Suc j < length es")
    case True
    then have on: "on_entry es rs (Suc j) it'" using it'(2) by simp
    then obtain b where b: "gi_buffer it' = Some b" "pb_valid_flag b = 1" by (auto simp: on_entry_def at_entry_def)
    have "next_until_invalid it = next_until_invalid it'"
      by (subst next_until_invalid.simps) (simp add: it'(1) b)
    then show ?thesis using less.hyps [of "Suc j" it'] True on by auto
  next
    case False
    then have pe: "past_end es rs it'" using it'(2) by simp
    then obtain b where b: "gi_buffer it' = Some b" "pb_valid_flag b = 0" by (auto simp: past_end_def at_end_def)
    have "next_until_invalid it = Some (Returns it')"
      by (subst next_until_invalid.simps) (simp add: it'(1) b)
    then show ?thesis using pe by blast
  qed
qed

text \<open>
  What a reader of a data block does: build the block, allocate a pinned buffer and open an iterator on it.
\<close>

definition block_iterator :: "bytes \<Rightarrow> bytes \<Rightarrow> GDSDataBlockIter outcome" where
  "block_iterator memory blk =
     bind_outcome (new_DeviceBlock True blk False)
       (NewDataIterator True (Some ''leveldb.BytewiseComparator'') (Some (fst (Allocate memory []))) None)"

lemma block_iterator_ok:
  assumes "wf_block es rs" and "kKeyBufferSize \<le> length memory"
  obtains it s b where "block_iterator memory (block_bytes es rs) = Returns it"
    "gi_state it = Some s" "gi_buffer it = Some b" "block_state es rs s" "length (pb_key_buffer b) = kKeyBufferSize"
proof -
  have "contains ''Bytewise'' ''leveldb.BytewiseComparator''" by code_simp
  then obtain d it s where d: "new_DeviceBlock True (block_bytes es rs) False = Returns d"
    "blk_contents d = block_bytes es rs"
    "NewDataIterator True (Some ''leveldb.BytewiseComparator'') (Some (fst (Allocate memory []))) None d = Returns it"
    "gi_state it = Some s" "gi_buffer it = Some (fst (Allocate memory []))" "gi_status it = StOK" "block_state es rs s"
    by (rule block_iterator_ready [OF assms(1), of _ None False "fst (Allocate memory [])"]) simp_all
  show thesis
    by (rule that [OF _ d(4,5,7)]) (use d(1,3) assms(2) in \<open>simp_all add: block_iterator_def Allocate_def\<close>)
qed

lemma SeekToFirstImpl_ok:
  assumes "wf_block es rs" and "gi_state it = Some s" "gi_buffer it = Some b" "block_state es rs s"
    "length (pb_key_buffer b) = kKeyBufferSize"
  shows "\<exists>it'. SeekToFirstImpl it = Returns it' \<and> on_entry es rs 0 it'"
proof -
  obtain r where "SeekToFirstKernel (s, b) = Returns r" "at_entry es rs 0 r"
    using SeekToFirstKernel_ok [OF assms(1,4,5)] by blast
  then show ?thesis using assms(2,3)
    by (cases r) (auto simp: SeekToFirstImpl_def launch_on_def on_entry_def set_iter_def)
qed

lemma SeekForGet_ok:
  assumes "wf_block es rs" and "internal_key t" and "gi_state it = Some s" "gi_buffer it = Some b" "block_state es rs s"
    "length (pb_key_buffer b) = kKeyBufferSize"
  shows "\<exists>it'. SeekForGet t it = Some (Returns (True, it')) \<and>
    (if lower_bound CompareInternalKeys t (keys_from [] es) < length es
     then on_entry es rs (lower_bound CompareInternalKeys t (keys_from [] es)) it' else past_end es rs it')"
proof -
  obtain r where "SeekKernel t (s, b) = Some (Returns r)"
    "if lower_bound CompareInternalKeys t (keys_from [] es) < length es
     then at_entry es rs (lower_bound CompareInternalKeys t (keys_from [] es)) r else at_end es rs r"
    using SeekKernel_ok [OF assms(1,2,5,6)] by blast
  then show ?thesis using assms(3,4)
    by (cases r) (auto simp: SeekForGet_def SeekImpl_def on_entry_def past_end_def set_iter_def)
qed

section \<open>Kernels on arbitrary blocks\<close>

text \<open>
  What the memory of an iterator is: a key buffer of its allocated size, a flag that is 0 or 1, and lengths that are
  32-bit integers.  \<open>same_block\<close> says that two iterators read the same block.
\<close>

definition iter_typed :: "iter \<Rightarrow> bool" where
  "iter_typed i \<longleftrightarrow>
     (case i of (s, b) \<Rightarrow>
        length (pb_key_buffer b) = kKeyBufferSize \<and> pb_valid_flag b \<in> {0, 1} \<and>
        pb_key_length b \<in> {- (2 ^ 31)..<2 ^ 31} \<and> pb_value_length b \<in> {- (2 ^ 31)..<2 ^ 31})"

definition same_block :: "iter \<Rightarrow> iter \<Rightarrow> bool" where
  "same_block i j \<longleftrightarrow>
     bi_data (fst j) = bi_data (fst i) \<and> bi_restarts (fst j) = bi_restarts (fst i) \<and>
     bi_num_restarts (fst j) = bi_num_restarts (fst i) \<and> bi_size (fst j) = bi_size (fst i)"

lemma same_block_trans: "same_block i j \<Longrightarrow> same_block j k \<Longrightarrow> same_block i k"
  by (simp add: same_block_def)

lemma sint_u32_range: "sint (w :: u32) \<in> {- (2 ^ 31)..<2 ^ 31}"
  using sint_greater_eq [of w] sint_lt [of w] by simp

lemma copy_key_length: "copy_key n dat p sh ns kb = Returns kb' \<Longrightarrow> length kb' = length kb"
  by (auto simp: copy_key_def Let_def read_at_def split: if_splits)

lemma sint_u32_bounds [simp]: "- 2147483648 \<le> sint (w :: u32)" "sint (w :: u32) < 2147483648"
  using sint_u32_range [of w] by simp_all

lemmas iter_typed_simps = bind_outcome_Returns_iff iter_typed_def same_block_def iter_error_def iter_valid_def iter_end_def
  set_entry_def Let_def

lemma SeekToFirstKernel_typed:
  assumes "SeekToFirstKernel i = Returns r" and "iter_typed i"
  shows "iter_typed r \<and> same_block i r"
proof -
  obtain s b where i: "i = (s, b)" by (cases i)
  obtain current e where e: "decode_entry_at (s\<lparr>bi_restart_index := 0, bi_current := current\<rparr>) (unat current) = Returns e"
    "block_GetRestartPoint (bi_data s) (bi_restarts s) 0 = Returns current"
    using assms(1) by (auto simp: SeekToFirstKernel_def i Let_def bind_outcome_Returns_iff)
  show ?thesis
  proof (cases e)
    case None
    then show ?thesis using assms e by (auto simp: SeekToFirstKernel_def i iter_typed_simps)
  next
    case (Some x)
    obtain sh ns vl p where x: "x = (sh, ns, vl, p)" by (cases x)
    show ?thesis
      using assms e Some unfolding x
      by (cases "sh = 0") (auto simp: SeekToFirstKernel_def i iter_typed_simps dest!: copy_key_length)
  qed
qed

lemma NextKernel_typed: "NextKernel i = Returns r \<Longrightarrow> iter_typed i \<Longrightarrow> iter_typed r \<and> same_block i r"
  unfolding NextKernel_def
  by (auto simp: iter_typed_simps dest!: copy_key_length split: prod.split_asm option.split_asm if_split_asm)

lemma seek_scan_round_typed:
  "seek_scan_round t i = Returns st \<Longrightarrow> iter_typed i \<Longrightarrow>
     iter_typed (case st of ScanEnd j \<Rightarrow> j | ScanNext j \<Rightarrow> j) \<and> same_block i (case st of ScanEnd j \<Rightarrow> j | ScanNext j \<Rightarrow> j)"
  unfolding seek_scan_round_def
  by (auto simp: iter_typed_simps dest!: copy_key_length split: prod.split_asm option.split_asm if_split_asm)

lemma seek_scan_typed: "seek_scan t i = Some (Returns r) \<Longrightarrow> iter_typed i \<Longrightarrow> iter_typed r \<and> same_block i r"
proof (induction "unat (bi_restarts (fst i)) - unat (bi_current (fst i))" arbitrary: i rule: less_induct)
  case less
  obtain st where st: "seek_scan_round t i = Returns st"
    using less.prems(1) by (subst (asm) seek_scan.simps) (auto split: outcome.split_asm)
  note round = seek_scan_round_typed [OF st less.prems(2)]
  show ?case
  proof (cases st)
    case (ScanEnd j)
    then show ?thesis using less.prems(1) st round by (subst (asm) seek_scan.simps) simp
  next
    case (ScanNext j)
    have "seek_scan t j = Some (Returns r)" using less.prems(1) st ScanNext by (subst (asm) seek_scan.simps) simp
    then have "iter_typed r \<and> same_block j r"
      using less.hyps [of j] seek_scan_round_progress [of t "fst i" "snd i" "fst j" "snd j"] st ScanNext round by simp
    then show ?thesis using round ScanNext same_block_trans [of i j r] by simp
  qed
qed

lemma SeekKernel_typed:
  assumes "SeekKernel t i = Some (Returns r)" and "iter_typed i"
  shows "iter_typed r \<and> same_block i r"
proof -
  have "iter_typed r \<and> same_block i r" if sf: "seek_from t i l = Some (Returns r)" for l
  proof -
    obtain s b where i: "i = (s, b)" by (cases i)
    obtain idx current where scan: "seek_scan t (s\<lparr>bi_restart_index := idx, bi_current := current\<rparr>, b\<lparr>pb_key_length := 0\<rparr>) = Some (Returns r)"
      using sf by (auto simp: seek_from_def i Let_def split: outcome.split_asm)
    show ?thesis using seek_scan_typed [OF scan] assms(2) by (auto simp: i iter_typed_def same_block_def)
  qed
  moreover have "iter_typed (iter_error i) \<and> same_block i (iter_error i)"
    using assms(2) by (auto simp: iter_typed_simps split: prod.splits)
  ultimately show ?thesis
    using assms(1) by (auto simp: SeekKernel_def split: outcome.split_asm option.split_asm)
qed

text \<open>A block of three entries, the second one sharing a byte with the first, and two restart points.\<close>

definition example_block :: "entry list" where
  "example_block =
     [(0, [97, 97, 1, 1, 0, 0, 0, 0, 0, 0], [7]),
      (1, [98, 1, 1, 0, 0, 0, 0, 0, 0], [8, 8]),
      (0, [99, 1, 1, 0, 0, 0, 0, 0, 0], [])]"

lemma example_block_wf: "wf_block example_block [0, 2]"
proof -
  have keys: "keys_from [] example_block =
    [[97, 97, 1, 1, 0, 0, 0, 0, 0, 0], [97, 98, 1, 1, 0, 0, 0, 0, 0, 0], [99, 1, 1, 0, 0, 0, 0, 0, 0]]"
    by (simp add: example_block_def)
  have "length (entries_bytes example_block) = 40" by code_simp
  then have "length (block_bytes example_block [0, 2]) < 2 ^ 31" by (simp add: block_bytes_def)
  then show ?thesis
    unfolding wf_block_def keys
    by (simp add: example_block_def internal_key_def kInternalKeyTail_def kKeyBufferSize_def CompareInternalKeys_def Let_def)
qed

section \<open>Properties\<close>

text \<open>
  C13: seeking in a data block on the GPU is correct.  On the bytes of any well-formed block (entries with shared
  prefixes, sorted by internal key, restart points on entries that share nothing), building the block, opening an
  iterator and running \<open>SeekForGet\<close> ends, reports success and leaves the iterator on the first entry whose
  key is not below the target, with the full key and the value of that entry; when there is none, the
  iterator is not valid.
\<close>

theorem seek_finds_lower_bound:
  assumes "wf_block es rs" and "internal_key t" and "kKeyBufferSize \<le> length memory"
  shows "\<exists>it it'. block_iterator memory (block_bytes es rs) = Returns it \<and> SeekForGet t it = Some (Returns (True, it')) \<and>
    (let j = lower_bound CompareInternalKeys t (keys_from [] es)
     in if j < length es
        then gi_Valid it' \<and> gi_key it' = Returns (keys_from [] es ! j) \<and>
             value_bytes (block_bytes es rs) it' = snd (snd (es ! j))
        else \<not> gi_Valid it')"
proof -
  obtain it s b where it: "block_iterator memory (block_bytes es rs) = Returns it"
    "gi_state it = Some s" "gi_buffer it = Some b" "block_state es rs s" "length (pb_key_buffer b) = kKeyBufferSize"
    by (rule block_iterator_ok [OF assms(1,3)])
  let ?j = "lower_bound CompareInternalKeys t (keys_from [] es)"
  obtain it' where it': "SeekForGet t it = Some (Returns (True, it'))"
    "if ?j < length es then on_entry es rs ?j it' else past_end es rs it'"
    using SeekForGet_ok [OF assms(1,2) it(2-5)] by blast
  show ?thesis
  proof (cases "?j < length es")
    case True
    then show ?thesis using it(1) it' on_entry_shows [of es rs ?j it'] by (auto simp: Let_def)
  next
    case False
    then show ?thesis using it(1) it' past_end_invalid by (auto simp: Let_def)
  qed
qed

theorem seek_finds_lower_bound_witness:
  "\<exists>it it'. block_iterator (replicate 512 0) (block_bytes example_block [0, 2]) = Returns it \<and>
     SeekForGet [97, 98, 1, 1, 0, 0, 0, 0, 0, 0] it = Some (Returns (True, it')) \<and>
     gi_Valid it' \<and> gi_key it' = Returns [97, 98, 1, 1, 0, 0, 0, 0, 0, 0] \<and>
     value_bytes (block_bytes example_block [0, 2]) it' = [8, 8]"
proof -
  have t: "internal_key [97, 98, 1, 1, 0, 0, 0, 0, 0, 0]" "kKeyBufferSize \<le> length (replicate 512 (0 :: byte))" by code_simp+
  have j: "lower_bound CompareInternalKeys [97, 98, 1, 1, 0, 0, 0, 0, 0, 0] (keys_from [] example_block) = 1"
    "keys_from [] example_block ! 1 = [97, 98, 1, 1, 0, 0, 0, 0, 0, 0]" "snd (snd (example_block ! 1)) = [8, 8]"
    "1 < length example_block" by code_simp+
  show ?thesis using seek_finds_lower_bound [OF example_block_wf t] unfolding j(1) Let_def using j(2-4) by simp
qed

text \<open>
  C18: the iterator enumerates a block.  \<open>SeekToFirst\<close> followed by \<open>Next\<close> while the iterator is valid
  visits every entry of a well-formed block in order, with its key (the shared prefix restored) and its value, and
  then stops: what was encoded is read back, and nothing else.
\<close>

theorem iteration_lists_entries:
  assumes "wf_block es rs" and "kKeyBufferSize \<le> length memory" and "length es < n"
  shows "bind_outcome (block_iterator memory (block_bytes es rs))
           (\<lambda>it. bind_outcome (SeekToFirstImpl it) (collect n (block_bytes es rs))) =
         Returns (zip (keys_from [] es) (map (\<lambda>e. snd (snd e)) es))"
proof -
  obtain it s b where it: "block_iterator memory (block_bytes es rs) = Returns it"
    "gi_state it = Some s" "gi_buffer it = Some b" "block_state es rs s" "length (pb_key_buffer b) = kKeyBufferSize"
    by (rule block_iterator_ok [OF assms(1,2)])
  obtain it' where it': "SeekToFirstImpl it = Returns it'" "on_entry es rs 0 it'"
    using SeekToFirstImpl_ok [OF assms(1) it(2-5)] by blast
  have "0 < length es" using assms(1) by (cases rs) (auto simp: wf_block_def)
  then show ?thesis using collect_from [OF assms(1) _ it'(2), of n] assms(3) it(1) it'(1) by simp
qed

theorem iteration_lists_entries_witness:
  "bind_outcome (block_iterator (replicate 512 0) (block_bytes example_block [0, 2]))
     (\<lambda>it. bind_outcome (SeekToFirstImpl it) (collect 4 (block_bytes example_block [0, 2]))) =
   Returns [([97, 97, 1, 1, 0, 0, 0, 0, 0, 0], [7]), ([97, 98, 1, 1, 0, 0, 0, 0, 0, 0], [8, 8]),
            ([99, 1, 1, 0, 0, 0, 0, 0, 0], [])]"
proof -
  have z: "zip (keys_from [] example_block) (map (\<lambda>e. snd (snd e)) example_block) =
    [([97, 97, 1, 1, 0, 0, 0, 0, 0, 0], [7]), ([97, 98, 1, 1, 0, 0, 0, 0, 0, 0], [8, 8]),
     ([99, 1, 1, 0, 0, 0, 0, 0, 0], [])]" by (simp add: example_block_def)
  have "kKeyBufferSize \<le> length (replicate 512 (0 :: byte))" "length example_block < 4" by code_simp+
  then show ?thesis using iteration_lists_entries [OF example_block_wf, of "replicate 512 0" 4] unfolding z by blast
qed

text \<open>
  C19: the seek kernel ends on every input.  Whatever the bytes of the block are (corrupt lengths, restart points
  that lead anywhere), for every target and every state of the iterator, the binary search over the restart array
  and the linear scan both end: each round of the scan moves \<open>current\<close> strictly towards \<open>restarts\<close>.
\<close>

theorem SeekKernel_terminates: "\<forall>t i. \<exists>r. SeekKernel t i = Some r"
  using SeekKernel_total by blast

text \<open>
  C40: \<open>SeekToLast\<close> never leaves the iterator on the last entry.  On every well-formed block it walks past the
  last entry, since its loop runs \<open>Next\<close> until the valid flag is clear, and returns an iterator that is not valid.
\<close>

theorem SeekToLast_invalid:
  assumes "wf_block es rs" and "kKeyBufferSize \<le> length memory"
  shows "\<exists>it it'. block_iterator memory (block_bytes es rs) = Returns it \<and> SeekToLastImpl it = Some (Returns it') \<and>
           \<not> gi_Valid it'"
proof -
  obtain it s b where it: "block_iterator memory (block_bytes es rs) = Returns it"
    "gi_state it = Some s" "gi_buffer it = Some b" "block_state es rs s" "length (pb_key_buffer b) = kKeyBufferSize"
    by (rule block_iterator_ok [OF assms(1,2)])
  obtain it1 where it1: "SeekToFirstImpl it = Returns it1" "on_entry es rs 0 it1"
    using SeekToFirstImpl_ok [OF assms(1) it(2-5)] by blast
  have "0 < length es" using assms(1) by (cases rs) (auto simp: wf_block_def)
  then obtain it' where it': "next_until_invalid it1 = Some (Returns it')" "past_end es rs it'"
    using next_until_invalid_from [OF assms(1) _ it1(2)] by blast
  obtain b1 where "gi_buffer it1 = Some b1" "pb_valid_flag b1 = 1" using it1(2) by (auto simp: on_entry_def at_entry_def)
  then have "SeekToLastImpl it = Some (Returns it')" using it(2) it1(1) it'(1) by (simp add: SeekToLastImpl_def)
  then show ?thesis using it(1) past_end_invalid [OF it'(2)] by blast
qed

theorem SeekToLast_invalid_witness:
  "\<exists>it it'. block_iterator (replicate 512 0) (block_bytes example_block [0, 2]) = Returns it \<and>
     SeekToLastImpl it = Some (Returns it') \<and> \<not> gi_Valid it'"
proof -
  have "kKeyBufferSize \<le> length (replicate 512 (0 :: byte))" by code_simp
  then show ?thesis by (rule SeekToLast_invalid [OF example_block_wf])
qed



text \<open>
  C25: internal keys are ordered by user key (bytewise, ascending) and, for equal user keys, by sequence number and
  type in descending order, as \<open>CompareInternalKeys\<close> documents.
\<close>

theorem CompareInternalKeys_orders:
  assumes "internal_key a" and "internal_key b"
  shows "(CompareInternalKeys a b < 0) = ikey_less a b \<and> (CompareInternalKeys a b > 0) = ikey_less b a \<and>
    (CompareInternalKeys a b = 0) = (user_key_of a = user_key_of b \<and> seq_type_of a = seq_type_of b)"
proof -
  have "(CompareInternalKeys a b = 0) = (\<not> ikey_less a b \<and> \<not> ikey_less b a)"
    by (metis CompareInternalKeys_sign [OF assms] less_irrefl linorder_neqE)
  moreover have "(\<not> ikey_less a b \<and> \<not> ikey_less b a) = (user_key_of a = user_key_of b \<and> seq_type_of a = seq_type_of b)"
    unfolding ikey_less_def
    by (cases "user_key_of a" "user_key_of b" rule: linorder_cases; cases "seq_type_of a" "seq_type_of b" rule: linorder_cases)
      (simp_all add: less_imp_neq less_imp_not_eq2)
  ultimately show ?thesis using CompareInternalKeys_sign [OF assms] by simp
qed

theorem CompareInternalKeys_orders_witness:
  "CompareInternalKeys [97, 1, 2, 0, 0, 0, 0, 0, 0] [97, 1, 1, 0, 0, 0, 0, 0, 0] < 0"
proof -
  have k: "internal_key [97, 1, 2, 0, 0, 0, 0, 0, 0]" "internal_key [97, 1, 1, 0, 0, 0, 0, 0, 0]"
    by (simp_all add: internal_key_def kInternalKeyTail_def)
  have "ikey_less [97, 1, 2, 0, 0, 0, 0, 0, 0] [97, 1, 1, 0, 0, 0, 0, 0, 0]"
    by (simp add: ikey_less_def user_key_of_def seq_type_of_def tail_num_def kInternalKeyTail_def upt_rec)
  then show ?thesis using CompareInternalKeys_orders [OF k] by blast
qed

lemmas eval_block_iterator =
  block_iterator_def new_DeviceBlock_def InitializeMetadataGPU_def InitializeBlockMetadataKernel_def
  kMaxBlockSizeSupportedByHashIndex_def kNumRestartsMask_def NewDataIterator_def gi_Initialize_def gi_Cleanup_def
  new_GDSDataBlockIter_def InitializeIteratorStateKernel_def SeekToFirstImpl_def launch_on_def SeekToFirstKernel_def
  block_GetRestartPoint_def decode_entry_at_def DecodeEntry_def DecodeFixed32_def GetVarint32Ptr_def copy_key_def
  seek_bound_def kKeyBufferSize_def Allocate_def Let_def

text \<open>
  A key of more than \<open>kKeyBufferSize\<close> bytes overruns the pinned key buffer.  The copy loop of
  \<open>SeekToFirstKernel\<close> is bounded by the size of the buffer times the size of a pointer, so on a block with a 600
  byte key it writes behind the 512 bytes that were allocated.
\<close>

lemma long_key_overruns_buffer:
  "bind_outcome (block_iterator memory (block_bytes [(0, replicate 600 1, [])] [0])) SeekToFirstImpl =
   Undefined ''write beyond the key buffer''"
proof -
  let ?B = "[0, 0xD8, 4, 0] @ replicate 600 1 @ [0, 0, 0, 0, 1, 0, 0, 0] :: bytes"
  have blk: "block_bytes [(0, replicate 600 1, [])] [0] = ?B"
    by (simp add: block_bytes_def entries_bytes_def enc_entry_def epos_def PutVarint32_def PutFixed32_def)
  show ?thesis unfolding blk
    by (simp add: eval_block_iterator)
qed

text \<open>
  Lengths that wrap around pass the check of \<open>DecodeEntry\<close>.  In a block whose first entry claims a key of
  \<open>0xFFFFFFF0\<close> bytes and a value of 16 bytes the 32-bit sum of the two is 0; the block is accepted and
  \<open>SeekToFirstKernel\<close> reads behind its end instead of reporting corruption.
\<close>

lemma wrapped_lengths_overread:
  "bind_outcome (block_iterator memory [0, 0xF0, 0xFF, 0xFF, 0xFF, 0x0F, 16, 0, 0, 0, 0, 1, 0, 0, 0]) SeekToFirstImpl =
   Undefined ''read beyond the block''"
  by (simp add: eval_block_iterator)

text \<open>
  Freeing a pinned buffer leaks two of its five host allocations, the value length and the value pointer.
\<close>

lemma Free_leaks: "Free (fst (Allocate memory [])) (snd (Allocate memory [])) = [h_value_length, h_d_value_ptr]"
  by (simp add: Allocate_def Free_def)

end
