(* ===== verification/GDS_Get_Context.thy ===== *)
theory GDS_Get_Context
  imports GDS_Block GPU_Kernel
begin

unbundle bit_operations_syntax

text \<open>
  Internal keys and the point lookup context of \<^verbatim>\<open>gds/gds_block_based_table_reader.cu\<close>: parsing of
  internal keys on the device, one at a time and in a batch, and \<open>GDSGetContext::SaveValue\<close>, which decides
  what an entry with a matching user key means for a lookup.

  The codes of the value types, the largest sequence number and the parser of the host come from RocksDB's
  \<^verbatim>\<open>dbformat.h\<close> and are fields of the record \<open>dbformat\<close>. The comparator, the read callback,
  the merge operator, the parsers of packed values and of wide columns and the result of copies from the
  device are fields of \<open>get_env\<close>.
\<close>

section \<open>Internal keys\<close>

record ParsedInternalKey =
  pk_user_key :: bytes
  pk_sequence :: u64
  pk_type :: byte

record dbformat =
  kTypeDeletion :: byte
  kTypeValueDB :: byte
  kTypeMerge :: byte
  kTypeSingleDeletion :: byte
  kTypeRangeDeletion :: byte
  kTypeBlobIndex :: byte
  kTypeDeletionWithTimestamp :: byte
  kTypeWideColumnEntity :: byte
  kTypeValuePreferredSeqno :: byte
  kTypeMaxValid :: byte
  kMaxSequenceNumber :: u64
  ParseInternalKey :: "bytes \<Rightarrow> Status \<times> ParsedInternalKey"

definition default_DeviceParsedInternalKey :: "dbformat \<Rightarrow> ParsedInternalKey" where
  "default_DeviceParsedInternalKey f =
     \<lparr>pk_user_key = [], pk_sequence = kMaxSequenceNumber f, pk_type = kTypeDeletion f\<rparr>"

definition pk_clear :: "dbformat \<Rightarrow> ParsedInternalKey \<Rightarrow> ParsedInternalKey" where
  "pk_clear f k = k\<lparr>pk_user_key := [], pk_sequence := 0, pk_type := kTypeDeletion f\<rparr>"

definition DeviceIsValueType :: "dbformat \<Rightarrow> byte \<Rightarrow> bool" where
  "DeviceIsValueType f t \<longleftrightarrow>
     t \<le> kTypeMerge f \<or> kTypeSingleDeletion f = t \<or> kTypeBlobIndex f = t \<or> kTypeDeletionWithTimestamp f = t \<or>
     kTypeWideColumnEntity f = t \<or> kTypeValuePreferredSeqno f = t"

definition DeviceIsExtendedValueType :: "dbformat \<Rightarrow> byte \<Rightarrow> bool" where
  "DeviceIsExtendedValueType f t \<longleftrightarrow> DeviceIsValueType f t \<or> t = kTypeRangeDeletion f \<or> t = kTypeMaxValid f"

definition kNumInternalBytes :: nat where "kNumInternalBytes = 8"

definition ParseInternalKeyOnDevice :: "dbformat \<Rightarrow> bytes \<Rightarrow> ParsedInternalKey \<Rightarrow> bool \<times> ParsedInternalKey" where
  "ParseInternalKeyOnDevice f ikey result =
     (let n = length ikey
      in if n < kNumInternalBytes then (False, result)
         else
           let num = DeviceDecodeFixed64 (drop (n - kNumInternalBytes) ikey);
               c = ucast (num AND 0xff) :: byte;
               result = result\<lparr>pk_sequence := drop_bit 8 num, pk_type := c,
                               pk_user_key := take (n - kNumInternalBytes) ikey\<rparr>
           in (DeviceIsExtendedValueType f (pk_type result), result))"

text \<open>The kernels: the writes of a thread to the results and to the flags.\<close>

definition ParseInternalKeyKernel ::
  "dbformat \<Rightarrow> bytes \<Rightarrow> ParsedInternalKey \<Rightarrow> nat \<Rightarrow> ParsedInternalKey store list \<times> bool store list" where
  "ParseInternalKeyKernel f ikey d_result idx =
     (if idx = 0
      then let (ok, r) = ParseInternalKeyOnDevice f ikey d_result in ([(0, [r])], [(0, [ok])])
      else ([], []))"

definition ParseInternalKeyBatchKernel ::
  "dbformat \<Rightarrow> bytes list \<Rightarrow> ParsedInternalKey list \<Rightarrow> nat \<Rightarrow> nat \<Rightarrow>
     ParsedInternalKey store list \<times> bool store list" where
  "ParseInternalKeyBatchKernel f d_internal_keys d_results num_keys idx =
     (if idx < num_keys
      then let (ok, r) = ParseInternalKeyOnDevice f (d_internal_keys ! idx) (d_results ! idx)
           in ([(idx, [r])], [(idx, [ok])])
      else ([], []))"

text \<open>
  The host wrapper: the kernel writes to fresh device memory, and the result is copied only on success and
  only to a non-null destination.
\<close>

definition ParseInternalKeyGPU ::
  "dbformat \<Rightarrow> ParsedInternalKey \<Rightarrow> bytes \<Rightarrow> ParsedInternalKey option \<Rightarrow> Status \<times> ParsedInternalKey option" where
  "ParseInternalKeyGPU f fresh d_internal_key h_result =
     (let d_result = hd (launch [] (fst \<circ> ParseInternalKeyKernel f d_internal_key fresh) 1 [fresh]);
          h_success = hd (launch [] (snd \<circ> ParseInternalKeyKernel f d_internal_key fresh) 1 [False]);
          h_result = (if h_success \<and> h_result \<noteq> None then Some d_result else h_result)
      in if \<not> h_success
         then (StCorruption ''Corrupted Key: Failed to parse internal key on GPU'', h_result)
         else (StOK, h_result))"

section \<open>The lookup context\<close>

datatype GetState = kNotFound | kFound | kDeleted | kCorrupt | kMerge | kUnexpectedBlobIndex | kMergeOperatorFailed

datatype columns = NoColumns | PlainValue bytes | WideColumnValue bytes

text \<open>
  The members of the context that \<open>SaveValue\<close> uses; \<open>None\<close> is a null pointer. The merge context is
  its list of operands, the replay log the list of what was appended to it.
\<close>

record GDSGetContext =
  gc_state :: GetState
  gc_user_key :: bytes
  gc_device_value :: "DeviceSlice option"
  gc_columns :: "columns option"
  gc_timestamp :: "bytes option"
  gc_ts_from_rangetombstone :: bool
  gc_merge_operator :: bool
  gc_merge_context :: "bytes list option"
  gc_do_merge :: bool
  gc_max_covering_tombstone_seq :: "u64 option"
  gc_seq :: "u64 option"
  gc_is_blob_index :: "bool option"
  gc_replay_log :: "(byte \<times> bytes \<times> bytes) list option"

record get_env =
  EqualWithoutTimestamp :: "bytes \<Rightarrow> bytes \<Rightarrow> bool"
  timestamp_size :: nat
  ExtractTimestampFromUserKey :: "bytes \<Rightarrow> nat \<Rightarrow> bytes"
  CompareTimestamp :: "bytes \<Rightarrow> bytes \<Rightarrow> int"
  callback_IsVisible :: "(u64 \<Rightarrow> bool) option"
  memcpy_ok :: bool
  device_bytes :: "DeviceSlice \<Rightarrow> bytes"
  ParsePackedValueForValue :: "bytes \<Rightarrow> nat \<times> nat"
  GetValueOfDefaultColumn :: "bytes \<Rightarrow> (nat \<times> nat) option"
  SetWideColumnValue_ok :: "bytes \<Rightarrow> bool"
  MergeWithPlainBaseValue :: "bytes \<Rightarrow> GDSGetContext \<Rightarrow> GDSGetContext"
  MergeWithWideColumnBaseValue :: "bytes \<Rightarrow> GDSGetContext \<Rightarrow> GDSGetContext"
  MergeWithNoBaseValue :: "GDSGetContext \<Rightarrow> GDSGetContext"
  ShouldMerge :: "bytes list \<Rightarrow> bool"
  continue_cb :: "(bytes \<Rightarrow> bool) option"

definition CheckCallback :: "get_env \<Rightarrow> u64 \<Rightarrow> bool" where
  "CheckCallback e seq = (case callback_IsVisible e of Some v \<Rightarrow> v seq | None \<Rightarrow> True)"

definition slice_offset :: "DeviceSlice \<Rightarrow> nat \<Rightarrow> nat \<Rightarrow> DeviceSlice" where
  "slice_offset s off n =
     \<lparr>slice_data = (case slice_data s of NullPtr \<Rightarrow> NullPtr | DevPtr region p \<Rightarrow> DevPtr region (p + off)), slice_size = n\<rparr>"

definition push_operand :: "bytes \<Rightarrow> GDSGetContext \<Rightarrow> GDSGetContext" where
  "push_operand v c = c\<lparr>gc_merge_context := map_option (\<lambda>ops. ops @ [v]) (gc_merge_context c)\<rparr>"

text \<open>Sequence number and timestamp.\<close>

definition save_seq :: "dbformat \<Rightarrow> ParsedInternalKey \<Rightarrow> GDSGetContext \<Rightarrow> GDSGetContext" where
  "save_seq f k c =
     (case gc_seq c of
        None \<Rightarrow> c
      | Some seq \<Rightarrow>
          let seq = (if seq = kMaxSequenceNumber f then pk_sequence k else seq);
              seq = (case gc_max_covering_tombstone_seq c of Some m \<Rightarrow> max seq m | None \<Rightarrow> seq)
          in c\<lparr>gc_seq := Some seq\<rparr>)"

definition save_timestamp :: "get_env \<Rightarrow> ParsedInternalKey \<Rightarrow> GDSGetContext \<Rightarrow> (bytes \<times> GDSGetContext) outcome" where
  "save_timestamp e k c =
     (let ts_sz = timestamp_size e
      in if ts_sz = 0 then Returns ([], c)
         else
           let ts = ExtractTimestampFromUserKey e (pk_user_key k) ts_sz
           in case gc_timestamp c of
                None \<Rightarrow> Returns (ts, c)
              | Some t \<Rightarrow>
                  if t \<noteq> [] \<and> ts_sz \<noteq> length t then Undefined ''assert(ts_sz == timestamp_->size())''
                  else if t \<noteq> [] \<and> gc_ts_from_rangetombstone c \<and> gc_max_covering_tombstone_seq c = None
                  then Undefined ''assert(max_covering_tombstone_seq_)''
                  else
                    let (t, c) =
                          (if t \<noteq> [] \<and> gc_ts_from_rangetombstone c \<and>
                              pk_sequence k > the (gc_max_covering_tombstone_seq c)
                           then (ts, c\<lparr>gc_ts_from_rangetombstone := False\<rparr>) else (t, c));
                        kMaxTs = replicate ts_sz 0xff;
                        t = (if t = [] \<or> CompareTimestamp e t kMaxTs = 0 then ts else t)
                    in Returns (ts, c\<lparr>gc_timestamp := Some t\<rparr>))"

text \<open>
  A copy of a value to the host; \<open>MLKV_CUDA_CHECK\<close> throws when it fails.
\<close>

definition copy_to_host :: "get_env \<Rightarrow> DeviceSlice \<Rightarrow> bytes outcome" where
  "copy_to_host e v = (if memcpy_ok e then Returns (device_bytes e v) else Throws ''CUDA error'')"

section \<open>Saving a value\<close>

text \<open>The result of \<open>SaveValue\<close>: whether to go on, the read status and the context.\<close>

type_synonym save_result = "bool \<times> Status \<times> GDSGetContext"

definition default_column :: "get_env \<Rightarrow> DeviceSlice \<Rightarrow> (nat \<times> nat \<times> bytes) option outcome" where
  "default_column e v =
     bind_outcome (copy_to_host e v)
       (\<lambda>cpu. Returns (case GetValueOfDefaultColumn e cpu of
                         None \<Rightarrow> None
                       | Some (off, n) \<Rightarrow> Some (off, n, read_at cpu off n)))"

text \<open>From \<open>kNotFound\<close> to \<open>kFound\<close>; the state is already \<open>kFound\<close>.\<close>

definition save_found :: "dbformat \<Rightarrow> get_env \<Rightarrow> byte \<Rightarrow> DeviceSlice \<Rightarrow> GDSGetContext \<Rightarrow> save_result outcome" where
  "save_found f e type v c =
     (if gc_do_merge c
      then
        (case gc_device_value c of
           Some _ \<Rightarrow>
             if type = kTypeWideColumnEntity f
             then bind_outcome (default_column e v)
                    (\<lambda>r. case r of
                           None \<Rightarrow> Returns (False, StOK, c\<lparr>gc_state := kCorrupt\<rparr>)
                         | Some (off, n, _) \<Rightarrow> Returns (False, StOK, c\<lparr>gc_device_value := Some (slice_offset v off n)\<rparr>))
             else Returns (False, StOK, c\<lparr>gc_device_value := Some v\<rparr>)
         | None \<Rightarrow>
             (case gc_columns c of
                None \<Rightarrow> Returns (False, StOK, c)
              | Some _ \<Rightarrow>
                  bind_outcome (copy_to_host e v)
                    (\<lambda>cpu. if type = kTypeWideColumnEntity f
                           then if SetWideColumnValue_ok e cpu
                                then Returns (False, StOK, c\<lparr>gc_columns := Some (WideColumnValue cpu)\<rparr>)
                                else Returns (False, StOK, c\<lparr>gc_state := kCorrupt\<rparr>)
                           else Returns (False, StOK, c\<lparr>gc_columns := Some (PlainValue cpu)\<rparr>))))
      else if type = kTypeWideColumnEntity f
      then bind_outcome (default_column e v)
             (\<lambda>r. case r of
                    None \<Rightarrow> Returns (False, StOK, c\<lparr>gc_state := kCorrupt\<rparr>)
                  | Some (_, _, val) \<Rightarrow> Returns (False, StOK, push_operand val c))
      else if type \<noteq> kTypeValueDB f \<and> type \<noteq> kTypeValuePreferredSeqno f
      then Undefined ''assert(type == kTypeValue || type == kTypeValuePreferredSeqno)''
      else bind_outcome (copy_to_host e v) (\<lambda>cpu. Returns (False, StOK, push_operand cpu c)))"

text \<open>From \<open>kMerge\<close> to \<open>kFound\<close>, with the merge operands seen so far.\<close>

definition save_merged :: "dbformat \<Rightarrow> get_env \<Rightarrow> byte \<Rightarrow> DeviceSlice \<Rightarrow> GDSGetContext \<Rightarrow> save_result outcome" where
  "save_merged f e type v c =
     (if \<not> gc_merge_operator c then Undefined ''assert(merge_operator_ != nullptr)''
      else
        let c = c\<lparr>gc_state := kFound\<rparr>
        in if type = kTypeWideColumnEntity f
           then
             if gc_do_merge c
             then bind_outcome (copy_to_host e v) (\<lambda>cpu. Returns (False, StOK, MergeWithWideColumnBaseValue e cpu c))
             else bind_outcome (default_column e v)
                    (\<lambda>r. case r of
                           None \<Rightarrow> Returns (False, StOK, c\<lparr>gc_state := kCorrupt\<rparr>)
                         | Some (_, _, val) \<Rightarrow> Returns (False, StOK, push_operand val c))
           else if type \<noteq> kTypeValueDB f \<and> type \<noteq> kTypeValuePreferredSeqno f
           then Undefined ''assert(type == kTypeValue || type == kTypeValuePreferredSeqno)''
           else if gc_do_merge c
           then bind_outcome (copy_to_host e v) (\<lambda>cpu. Returns (False, StOK, MergeWithPlainBaseValue e cpu c))
           else bind_outcome (copy_to_host e v) (\<lambda>cpu. Returns (False, StOK, push_operand cpu c)))"

definition state_assert :: "GDSGetContext \<Rightarrow> 'r outcome \<Rightarrow> 'r outcome" where
  "state_assert c r =
     (if gc_state c = kNotFound \<or> gc_state c = kMerge then r
      else Undefined ''assert(state_ == kNotFound || state_ == kMerge)'')"

text \<open>The branch of the value types.\<close>

definition save_value_type :: "dbformat \<Rightarrow> get_env \<Rightarrow> byte \<Rightarrow> DeviceSlice \<Rightarrow> GDSGetContext \<Rightarrow> save_result outcome" where
  "save_value_type f e type v c =
     state_assert c
       (if type = kTypeValuePreferredSeqno f \<and> \<not> memcpy_ok e
        then Returns (False, StIOError ''Failed to copy packed value'', c\<lparr>gc_state := kCorrupt\<rparr>)
        else
          let unpacked = (if type = kTypeValuePreferredSeqno f
                          then (let (off, n) = ParsePackedValueForValue e (device_bytes e v) in slice_offset v off n)
                          else v)
          in if type = kTypeBlobIndex f
             then Returns (False, StNotSupported ''GDS SaveValue does not support kTypeBlobIndex'', c\<lparr>gc_state := kCorrupt\<rparr>)
             else if gc_is_blob_index c \<noteq> None
             then Returns (False, StNotSupported ''GDS does not support blob index operations'', c\<lparr>gc_is_blob_index := Some False\<rparr>)
             else if gc_state c = kNotFound
             then save_found f e type unpacked (c\<lparr>gc_state := kFound\<rparr>)
             else save_merged f e type unpacked c)"

definition save_deletion :: "get_env \<Rightarrow> GDSGetContext \<Rightarrow> save_result outcome" where
  "save_deletion e c =
     state_assert c
       (if gc_state c = kNotFound then Returns (False, StOK, c\<lparr>gc_state := kDeleted\<rparr>)
        else
          let c = c\<lparr>gc_state := kFound\<rparr>
          in Returns (False, StOK, if gc_do_merge c then MergeWithNoBaseValue e c else c))"

definition save_merge_operand :: "get_env \<Rightarrow> DeviceSlice \<Rightarrow> GDSGetContext \<Rightarrow> save_result outcome" where
  "save_merge_operand e v c =
     state_assert c
       (let c = c\<lparr>gc_state := kMerge\<rparr>
        in bind_outcome (copy_to_host e v)
             (\<lambda>cpu.
                let c = push_operand cpu c
                in if gc_do_merge c \<and> gc_merge_operator c \<and> ShouldMerge e (the (gc_merge_context c))
                   then Returns (False, StOK, MergeWithNoBaseValue e (c\<lparr>gc_state := kFound\<rparr>))
                   else if (case continue_cb e of Some cb \<Rightarrow> \<not> cb cpu | None \<Rightarrow> False)
                   then Returns (False, StOK, c\<lparr>gc_state := kFound\<rparr>)
                   else Returns (True, StOK, c)))"

text \<open>The type that is dispatched on: an entry below a covering range tombstone counts as deleted.\<close>

definition effective_type :: "dbformat \<Rightarrow> ParsedInternalKey \<Rightarrow> GDSGetContext \<Rightarrow> byte" where
  "effective_type f k c =
     (if pk_type k \<in> {kTypeValueDB f, kTypeValuePreferredSeqno f, kTypeMerge f, kTypeBlobIndex f, kTypeWideColumnEntity f,
                      kTypeDeletion f, kTypeDeletionWithTimestamp f, kTypeSingleDeletion f} \<and>
         (case gc_max_covering_tombstone_seq c of Some m \<Rightarrow> m > pk_sequence k | None \<Rightarrow> False)
      then kTypeRangeDeletion f else pk_type k)"

definition save_by_type :: "dbformat \<Rightarrow> get_env \<Rightarrow> ParsedInternalKey \<Rightarrow> DeviceSlice \<Rightarrow> GDSGetContext \<Rightarrow> save_result outcome" where
  "save_by_type f e k v c =
     (let type = effective_type f k c
      in if type \<in> {kTypeValueDB f, kTypeValuePreferredSeqno f, kTypeBlobIndex f, kTypeWideColumnEntity f}
         then save_value_type f e type v c
         else if type \<in> {kTypeDeletion f, kTypeDeletionWithTimestamp f, kTypeSingleDeletion f, kTypeRangeDeletion f}
         then save_deletion e c
         else if type = kTypeMerge f then save_merge_operand e v c
         else Undefined ''assert(false)'')"

text \<open>
  The whole method: matched flag, result to go on, read status and context.
\<close>

definition SaveValue ::
  "dbformat \<Rightarrow> get_env \<Rightarrow> ParsedInternalKey \<Rightarrow> DeviceSlice \<Rightarrow> bool \<Rightarrow> GDSGetContext \<Rightarrow> (bool \<times> save_result) outcome" where
  "SaveValue f e k v matched c =
     (if \<not> (gc_state c \<noteq> kMerge \<and> pk_type k \<noteq> kTypeMerge f \<or> gc_merge_context c \<noteq> None)
      then Undefined ''assert(merge_context_ != nullptr)''
      else if \<not> EqualWithoutTimestamp e (pk_user_key k) (gc_user_key c) then Returns (matched, False, StOK, c)
      else if \<not> CheckCallback e (pk_sequence k) then Returns (True, True, StOK, c)
      else
        bind_outcome (save_timestamp e k (save_seq f k c))
          (\<lambda>(ts, c).
             case gc_replay_log c of
               Some l \<Rightarrow>
                 if \<not> memcpy_ok e
                 then Returns (True, False, StIOError ''Failed to copy value for replay log'', c)
                 else bind_outcome (save_by_type f e k v (c\<lparr>gc_replay_log := Some (l @ [(pk_type k, device_bytes e v, ts)])\<rparr>))
                        (\<lambda>r. Returns (True, r))
             | None \<Rightarrow> bind_outcome (save_by_type f e k v c) (\<lambda>r. Returns (True, r))))"

section \<open>Parsing\<close>

text \<open>The parts of an internal key, and the internal key of the parts.\<close>

definition parsed_key :: "bytes \<Rightarrow> ParsedInternalKey" where
  "parsed_key k = \<lparr>pk_user_key = user_key_of k, pk_sequence = drop_bit 8 (seq_type_of k), pk_type = ucast (seq_type_of k)\<rparr>"

definition make_ikey :: "bytes \<Rightarrow> u64 \<Rightarrow> byte \<Rightarrow> bytes" where
  "make_ikey user_key seq type = user_key @ PutFixed64 (push_bit 8 seq OR ucast type)"

lemma byte_of_num: "ucast ((num :: u64) AND 0xff) = (ucast num :: byte)"
  by (rule bit_word_eqI) (simp add: bit_simps and_0xff)

lemma tail_num_DecodeFixed64: "n + 8 \<le> length k \<Longrightarrow> tail_num k n = DeviceDecodeFixed64 (drop n k)"
  by (simp add: tail_num_def kInternalKeyTail_def DeviceDecodeFixed64_def upt_rec or.assoc)
    (simp add: eval_nat_numeral)

lemma ParseInternalKeyOnDevice_eq:
  "ParseInternalKeyOnDevice f k r =
     (if internal_key k then (DeviceIsExtendedValueType f (pk_type (parsed_key k)), parsed_key k) else (False, r))"
proof (cases "internal_key k")
  case True
  then have n: "\<not> length k < kNumInternalBytes" "length k - kInternalKeyTail + 8 \<le> length k"
    by (simp_all add: internal_key_def kInternalKeyTail_def kNumInternalBytes_def)
  have "seq_type_of k = DeviceDecodeFixed64 (drop (length k - kNumInternalBytes) k)"
    unfolding seq_type_of_def tail_num_DecodeFixed64 [OF n(2)] by (simp add: kInternalKeyTail_def kNumInternalBytes_def)
  then show ?thesis
    using True n(1)
    by (simp add: ParseInternalKeyOnDevice_def Let_def parsed_key_def byte_of_num user_key_of_def kInternalKeyTail_def
        kNumInternalBytes_def)
qed (simp add: ParseInternalKeyOnDevice_def internal_key_def kInternalKeyTail_def kNumInternalBytes_def)

lemma make_ikey_parts:
  assumes "seq < 2 ^ 56"
  shows "internal_key (make_ikey u seq t)" "parsed_key (make_ikey u seq t) = \<lparr>pk_user_key = u, pk_sequence = seq, pk_type = t\<rparr>"
proof -
  have len: "length (make_ikey u seq t) - kInternalKeyTail = length u" by (simp add: make_ikey_def kInternalKeyTail_def)
  have num: "seq_type_of (make_ikey u seq t) = push_bit 8 seq OR ucast t"
    unfolding seq_type_of_def len
    using tail_num_DecodeFixed64 [of "length u" "make_ikey u seq t"] DeviceDecodeFixed64_PutFixed64 [of "push_bit 8 seq OR ucast t" "[]"]
    by (simp add: make_ikey_def)
  have seq: "take_bit 56 seq = seq" using assms less_exp_iff_take_bit [of 56 seq] by simp
  have "drop_bit 8 (push_bit 8 seq OR ucast t) = seq"
  proof (rule bit_word_eqI)
    fix n assume "n < LENGTH(64)"
    have "bit seq n \<Longrightarrow> n < 56" using arg_cong [OF seq, of "\<lambda>x. bit x n"] by (auto simp: bit_simps)
    then show "bit (drop_bit 8 (push_bit 8 seq OR (ucast t :: u64))) n = bit seq n"
      by (auto simp: bit_simps dest: bit_imp_le_length)
  qed
  moreover have "ucast (push_bit 8 seq OR ucast t :: u64) = t"
    by (rule bit_word_eqI) (auto simp: bit_simps dest: bit_imp_le_length)
  ultimately show "parsed_key (make_ikey u seq t) = \<lparr>pk_user_key = u, pk_sequence = seq, pk_type = t\<rparr>"
    by (simp add: parsed_key_def num user_key_of_def len) (simp add: make_ikey_def)
  show "internal_key (make_ikey u seq t)" by (simp add: internal_key_def kInternalKeyTail_def make_ikey_def)
qed

section \<open>Saving a plain entry\<close>

text \<open>
  What \<open>SaveValue\<close> relies on of the codes: they are different.  The parser of the host gives the parts of
  every key whose type is valid.
\<close>

definition types_ok :: "dbformat \<Rightarrow> bool" where
  "types_ok f \<longleftrightarrow>
     distinct [kTypeDeletion f, kTypeValueDB f, kTypeMerge f, kTypeSingleDeletion f, kTypeRangeDeletion f, kTypeBlobIndex f,
               kTypeDeletionWithTimestamp f, kTypeWideColumnEntity f, kTypeValuePreferredSeqno f]"

definition host_parser_ok :: "dbformat \<Rightarrow> bool" where
  "host_parser_ok f \<longleftrightarrow>
     (\<forall>k. internal_key k \<longrightarrow> DeviceIsExtendedValueType f (pk_type (parsed_key k)) \<longrightarrow> ParseInternalKey f k = (StOK, parsed_key k))"

text \<open>
  A lookup of one key without snapshots other than the sequence number of the key: no timestamps, no callback, no
  range tombstone, no blob index, no replay log, and a place for the value.
\<close>

definition plain_env :: "get_env \<Rightarrow> bool" where
  "plain_env e \<longleftrightarrow> timestamp_size e = 0 \<and> callback_IsVisible e = None \<and> (\<forall>a b. EqualWithoutTimestamp e a b = (a = b))"

definition fresh_context :: "bytes \<Rightarrow> GDSGetContext \<Rightarrow> bool" where
  "fresh_context u c \<longleftrightarrow>
     gc_state c = kNotFound \<and> gc_user_key c = u \<and> gc_device_value c \<noteq> None \<and> gc_do_merge c \<and>
     gc_max_covering_tombstone_seq c = None \<and> gc_seq c = None \<and> gc_is_blob_index c = None \<and> gc_replay_log c = None"

definition is_deletion :: "dbformat \<Rightarrow> byte \<Rightarrow> bool" where
  "is_deletion f t \<longleftrightarrow> t \<in> {kTypeDeletion f, kTypeDeletionWithTimestamp f, kTypeSingleDeletion f, kTypeRangeDeletion f}"

text \<open>The context after an entry was saved.\<close>

definition saved :: "dbformat \<Rightarrow> ParsedInternalKey \<Rightarrow> DeviceSlice \<Rightarrow> GDSGetContext \<Rightarrow> GDSGetContext" where
  "saved f k v c =
     (if pk_user_key k \<noteq> gc_user_key c then c
      else if pk_type k = kTypeValueDB f then c\<lparr>gc_state := kFound, gc_device_value := Some v\<rparr>
      else c\<lparr>gc_state := kDeleted\<rparr>)"

lemma SaveValue_plain:
  assumes "types_ok f" "plain_env e" "fresh_context u c" "pk_type k = kTypeValueDB f \<or> is_deletion f (pk_type k)"
  shows "SaveValue f e k v m c = Returns (m \<or> pk_user_key k = u, False, StOK, saved f k v c)"
proof (cases "pk_user_key k = u")
  case True
  have c: "gc_state c = kNotFound" "gc_user_key c = u" "gc_do_merge c" "gc_max_covering_tombstone_seq c = None"
    "gc_seq c = None" "gc_is_blob_index c = None" "gc_replay_log c = None" and dv: "\<exists>d. gc_device_value c = Some d"
    using assms(3) by (auto simp: fresh_context_def)
  have merge: "pk_type k \<noteq> kTypeMerge f" using assms(1,4) by (auto simp: types_ok_def is_deletion_def)
  have pre: "save_timestamp e k (save_seq f k c) = Returns ([], c)" "CheckCallback e (pk_sequence k)"
    "EqualWithoutTimestamp e u u"
    using assms(2) c by (simp_all add: save_timestamp_def save_seq_def plain_env_def CheckCallback_def)
  have type: "effective_type f k c = pk_type k" using c by (simp add: effective_type_def)
  have "save_by_type f e k v c = Returns (False, StOK, saved f k v c)"
  proof (cases "pk_type k = kTypeValueDB f")
    case val: True
    have "save_value_type f e (kTypeValueDB f) v c = Returns (False, StOK, c\<lparr>gc_state := kFound, gc_device_value := Some v\<rparr>)"
      using assms(1) c dv by (auto simp: save_value_type_def state_assert_def save_found_def types_ok_def Let_def)
    then show ?thesis using val c True by (simp add: save_by_type_def type saved_def)
  next
    case False
    then have "is_deletion f (pk_type k)" using assms(4) by simp
    then have "pk_type k \<notin> {kTypeValueDB f, kTypeValuePreferredSeqno f, kTypeBlobIndex f, kTypeWideColumnEntity f}"
      "pk_type k \<in> {kTypeDeletion f, kTypeDeletionWithTimestamp f, kTypeSingleDeletion f, kTypeRangeDeletion f}"
      using assms(1) by (auto simp: is_deletion_def types_ok_def)
    then show ?thesis using c True False by (simp add: save_by_type_def type saved_def save_deletion_def state_assert_def Let_def)
  qed
  then show ?thesis using True c merge pre by (simp add: SaveValue_def)
next
  case False
  then show ?thesis
    using assms by (auto simp: SaveValue_def saved_def fresh_context_def plain_env_def types_ok_def is_deletion_def)
qed

section \<open>Properties\<close>

text \<open>
  C21: internal keys are parsed back in a batch.  For every schedule of the threads, the batch kernel on the internal
  keys made of user keys, sequence numbers below \<open>2 ^ 56\<close> and types stores exactly these parts, and flags a key as
  parsed exactly when its type is valid.
\<close>

theorem batch_parse_roundtrip:
  assumes "\<forall>(u, seq, t) \<in> set parts. seq < 2 ^ 56" and "length parts \<le> n_threads"
    and "length results = length parts" and "length flags = length parts"
  defines "keys \<equiv> map (\<lambda>(u, seq, t). make_ikey u seq t) parts"
  shows "launch sched (fst \<circ> ParseInternalKeyBatchKernel f keys results (length parts)) n_threads results =
           map (\<lambda>(u, seq, t). \<lparr>pk_user_key = u, pk_sequence = seq, pk_type = t\<rparr>) parts \<and>
         launch sched (snd \<circ> ParseInternalKeyBatchKernel f keys results (length parts)) n_threads flags =
           map (\<lambda>(u, seq, t). DeviceIsExtendedValueType f t) parts"
proof -
  let ?n = "length parts"
  define g where "g = (\<lambda>i. ParseInternalKeyOnDevice f (keys ! i) (results ! i))"
  have g: "g i = (case parts ! i of (u, seq, t) \<Rightarrow>
      (DeviceIsExtendedValueType f t, \<lparr>pk_user_key = u, pk_sequence = seq, pk_type = t\<rparr>))" if "i < ?n" for i
  proof -
    obtain u seq t where p: "parts ! i = (u, seq, t)" by (metis prod_cases3)
    have "(u, seq, t) \<in> set parts" using nth_mem [OF that] p by simp
    then have "seq < 2 ^ 56" using assms(1) by auto
    then show ?thesis using that p make_ikey_parts by (simp add: g_def keys_def ParseInternalKeyOnDevice_eq)
  qed
  have body: "ParseInternalKeyBatchKernel f keys results ?n i = (if i < ?n then ([(i, [snd (g i)])], [(i, [fst (g i)])]) else ([], []))" for i
    by (simp add: ParseInternalKeyBatchKernel_def g_def split: prod.split)
  have "launch sched (fst \<circ> ParseInternalKeyBatchKernel f keys results ?n) n_threads results = map (snd \<circ> g) [0..<?n] @ drop ?n results"
    by (rule launch_cells) (use assms(2,3) in \<open>simp_all add: body\<close>)
  moreover have "launch sched (snd \<circ> ParseInternalKeyBatchKernel f keys results ?n) n_threads flags = map (fst \<circ> g) [0..<?n] @ drop ?n flags"
    by (rule launch_cells) (use assms(2,4) in \<open>simp_all add: body\<close>)
  moreover have "map (snd \<circ> g) [0..<?n] = map (\<lambda>(u, seq, t). \<lparr>pk_user_key = u, pk_sequence = seq, pk_type = t\<rparr>) parts"
    "map (fst \<circ> g) [0..<?n] = map (\<lambda>(u, seq, t). DeviceIsExtendedValueType f t) parts"
    by (auto intro!: nth_equalityI simp: g split: prod.split)
  ultimately show ?thesis using assms(3,4) by simp
qed

definition example_format :: dbformat where
  "example_format =
     \<lparr>kTypeDeletion = 0, kTypeValueDB = 1, kTypeMerge = 2, kTypeSingleDeletion = 7, kTypeRangeDeletion = 15,
      kTypeBlobIndex = 17, kTypeDeletionWithTimestamp = 20, kTypeWideColumnEntity = 22, kTypeValuePreferredSeqno = 24,
      kTypeMaxValid = 26, kMaxSequenceNumber = 2 ^ 56 - 1, ParseInternalKey = (\<lambda>k. (StOK, parsed_key k))\<rparr>"

lemma example_format_ok: "types_ok example_format" "host_parser_ok example_format"
  by (simp_all add: types_ok_def example_format_def host_parser_ok_def)

theorem batch_parse_roundtrip_witness:
  "launch [1, 0, 1] (snd \<circ> ParseInternalKeyBatchKernel example_format [make_ikey [97] 5 1, make_ikey [98, 99] 6 3]
       (replicate 2 (parsed_key [])) (Suc (Suc 0))) 256 [False, False] = [True, False]"
  using batch_parse_roundtrip [of "[([97], 5, 1), ([98, 99], 6, 3)]" 256 "replicate 2 (parsed_key [])" "[False, False]" "[1, 0, 1]" example_format]
  by (simp add: example_format_def DeviceIsExtendedValueType_def DeviceIsValueType_def)

end
