(* ===== verification/GDS_Table_Reader.thy ===== *)
theory GDS_Table_Reader
  imports GDS_Random_Access GDS_Block_Seek GDS_Get_Context
begin

text \<open>
  The table reader of \<^verbatim>\<open>gds/gds_block_based_table_reader.cu\<close>: reading a data block to device memory
  through \<open>GDSRandomAccessFile\<close>, building a block and an iterator on it, and the point lookup \<open>Get\<close>,
  with the filter and timestamp tests it takes from \<^verbatim>\<open>block_based_table_reader.cc\<close>.

  The index, the filter and the prefix extractor are RocksDB objects: the record \<open>table_env\<close> holds the
  index entries an index iterator visits from a seek position on, with the status it ends with, and the tests
  of the filter. The bytes a slice of a block denotes are those of the file object's memory, since the
  contents of a block read with a null scratch pointer are a reference into the file's own buffer or into
  the cache pool.
\<close>

section \<open>Prefixes, filters and timestamps\<close>

record SliceTransform =
  st_address :: nat
  st_AsString :: string
  InDomain :: "bytes \<Rightarrow> bool"
  Transform :: "bytes \<Rightarrow> bytes"

definition PrefixExtractorChangedHelper :: "string option \<Rightarrow> SliceTransform option \<Rightarrow> bool" where
  "PrefixExtractorChangedHelper table_prefix_extractor_name prefix_extractor =
     (case prefix_extractor of
        None \<Rightarrow> True
      | Some pe \<Rightarrow>
          (case table_prefix_extractor_name of
             None \<Rightarrow> True
           | Some name \<Rightarrow> if name = [] then True else if name \<noteq> st_AsString pe then True else False))"

record FilterBlockReader =
  KeyMayMatch :: "bytes \<Rightarrow> bool"
  PrefixMayMatch :: "bytes \<Rightarrow> bool"

record IndexValue =
  iv_handle :: DeviceBlockHandle
  iv_first_ikey :: bytes

record ReadOptions =
  ro_timestamp :: "bytes option"
  ro_block_cache_tier :: bool

text \<open>
  The parameters: the CUDA environment, the comparator's timestamp operations, and the index iterator.
\<close>

record table_env =
  te_ra :: ra_env
  te_malloc_ok :: bool
  te_get :: get_env
  StripTimestampFromUserKey :: "bytes \<Rightarrow> nat \<Rightarrow> bytes"
  CompareWithoutTimestamp :: "bytes \<Rightarrow> bytes \<Rightarrow> int"
  index_seek :: "bool \<Rightarrow> bytes \<Rightarrow> IndexValue list"
  index_status :: Status

record GDSBlockBasedTableReader =
  tr_gds_file :: GDSRandomAccessFile
  tr_trailer_size :: nat
  tr_decompressor :: bool
  tr_comparator :: string
  tr_filter :: "FilterBlockReader option"
  tr_whole_key_filtering :: bool
  tr_min_timestamp :: bytes
  tr_hash_search :: bool
  tr_prefix_extractor_name :: "string option"
  tr_table_prefix_extractor :: "SliceTransform option"

definition TimestampMayMatch :: "table_env \<Rightarrow> ReadOptions \<Rightarrow> GDSBlockBasedTableReader \<Rightarrow> bool" where
  "TimestampMayMatch env ro t =
     (case ro_timestamp ro of
        None \<Rightarrow> True
      | Some read_ts \<Rightarrow>
          if tr_min_timestamp t \<noteq> []
          then if CompareTimestamp (te_get env) read_ts (tr_min_timestamp t) < 0 then False else True
          else True)"

definition PrefixExtractorChanged :: "SliceTransform option \<Rightarrow> GDSBlockBasedTableReader \<Rightarrow> bool" where
  "PrefixExtractorChanged prefix_extractor t =
     (case prefix_extractor of
        None \<Rightarrow> True
      | Some pe \<Rightarrow>
          if map_option st_address (tr_table_prefix_extractor t) = Some (st_address pe) then False
          else PrefixExtractorChangedHelper (tr_prefix_extractor_name t) prefix_extractor)"

definition FullFilterKeyMayMatch ::
  "table_env \<Rightarrow> FilterBlockReader option \<Rightarrow> bytes \<Rightarrow> SliceTransform option \<Rightarrow> GDSBlockBasedTableReader \<Rightarrow> bool" where
  "FullFilterKeyMayMatch env filt ikey prefix_extractor t =
     (case filt of
        None \<Rightarrow> True
      | Some fb \<Rightarrow>
          let user_key_without_ts = StripTimestampFromUserKey env (user_key_of ikey) (timestamp_size (te_get env))
          in if tr_whole_key_filtering t then KeyMayMatch fb user_key_without_ts
             else if \<not> PrefixExtractorChanged prefix_extractor t \<and> InDomain (the prefix_extractor) user_key_without_ts
             then PrefixMayMatch fb (Transform (the prefix_extractor) user_key_without_ts)
             else True)"

section \<open>Reading blocks\<close>

text \<open>The bytes of a slice of the file object's memory.\<close>

definition slice_bytes :: "GDSRandomAccessFile \<Rightarrow> DeviceSlice \<Rightarrow> bytes" where
  "slice_bytes s v = result_bytes s (v, None)"

definition GDSReadBlock ::
  "ra_env \<Rightarrow> GDSRandomAccessFile \<Rightarrow> DeviceBlockHandle \<Rightarrow> nat \<Rightarrow>
     (Status \<times> DeviceBlockContents option \<times> GDSRandomAccessFile) outcome" where
  "GDSReadBlock env s handle trailer_size =
     (let block_size = bh_size handle;
          block_size_with_trailer = unat (block_size + word_of_nat trailer_size)
      in bind_outcome (Read env s (unat (bh_offset handle)) block_size_with_trailer None)
           (\<lambda>(io_status, res, s).
              if \<not> io_ok io_status then Returns (StIOError (''GDS read failed: '' @ io_message io_status), None, s)
              else
                case res of
                  None \<Rightarrow> Returns (StCorruption ''Truncated block read'', None, s)
                | Some (result, _) \<Rightarrow>
                    if slice_size result \<noteq> block_size_with_trailer
                    then Returns (StCorruption ''Truncated block read'', None, s)
                    else Returns (StOK, Some (dbc_ref \<lparr>slice_data = slice_data result, slice_size = unat block_size\<rparr>), s)))"

text \<open>A parsed block is the block and the contents it was built from.\<close>

type_synonym parsed_block = "DeviceBlock \<times> DeviceBlockContents"

definition GDSReadAndParseBlockFromFile ::
  "table_env \<Rightarrow> GDSRandomAccessFile \<Rightarrow> DeviceBlockHandle \<Rightarrow> nat \<Rightarrow> bool \<Rightarrow>
     (Status \<times> parsed_block option \<times> GDSRandomAccessFile) outcome" where
  "GDSReadAndParseBlockFromFile env s handle trailer_size maybe_compressed =
     (if maybe_compressed then Returns (StNotSupported ''Compression is disabled for GDS reads'', None, s)
      else
        bind_outcome (GDSReadBlock (te_ra env) s handle trailer_size)
          (\<lambda>(st, contents, s).
             case contents of
               None \<Rightarrow> Returns (st, None, s)
             | Some device_contents \<Rightarrow>
                 if \<not> status_ok st then Returns (st, None, s)
                 else
                   (case new_DeviceBlock (te_malloc_ok env) (slice_bytes s (dbc_data device_contents)) (own_bytes device_contents) of
                      Returns d \<Rightarrow> Returns (StOK, Some (d, device_contents), s)
                    | Throws what \<Rightarrow> Returns (StNotSupported what, None, s)
                    | Exits m \<Rightarrow> Exits m
                    | Undefined m \<Rightarrow> Undefined m)))"

definition RetrieveBlock ::
  "table_env \<Rightarrow> ReadOptions \<Rightarrow> DeviceBlockHandle \<Rightarrow> bool \<Rightarrow> GDSBlockBasedTableReader \<Rightarrow>
     (Status \<times> parsed_block option \<times> GDSBlockBasedTableReader) outcome" where
  "RetrieveBlock env ro handle use_cache t =
     (if use_cache then Returns (StNotSupported ''Cache is disabled for GDS reads'', None, t)
      else if ro_block_cache_tier ro then Returns (StIncomplete ''no blocking io'', None, t)
      else if tr_decompressor t then Returns (StNotSupported ''Compression is disabled for GDS reads'', None, t)
      else
        bind_outcome (GDSReadAndParseBlockFromFile env (tr_gds_file t) handle (tr_trailer_size t) False)
          (\<lambda>(s, block, f). let t = t\<lparr>tr_gds_file := f\<rparr> in if \<not> status_ok s then Returns (s, None, t) else Returns (s, block, t)))"

definition InitBlockIterator ::
  "table_env \<Rightarrow> GDSBlockBasedTableReader \<Rightarrow> DeviceBlock \<Rightarrow> GDSDataBlockIter \<Rightarrow> GDSDataBlockIterDevicePinnedBuffer option \<Rightarrow>
     GDSDataBlockIter outcome" where
  "InitBlockIterator env t block input_iter buffer =
     NewDataIterator (te_malloc_ok env) (Some (tr_comparator t)) buffer (Some input_iter) block"

text \<open>
  The iterator, the slice of its block, and the reader. An error is put into the status of the iterator.
\<close>

definition NewDataBlockIterator ::
  "table_env \<Rightarrow> ReadOptions \<Rightarrow> DeviceBlockHandle \<Rightarrow> GDSDataBlockIter option \<Rightarrow> Status \<Rightarrow>
     GDSDataBlockIterDevicePinnedBuffer option \<Rightarrow> GDSBlockBasedTableReader \<Rightarrow>
     (GDSDataBlockIter \<times> DeviceSlice \<times> GDSBlockBasedTableReader) outcome" where
  "NewDataBlockIterator env ro handle input_iter s buffer t =
     (let it = (case input_iter of Some it \<Rightarrow> it | None \<Rightarrow> new_GDSDataBlockIter);
          null_slice = \<lparr>slice_data = NullPtr, slice_size = 0\<rparr>
      in if \<not> status_ok s then Returns (gi_Invalidate s it, null_slice, t)
         else
           bind_outcome (RetrieveBlock env ro handle False t)
             (\<lambda>(s, block, t).
                case block of
                  None \<Rightarrow> if status_ok s then Undefined ''assert(block.GetValue() != nullptr)''
                          else Returns (gi_Invalidate s it, null_slice, t)
                | Some (d, contents) \<Rightarrow>
                    bind_outcome (InitBlockIterator env t d it buffer) (\<lambda>it. Returns (it, dbc_data contents, t))))"

section \<open>Point lookup\<close>

definition value_slice :: "DeviceSlice \<Rightarrow> GDSDataBlockIter \<Rightarrow> DeviceSlice" where
  "value_slice block_data it =
     (case gi_DValue it of
        None \<Rightarrow> \<lparr>slice_data = NullPtr, slice_size = 0\<rparr>
      | Some (off, n) \<Rightarrow> slice_offset block_data off (nat (n mod 2 ^ 64)))"

text \<open>One entry of a block: the loop ends with a status and the done flag, or goes on.\<close>

datatype entry_step =
    EntryEnd Status bool bool GDSDataBlockIter GDSGetContext
  | EntryNext bool GDSDataBlockIter GDSGetContext

definition get_entry ::
  "dbformat \<Rightarrow> get_env \<Rightarrow> DeviceSlice \<Rightarrow> bool \<Rightarrow> GDSDataBlockIter \<Rightarrow> GDSGetContext \<Rightarrow> entry_step outcome" where
  "get_entry f e block_data matched it c =
     (if \<not> gi_Valid it then Returns (EntryEnd StOK matched False it c)
      else
        bind_outcome (gi_key it)
          (\<lambda>key.
             let (pik_status, pk) = ParseInternalKey f key
             in if \<not> status_ok pik_status then Returns (EntryEnd pik_status matched False it c)
                else
                  bind_outcome (SaveValue f e pk (value_slice block_data it) matched c)
                    (\<lambda>(matched, ret, read_status, c).
                       if \<not> status_ok read_status then Returns (EntryEnd read_status matched False it c)
                       else if \<not> ret then Returns (EntryEnd StOK matched True it c)
                       else bind_outcome (NextImpl it) (\<lambda>it. Returns (EntryNext matched it c)))))"

partial_function (option) get_entries ::
  "dbformat \<Rightarrow> get_env \<Rightarrow> DeviceSlice \<Rightarrow> bool \<Rightarrow> GDSDataBlockIter \<Rightarrow> GDSGetContext \<Rightarrow>
     (Status \<times> bool \<times> bool \<times> GDSDataBlockIter \<times> GDSGetContext) outcome option" where
  "get_entries f e block_data matched it c =
     (case get_entry f e block_data matched it c of
        Returns st \<Rightarrow>
          (case st of
             EntryEnd s matched fin it c \<Rightarrow> Some (Returns (s, matched, fin, it, c))
           | EntryNext matched it c \<Rightarrow> get_entries f e block_data matched it c)
      | Throws m \<Rightarrow> Some (Throws m)
      | Exits m \<Rightarrow> Some (Exits m)
      | Undefined m \<Rightarrow> Some (Undefined m))"

definition status_incomplete :: "Status \<Rightarrow> bool" where
  "status_incomplete s = (case s of StIncomplete _ \<Rightarrow> True | _ \<Rightarrow> False)"

text \<open>One block: the status, the flags, and the state the next block starts from.\<close>

record get_state =
  gs_reader :: GDSBlockBasedTableReader
  gs_buffer :: "GDSDataBlockIterDevicePinnedBuffer option"
  gs_matched :: bool
  gs_context :: GDSGetContext

definition get_block ::
  "dbformat \<Rightarrow> table_env \<Rightarrow> ReadOptions \<Rightarrow> bytes \<Rightarrow> IndexValue \<Rightarrow> get_state \<Rightarrow> (Status \<times> bool \<times> get_state) outcome option" where
  "get_block f env ro d_key v g =
     bind_run (Some (NewDataBlockIterator env ro (iv_handle v) (Some new_GDSDataBlockIter) StOK (gs_buffer g) (gs_reader g)))
       (\<lambda>(biter, block_data, t).
          let g = g\<lparr>gs_reader := t\<rparr>
          in if ro_block_cache_tier ro \<and> status_incomplete (gi_status biter)
             then Some (Throws ''Not Supported: read_options.read_tier == kBlockCacheTier'')
             else if \<not> status_ok (gi_status biter) then Some (Returns (gi_status biter, False, g))
             else
               bind_run (SeekForGet d_key biter)
                 (\<lambda>(may_exist, biter).
                    if \<not> may_exist \<and> timestamp_size (te_get env) = 0
                    then Some (Returns (StOK, True, g\<lparr>gs_buffer := gi_buffer biter\<rparr>))
                    else
                      bind_run (get_entries f ((te_get env)\<lparr>device_bytes := slice_bytes (tr_gds_file t)\<rparr>) block_data
                                  (gs_matched g) biter (gs_context g))
                        (\<lambda>(s, matched, fin, biter, c).
                           let g = g\<lparr>gs_buffer := gi_buffer biter, gs_matched := matched, gs_context := c\<rparr>;
                               s = (if status_ok s then gi_status biter else s)
                           in Some (Returns (s, fin, g)))))"

text \<open>The loop over the entries of the index.\<close>

fun get_blocks ::
  "dbformat \<Rightarrow> table_env \<Rightarrow> ReadOptions \<Rightarrow> bytes \<Rightarrow> bytes \<Rightarrow> bool \<Rightarrow> IndexValue list \<Rightarrow> get_state \<Rightarrow>
     (Status \<times> get_state) outcome option" where
  "get_blocks f env ro key d_key skip_filters [] g = Some (Returns (StOK, g))"
| "get_blocks f env ro key d_key skip_filters (v # vs) g =
     (if iv_first_ikey v \<noteq> [] \<and> \<not> skip_filters \<and>
         CompareWithoutTimestamp env (user_key_of key) (user_key_of (iv_first_ikey v)) < 0
      then Some (Returns (StOK, g))
      else
        bind_run (get_block f env ro d_key v g)
          (\<lambda>(s, fin, g).
             if \<not> status_ok s then Some (Returns (s, g))
             else if fin then Some (Returns (StOK, g))
             else get_blocks f env ro key d_key skip_filters vs g))"

definition table_Get ::
  "dbformat \<Rightarrow> table_env \<Rightarrow> ReadOptions \<Rightarrow> bytes \<Rightarrow> bytes \<Rightarrow> SliceTransform option \<Rightarrow> bool \<Rightarrow> get_state \<Rightarrow>
     (Status \<times> get_state) outcome option" where
  "table_Get f env ro key d_key prefix_extractor skip_filters g =
     (if \<not> TimestampMayMatch env ro (gs_reader g) then Some (Returns (StOK, g))
      else if length key < 8 then Some (Undefined ''assert(key.size() >= 8)'')
      else
        let filt = (if \<not> skip_filters then tr_filter (gs_reader g) else None)
        in if \<not> FullFilterKeyMayMatch env filt key prefix_extractor (gs_reader g) then Some (Returns (StOK, g))
           else
             let need_upper_bound_check =
                   (if tr_hash_search (gs_reader g) then PrefixExtractorChanged prefix_extractor (gs_reader g) else False)
             in bind_run (get_blocks f env ro key d_key skip_filters (index_seek env need_upper_bound_check key)
                            (g\<lparr>gs_matched := False\<rparr>))
                  (\<lambda>(s, g).
                     Some (Returns (if status_ok s \<and> index_status env \<noteq> StNotFound then index_status env else s, g))))"

section \<open>Blocks of a file\<close>

lemma slice_bytes_offset:
  assumes "off + n \<le> slice_size v"
  shows "slice_bytes s (slice_offset v off n) = read_at (slice_bytes s v) off n"
  using assms by (auto simp: slice_bytes_def result_bytes_def slice_offset_def read_at_read_at split: dev_ptr.splits)
    (simp add: read_at_def)

lemma slice_bytes_take:
  "n \<le> slice_size v \<Longrightarrow> slice_bytes s \<lparr>slice_data = slice_data v, slice_size = n\<rparr> = take n (slice_bytes s v)"
  by (auto simp: slice_bytes_def result_bytes_def read_at_def min_def split: dev_ptr.splits)

text \<open>A read without a scratch buffer gives a slice of the file object's memory.\<close>

lemma cache_null_scratch:
  assumes "read_from_cache env s off n None = Returns (Some r, s')"
  shows "snd r = None"
proof -
  obtain c where c1: "ra_gpu_cache s = Some c" using assms by (cases "ra_gpu_cache s") (simp_all add: read_from_cache_def)
  obtain x c' where c2: "TryGet off n c = (x, c')" by fastforce
  obtain st s1 where e: "ra_EnsureGPUBuffer env (s\<lparr>ra_gpu_cache := Some c'\<rparr>) n = (st, s1)" by fastforce
  show ?thesis
    using assms unfolding read_from_cache_def Let_def c1 option.case c2 prod.case e
    by (auto simp: bind_outcome_Returns_iff split: option.split_asm if_split_asm)
qed

lemma let_rule: "(\<And>x. x = v \<Longrightarrow> P (f x)) \<Longrightarrow> P (Let v f)"
  by (simp add: Let_def)

lemma plan_read_need_temp: "need_temp_buffer (plan_read s off n (None = None))"
  unfolding plan_read_def
proof (rule let_rule, rule let_rule, rule let_rule, rule let_rule, goal_cases)
  case (1 a block_start p p')
  have "need_temp_buffer p" unfolding 1(3) by (simp add: Let_def)
  then have "need_temp_buffer p'" unfolding 1(4) by (simp add: Let_def)
  then show ?case by simp
qed

lemma null_results:
  "(if c then Returns (a, None, s1) else if d then Undefined m else if e then Undefined m'
    else case x of Inl y \<Rightarrow> Returns (b, None, s2) | Inr z \<Rightarrow> Returns (a', Some (v z, None), s3 z)) = Returns (st, Some r, s') \<Longrightarrow>
   snd r = None"
  by (auto split: if_split_asm sum.split_asm)

lemma disk_null_scratch:
  assumes "read_from_disk env s off n None = Returns (st, Some r, s')"
  shows "snd r = None"
proof -
  note need_temp = plan_read_need_temp [of s off n]
  obtain b s1 where e: "ra_EnsureGPUBuffer env s (read_n (plan_read s off n (None = (None :: bytes option)))) = (b, s1)" by fastforce
  show ?thesis
    using assms unfolding read_from_disk_def Let_def if_P [OF need_temp] e prod.case option.case
    by (elim null_results)
qed

lemma Read_null_scratch:
  assumes "Read env s off n None = Returns (st, Some r, s')"
  shows "snd r = None"
proof -
  obtain x s1 where x: "read_from_cache env s off n None = Returns (x, s1)"
    "(case x of Some res \<Rightarrow> Returns (io_OK, Some res, s1) | None \<Rightarrow> read_from_disk env s1 off n None) = Returns (st, Some r, s')"
    using assms by (auto simp: Read_def bind_outcome_Returns_iff split: if_split_asm)
  then show ?thesis
    using cache_null_scratch [of env s off n r s1] disk_null_scratch [of env s1 off n st r s'] by (cases x) auto
qed

text \<open>A data block of a table: its handle, its entries and its restart points; and where it lies in the file.\<close>

type_synonym table_block = "DeviceBlockHandle \<times> entry list \<times> nat list"

definition block_in_file :: "bytes \<Rightarrow> GDSOptions \<Rightarrow> bool \<Rightarrow> nat \<Rightarrow> table_block \<Rightarrow> bool" where
  "block_in_file content opts cached trailer blk =
     (case blk of (h, es, rs) \<Rightarrow>
        wf_block es rs \<and> unat (bh_size h) = length (block_bytes es rs) \<and>
        unat (bh_offset h) + (length (block_bytes es rs) + trailer) \<le> length content \<and>
        read_at content (unat (bh_offset h)) (length (block_bytes es rs)) = block_bytes es rs \<and>
        one_block opts cached (unat (bh_offset h)) (length (block_bytes es rs) + trailer))"

lemma GDSReadBlock_ok:
  assumes ready: "ra_ready content opts cached s" and env: "read_env_ok content env"
    and blk: "block_in_file content opts cached trailer (h, es, rs)"
  shows "\<exists>v s'. GDSReadBlock env s h trailer = Returns (StOK, Some (dbc_ref v), s') \<and> ra_ready content opts cached s' \<and>
           slice_size v = length (block_bytes es rs) \<and> slice_bytes s' v = block_bytes es rs"
proof -
  let ?B = "block_bytes es rs" and ?o = "unat (bh_offset h)"
  have b: "wf_block es rs" "unat (bh_size h) = length ?B" "?o + (length ?B + trailer) \<le> length content"
    "read_at content ?o (length ?B) = ?B" "one_block opts cached ?o (length ?B + trailer)"
    using blk by (simp_all add: block_in_file_def)
  have small: "length ?B + trailer < 2 ^ 64" using b(3) ready by (simp add: ra_ready_def)
  have "(bh_size h + word_of_nat trailer :: u64) = word_of_nat (length ?B + trailer)" by (simp flip: b(2))
  then have n: "unat (bh_size h + word_of_nat trailer :: u64) = length ?B + trailer"
    using small by (simp only: unat_of_nat) (simp add: take_bit_nat_eq_self)
  have pos: "0 < length ?B + trailer" using block_lengths(1) [OF b(1)] by simp
  obtain r s' where r: "Read env s ?o (length ?B + trailer) None = Returns (io_OK, Some r, s')" "slice_size (fst r) = length ?B + trailer"
    "result_bytes s' r = read_at content ?o (length ?B + trailer)" "ra_ready content opts cached s'"
    using Read_ok [of content opts cached s env "length ?B + trailer" ?o None] ready env pos b(3,5)
    unfolding reads_ok_def read_env_ok_def room_def by auto
  let ?v = "\<lparr>slice_data = slice_data (fst r), slice_size = length ?B\<rparr>"
  have "slice_bytes s' (fst r) = result_bytes s' r" using Read_null_scratch [OF r(1)] by (cases r) (simp add: slice_bytes_def)
  then have bytes: "slice_bytes s' ?v = ?B"
    using slice_bytes_take [of "length ?B" "fst r" s'] r(2,3) b(4) by (simp add: read_at_def)
  have "GDSReadBlock env s h trailer = Returns (StOK, Some (dbc_ref ?v), s')"
    unfolding GDSReadBlock_def Let_def n b(2) r(1)
    by (cases r) (use r(2) in \<open>simp add: io_ok_def io_OK_def\<close>)
  then show ?thesis using r(4) bytes by auto
qed

text \<open>What stays true of a reader and the pinned buffer while blocks are read.\<close>

definition reader_ok :: "bytes \<Rightarrow> GDSOptions \<Rightarrow> bool \<Rightarrow> nat \<Rightarrow> get_state \<Rightarrow> bool" where
  "reader_ok content opts cached trailer g \<longleftrightarrow>
     ra_ready content opts cached (tr_gds_file (gs_reader g)) \<and> tr_trailer_size (gs_reader g) = trailer \<and>
     \<not> tr_decompressor (gs_reader g) \<and> contains ''Bytewise'' (tr_comparator (gs_reader g)) \<and>
     (\<exists>b. gs_buffer g = Some b \<and> (\<forall>s. iter_typed (s, b)))"

lemma iter_typed_any: "iter_typed (s, b) \<Longrightarrow> iter_typed (s', b)"
  by (simp add: iter_typed_def)

lemma NewDataBlockIterator_ok:
  assumes ok: "reader_ok content opts cached trailer g" and env: "read_env_ok content (te_ra env)" "te_malloc_ok env"
    and blk: "block_in_file content opts cached trailer (h, es, rs)" and ro: "\<not> ro_block_cache_tier ro"
  obtains it v t s b where
    "NewDataBlockIterator env ro h (Some new_GDSDataBlockIter) StOK (gs_buffer g) (gs_reader g) = Returns (it, v, t)"
    "gi_status it = StOK" "gi_state it = Some s" "gi_buffer it = Some b" "block_state es rs s" "gs_buffer g = Some b"
    "slice_size v = length (block_bytes es rs)" "slice_bytes (tr_gds_file t) v = block_bytes es rs"
    "reader_ok content opts cached trailer (g\<lparr>gs_reader := t\<rparr>)"
proof -
  let ?t = "gs_reader g"
  have g: "ra_ready content opts cached (tr_gds_file ?t)" "tr_trailer_size ?t = trailer" "\<not> tr_decompressor ?t"
    "contains ''Bytewise'' (tr_comparator ?t)" using ok by (simp_all add: reader_ok_def)
  obtain b where b: "gs_buffer g = Some b" using ok by (auto simp: reader_ok_def)
  obtain v f where v: "GDSReadBlock (te_ra env) (tr_gds_file ?t) h trailer = Returns (StOK, Some (dbc_ref v), f)"
    "ra_ready content opts cached f" "slice_size v = length (block_bytes es rs)" "slice_bytes f v = block_bytes es rs"
    using GDSReadBlock_ok [OF g(1) env(1) blk] by blast
  have wf: "wf_block es rs" using blk by (simp add: block_in_file_def)
  obtain d it s where d: "new_DeviceBlock True (block_bytes es rs) False = Returns d" "blk_contents d = block_bytes es rs"
    "NewDataIterator True (Some (tr_comparator ?t)) (Some b) (Some new_GDSDataBlockIter) d = Returns it"
    "gi_state it = Some s" "gi_buffer it = Some b" "gi_status it = StOK" "block_state es rs s"
    by (rule block_iterator_ready [OF wf g(4), of "Some new_GDSDataBlockIter" False b]) simp_all
  have "RetrieveBlock env ro h False ?t = Returns (StOK, Some (d, dbc_ref v), ?t\<lparr>tr_gds_file := f\<rparr>)"
    using g(2,3) ro v env(2) d(1)
    by (simp add: RetrieveBlock_def GDSReadAndParseBlockFromFile_def status_ok_def dbc_ref_def own_bytes_def Let_def)
  then have "NewDataBlockIterator env ro h (Some new_GDSDataBlockIter) StOK (gs_buffer g) ?t = Returns (it, v, ?t\<lparr>tr_gds_file := f\<rparr>)"
    using d(3) env(2) b by (simp add: NewDataBlockIterator_def InitBlockIterator_def status_ok_def dbc_ref_def Let_def)
  then show thesis
    by (rule that [OF _ d(6,4,5,7) b v(3)]) (use ok v(2,4) in \<open>simp_all add: reader_ok_def\<close>)
qed

lemma SeekForGet_keeps:
  assumes "gi_state it = Some s" "gi_buffer it = Some b" "iter_typed (s, b)" "SeekForGet t it = Some (Returns (m, it'))"
  shows "gi_status it' = gi_status it" "\<exists>b'. gi_buffer it' = Some b' \<and> (\<forall>s. iter_typed (s, b'))"
proof -
  obtain r where r: "SeekKernel t (s, b) = Some (Returns r)" "it' = set_iter it r"
    using assms(1,2,4) by (auto simp: SeekForGet_def SeekImpl_def bind_outcome_Returns_iff)
  then have "iter_typed r" using SeekKernel_typed [OF r(1) assms(3)] by blast
  then show "gi_status it' = gi_status it" "\<exists>b'. gi_buffer it' = Some b' \<and> (\<forall>s. iter_typed (s, b'))"
    using r(2) iter_typed_any by (auto simp: set_iter_def) (metis iter_typed_any prod.collapse)
qed

lemma value_slice_bytes:
  assumes wf: "wf_block es rs" and on: "on_entry es rs j it" and j: "j < length es"
    and v: "slice_size v = length (block_bytes es rs)" "slice_bytes f v = block_bytes es rs"
  shows "slice_bytes f (value_slice v it) = snd (snd (es ! j))"
proof -
  obtain sh d x where e: "es ! j = (sh, d, x)" by (metis prod_cases3)
  have at: "gi_DValue it = Some (kpos es j + length d, int (length x))"
    using on e by (auto simp: on_entry_def at_entry_def gi_DValue_def)
  have inside: "kpos es j + length d + length x \<le> length (block_bytes es rs)"
    using entry_bytes_at(3) [OF j e] block_lengths [OF wf] by simp
  then have small: "int (length x) mod 2 ^ 64 = int (length x)" using block_lengths [OF wf] by (intro mod_pos_pos_trivial) simp_all
  have "value_slice v it = slice_offset v (kpos es j + length d) (length x)"
    unfolding value_slice_def at by (simp only: option.case prod.case small nat_int)
  then show ?thesis using slice_bytes_offset [of "kpos es j + length d" "length x" v f] inside v entry_bytes_at(2) [OF j e] e by simp
qed

text \<open>Entries of the kinds a plain store has: values and deletions.\<close>

definition plain_key :: "dbformat \<Rightarrow> bytes \<Rightarrow> bool" where
  "plain_key f k \<longleftrightarrow>
     DeviceIsExtendedValueType f (pk_type (parsed_key k)) \<and>
     (pk_type (parsed_key k) = kTypeValueDB f \<or> is_deletion f (pk_type (parsed_key k)))"

definition plain_block :: "dbformat \<Rightarrow> table_block \<Rightarrow> bool" where
  "plain_block f blk = (case blk of (h, es, rs) \<Rightarrow> list_all (plain_key f) (keys_from [] es))"

definition lookup_env :: "dbformat \<Rightarrow> bytes \<Rightarrow> table_env \<Rightarrow> bool" where
  "lookup_env f content env \<longleftrightarrow>
     types_ok f \<and> host_parser_ok f \<and> plain_env (te_get env) \<and> read_env_ok content (te_ra env) \<and> te_malloc_ok env \<and>
     (\<forall>a b. CompareWithoutTimestamp env a b < 0 \<longleftrightarrow> a < b)"

text \<open>What a lookup leaves when it stops at an entry.\<close>

definition found_entry :: "dbformat \<Rightarrow> bytes \<Rightarrow> bytes \<Rightarrow> GDSGetContext \<Rightarrow> get_state \<Rightarrow> bool" where
  "found_entry f k v c g \<longleftrightarrow>
     (if user_key_of k \<noteq> gc_user_key c then gs_context g = c
      else if pk_type (parsed_key k) = kTypeValueDB f
      then \<exists>p. gs_context g = c\<lparr>gc_state := kFound, gc_device_value := Some p\<rparr> \<and>
               slice_bytes (tr_gds_file (gs_reader g)) p = v
      else gs_context g = c\<lparr>gc_state := kDeleted\<rparr>)"

lemma get_block_ok:
  assumes env: "lookup_env f content env" and ok: "reader_ok content opts cached trailer g"
    and blk: "block_in_file content opts cached trailer (h, es, rs)" "plain_block f (h, es, rs)"
    and ro: "\<not> ro_block_cache_tier ro" and t: "internal_key t" and c: "fresh_context u (gs_context g)"
  defines "j \<equiv> lower_bound CompareInternalKeys t (keys_from [] es)"
  shows "\<exists>g'. get_block f env ro t \<lparr>iv_handle = h, iv_first_ikey = x\<rparr> g = Some (Returns (StOK, j < length es, g')) \<and>
           reader_ok content opts cached trailer g' \<and>
           (if j < length es then found_entry f (keys_from [] es ! j) (snd (snd (es ! j))) (gs_context g) g'
            else gs_context g' = gs_context g)"
proof -
  have e: "types_ok f" "host_parser_ok f" "plain_env (te_get env)" "read_env_ok content (te_ra env)" "te_malloc_ok env"
    using env by (simp_all add: lookup_env_def)
  have wf: "wf_block es rs" using blk(1) by (simp add: block_in_file_def)
  obtain it v r s b where it: "NewDataBlockIterator env ro h (Some new_GDSDataBlockIter) StOK (gs_buffer g) (gs_reader g) = Returns (it, v, r)"
    "gi_status it = StOK" "gi_state it = Some s" "gi_buffer it = Some b" "block_state es rs s" "gs_buffer g = Some b"
    "slice_size v = length (block_bytes es rs)" "slice_bytes (tr_gds_file r) v = block_bytes es rs"
    "reader_ok content opts cached trailer (g\<lparr>gs_reader := r\<rparr>)"
    by (rule NewDataBlockIterator_ok [OF ok e(4,5) blk(1) ro])
  have typed: "iter_typed (s, b)" using ok it(6) by (auto simp: reader_ok_def)
  then have "length (pb_key_buffer b) = kKeyBufferSize" by (simp add: iter_typed_def)
  then obtain it' where it': "SeekForGet t it = Some (Returns (True, it'))"
    "if j < length es then on_entry es rs j it' else past_end es rs it'"
    using SeekForGet_ok [OF wf t it(3,4,5)] unfolding j_def by blast
  have keep: "gi_status it' = StOK" "\<exists>b'. gi_buffer it' = Some b' \<and> (\<forall>s. iter_typed (s, b'))"
    using SeekForGet_keeps [OF it(3,4) typed it'(1)] it(2) by simp_all
  let ?e = "(te_get env)\<lparr>device_bytes := slice_bytes (tr_gds_file r)\<rparr>"
  define g1 where "g1 = (\<lambda>m c. g\<lparr>gs_reader := r, gs_buffer := gi_buffer it', gs_matched := m, gs_context := c\<rparr>)"
  have ok1: "reader_ok content opts cached trailer (g1 m c)" for m c
    using it(9) keep(2) by (simp add: reader_ok_def g1_def)
  have ctx: "gs_context (g1 m c) = c" for m c by (simp add: g1_def)
  have run: "get_block f env ro t \<lparr>iv_handle = h, iv_first_ikey = x\<rparr> g = Some (Returns (StOK, fin, g1 m c'))"
    if "get_entries f ?e v (gs_matched g) it' (gs_context g) = Some (Returns (StOK, m, fin, it', c'))" for m fin c'
    using that it(1,2) it'(1) keep(1) ro by (simp add: get_block_def Let_def status_ok_def g1_def)
  show ?thesis
  proof (cases "j < length es")
    case True
    then have on: "on_entry es rs j it'" using it'(2) by simp
    let ?k = "keys_from [] es ! j" and ?p = "value_slice v it'"
    note here = on_entry_shows [OF on True]
    have "plain_key f ?k" using blk(2) True by (simp add: plain_block_def list_all_length)
    moreover have "internal_key ?k" using wf True by (simp add: wf_block_def list_all_length)
    ultimately have k: "ParseInternalKey f ?k = (StOK, parsed_key ?k)"
      "pk_type (parsed_key ?k) = kTypeValueDB f \<or> is_deletion f (pk_type (parsed_key ?k))"
      using e(2) by (simp_all add: plain_key_def host_parser_ok_def)
    have pe: "plain_env ?e" using e(3) by (simp add: plain_env_def)
    note save = SaveValue_plain [OF e(1) pe c k(2), of ?p "gs_matched g"]
    have "get_entries f ?e v (gs_matched g) it' (gs_context g) =
        Some (Returns (StOK, gs_matched g \<or> pk_user_key (parsed_key ?k) = u, True, it', saved f (parsed_key ?k) ?p (gs_context g)))"
      by (subst get_entries.simps) (simp add: get_entry_def here(1,2) k(1) save status_ok_def)
    note run [OF this]
    moreover have "slice_bytes (tr_gds_file r) ?p = snd (snd (es ! j))"
      by (rule value_slice_bytes [OF wf on True it(7,8)])
    then have "found_entry f ?k (snd (snd (es ! j))) (gs_context g) (g1 m (saved f (parsed_key ?k) ?p (gs_context g)))" for m
      by (auto simp: found_entry_def saved_def g1_def parsed_key_def)
    ultimately show ?thesis using True ok1 by auto
  next
    case False
    then have "\<not> gi_Valid it'" using it'(2) past_end_invalid by auto
    then have "get_entries f ?e v (gs_matched g) it' (gs_context g) = Some (Returns (StOK, gs_matched g, False, it', gs_context g))"
      by (subst get_entries.simps) (simp add: get_entry_def)
    from run [OF this] show ?thesis using False ok1 [of "gs_matched g" "gs_context g"] ctx by auto
  qed
qed

text \<open>The entries of a block, and what a lookup finds in a list of entries: the first one not below the target.\<close>

definition block_entries :: "table_block \<Rightarrow> (bytes \<times> bytes) list" where
  "block_entries blk = (case blk of (h, es, rs) \<Rightarrow> zip (keys_from [] es) (map (\<lambda>e. snd (snd e)) es))"

definition lookup_result :: "dbformat \<Rightarrow> bytes \<Rightarrow> (bytes \<times> bytes) list \<Rightarrow> GDSGetContext \<Rightarrow> get_state \<Rightarrow> bool" where
  "lookup_result f t entries c g =
     (case find (\<lambda>(k, v). \<not> CompareInternalKeys k t < 0) entries of
        None \<Rightarrow> gs_context g = c
      | Some (k, v) \<Rightarrow> found_entry f k v c g)"

lemma find_zip_takeWhile:
  assumes "length ks = length vs"
  shows "find (\<lambda>(k, v). \<not> P k) (zip ks vs) =
     (let j = length (takeWhile P ks) in if j < length ks then Some (ks ! j, vs ! j) else None)"
  using assms by (induction ks vs rule: list_induct2) (auto simp: Let_def)

lemma find_append: "find P (xs @ ys) = (case find P xs of None \<Rightarrow> find P ys | Some x \<Rightarrow> Some x)"
  by (induction xs) auto

lemma find_block:
  "find (\<lambda>(k, v). \<not> CompareInternalKeys k t < 0) (block_entries (h, es, rs)) =
     (let j = lower_bound CompareInternalKeys t (keys_from [] es)
      in if j < length es then Some (keys_from [] es ! j, snd (snd (es ! j))) else None)"
  using find_zip_takeWhile [of "keys_from [] es" "map (\<lambda>e. snd (snd e)) es" "\<lambda>k. CompareInternalKeys k t < 0"]
  by (simp add: block_entries_def lower_bound_def Let_def)

text \<open>An entry of the index: the handle of the block, with or without its first key.\<close>

definition index_entry :: "IndexValue \<Rightarrow> table_block \<Rightarrow> bool" where
  "index_entry iv blk =
     (case blk of (h, es, rs) \<Rightarrow> iv_handle iv = h \<and> (iv_first_ikey iv = [] \<or> iv_first_ikey iv = hd (keys_from [] es)))"

text \<open>A first key behind the user key ends the lookup: the key is not in the rest of the table.\<close>

lemma first_key_behind:
  assumes wf: "wf_block es rs" and t: "internal_key t" and lt: "user_key_of t < user_key_of (hd (keys_from [] es))"
    and c: "gs_context g = c" "gc_user_key c = user_key_of t"
  shows "lookup_result f t (block_entries (h, es, rs) @ rest) c g"
proof -
  let ?ks = "keys_from [] es"
  have ne: "es \<noteq> []" using wf by (cases rs) (auto simp: wf_block_def)
  then have hd: "hd ?ks = ?ks ! 0" by (metis hd_conv_nth length_0_conv length_keys_from)
  have "internal_key (?ks ! 0)" using wf ne by (simp add: wf_block_def list_all_length)
  then have "\<not> CompareInternalKeys (?ks ! 0) t < 0"
    using CompareInternalKeys_sign(1) [OF _ t, of "?ks ! 0"] lt hd by (auto simp: ikey_less_def)
  then have "lower_bound CompareInternalKeys t ?ks = 0" using ne by (intro lower_bound_unique) simp_all
  then have "find (\<lambda>(k, v). \<not> CompareInternalKeys k t < 0) (block_entries (h, es, rs)) = Some (?ks ! 0, snd (snd (es ! 0)))"
    unfolding find_block using ne by simp
  then show ?thesis using less_imp_neq [OF lt] c hd by (auto simp: lookup_result_def find_append found_entry_def)
qed

lemma get_blocks_ok:
  assumes env: "lookup_env f content env" and ro: "\<not> ro_block_cache_tier ro" and t: "internal_key t"
  shows "list_all2 index_entry ivs bs \<Longrightarrow> list_all (block_in_file content opts cached trailer) bs \<Longrightarrow> list_all (plain_block f) bs \<Longrightarrow>
     reader_ok content opts cached trailer g \<Longrightarrow> fresh_context (user_key_of t) (gs_context g) \<Longrightarrow>
     \<exists>g'. get_blocks f env ro t t skip_filters ivs g = Some (Returns (StOK, g')) \<and> reader_ok content opts cached trailer g' \<and>
          lookup_result f t (concat (map block_entries bs)) (gs_context g) g'"
proof (induction ivs bs arbitrary: g rule: list_all2_induct)
  case Nil
  then show ?case by (simp add: lookup_result_def)
next
  case (Cons iv ivs blk bs)
  obtain h es rs where b: "blk = (h, es, rs)" by (metis prod_cases3)
  have blk: "block_in_file content opts cached trailer (h, es, rs)" "plain_block f (h, es, rs)" using Cons.prems b by simp_all
  then have wf: "wf_block es rs" by (simp add: block_in_file_def)
  have u: "gc_user_key (gs_context g) = user_key_of t" using Cons.prems(4) by (simp add: fresh_context_def)
  have iv: "iv = \<lparr>iv_handle = h, iv_first_ikey = iv_first_ikey iv\<rparr>" using Cons.hyps(1) b by (simp add: index_entry_def)
  show ?case
  proof (cases "iv_first_ikey iv \<noteq> [] \<and> \<not> skip_filters \<and>
      CompareWithoutTimestamp env (user_key_of t) (user_key_of (iv_first_ikey iv)) < 0")
    case True
    then have "user_key_of t < user_key_of (hd (keys_from [] es))"
      using Cons.hyps(1) env b by (auto simp: index_entry_def lookup_env_def)
    then show ?thesis
      using first_key_behind [OF wf t _ refl u] True Cons.prems(3) b by simp
  next
    case False
    let ?j = "lower_bound CompareInternalKeys t (keys_from [] es)"
    obtain g1 where g1: "get_block f env ro t iv g = Some (Returns (StOK, ?j < length es, g1))"
      "reader_ok content opts cached trailer g1"
      "if ?j < length es then found_entry f (keys_from [] es ! ?j) (snd (snd (es ! ?j))) (gs_context g) g1
       else gs_context g1 = gs_context g"
      using get_block_ok [OF env Cons.prems(3) blk ro t Cons.prems(4), of "iv_first_ikey iv"] iv by metis
    show ?thesis
    proof (cases "?j < length es")
      case True
      then have "lookup_result f t (concat (map block_entries (blk # bs))) (gs_context g) g1"
        using g1(3) by (simp add: lookup_result_def find_append b find_block Let_def)
      then show ?thesis using g1 True False by (auto simp: status_ok_def)
    next
      case last: False
      obtain g' where g': "get_blocks f env ro t t skip_filters ivs g1 = Some (Returns (StOK, g'))" "reader_ok content opts cached trailer g'"
        "lookup_result f t (concat (map block_entries bs)) (gs_context g1) g'"
        using Cons.IH [of g1] Cons.prems g1(2,3) last by auto
      moreover have "lookup_result f t (concat (map block_entries (blk # bs))) (gs_context g) g'"
        using g'(3) g1(3) last by (simp add: lookup_result_def find_append b find_block Let_def)
      ultimately show ?thesis using g1 last False by (auto simp: status_ok_def)
    qed
  qed
qed

section \<open>Properties\<close>

text \<open>
  What a lookup relies on of the index and the filter: seeking in the index skips only blocks whose keys are all below the
  target, and the filter has no false negatives.
\<close>

definition index_sound :: "table_env \<Rightarrow> bytes \<Rightarrow> table_block list \<Rightarrow> bool" where
  "index_sound env t bs \<longleftrightarrow>
     index_status env = StOK \<and>
     (\<forall>b. \<exists>i. list_all2 index_entry (index_seek env b t) (drop i bs) \<and>
              list_all (\<lambda>(k, v). CompareInternalKeys k t < 0) (concat (map block_entries (take i bs))))"

definition filter_sound ::
  "table_env \<Rightarrow> bytes \<Rightarrow> SliceTransform option \<Rightarrow> GDSBlockBasedTableReader \<Rightarrow> table_block list \<Rightarrow> bool" where
  "filter_sound env t prefix_extractor r bs \<longleftrightarrow>
     (\<forall>(k, v) \<in> set (concat (map block_entries bs)).
        user_key_of k = user_key_of t \<longrightarrow> FullFilterKeyMayMatch env (tr_filter r) t prefix_extractor r)"

lemma find_append_none: "list_all (\<lambda>x. \<not> P x) xs \<Longrightarrow> find P (xs @ ys) = find P ys"
  by (induction xs) auto

lemma filtered_out:
  assumes "\<forall>(k, v) \<in> set entries. user_key_of k \<noteq> user_key_of t" and "gs_context g = c" "gc_user_key c = user_key_of t"
  shows "lookup_result f t entries c g"
proof (cases "find (\<lambda>(k, v). \<not> CompareInternalKeys k t < 0) entries")
  case (Some kv)
  then have "kv \<in> set entries" by (metis find_Some_iff nth_mem)
  then show ?thesis using Some assms by (auto simp: lookup_result_def found_entry_def)
qed (use assms in \<open>simp add: lookup_result_def\<close>)

lemma table_Get_lookup:
  assumes "lookup_env f content env" and "reader_ok content opts cached trailer g"
    and "fresh_context (user_key_of t) (gs_context g)" and "internal_key t"
    and "\<not> ro_block_cache_tier ro" and "ro_timestamp ro = None"
    and "list_all (block_in_file content opts cached trailer) bs" and "list_all (plain_block f) bs"
    and "index_sound env t bs" and "filter_sound env t prefix_extractor (gs_reader g) bs"
  shows "\<exists>g'. table_Get f env ro t t prefix_extractor skip_filters g = Some (Returns (StOK, g')) \<and>
           reader_ok content opts cached trailer g' \<and>
           lookup_result f t (concat (map block_entries bs)) (gs_context g) g'"
proof -
  let ?filt = "if \<not> skip_filters then tr_filter (gs_reader g) else None"
  have key: "\<not> length t < 8" using assms(4) by (simp add: internal_key_def kInternalKeyTail_def)
  have ts: "TimestampMayMatch env ro (gs_reader g)" using assms(6) by (simp add: TimestampMayMatch_def)
  show ?thesis
  proof (cases "FullFilterKeyMayMatch env ?filt t prefix_extractor (gs_reader g)")
    case False
    then have "\<not> skip_filters" by (auto simp: FullFilterKeyMayMatch_def)
    then have "\<forall>(k, v) \<in> set (concat (map block_entries bs)). user_key_of k \<noteq> user_key_of t"
      using False assms(10) by (auto simp: filter_sound_def)
    then have "lookup_result f t (concat (map block_entries bs)) (gs_context g) g"
      using assms(3) by (intro filtered_out) (auto simp: fresh_context_def)
    then show ?thesis using False ts key assms(2) by (auto simp: table_Get_def Let_def)
  next
    case True
    let ?g = "g\<lparr>gs_matched := False\<rparr>"
    obtain i where i: "list_all2 index_entry (index_seek env b t) (drop i bs)"
      "list_all (\<lambda>(k, v). CompareInternalKeys k t < 0) (concat (map block_entries (take i bs)))"
      if "b = (if tr_hash_search (gs_reader g) then PrefixExtractorChanged prefix_extractor (gs_reader g) else False)" for b
      using assms(9) unfolding index_sound_def by metis
    have sub: "list_all (block_in_file content opts cached trailer) (drop i bs)" "list_all (plain_block f) (drop i bs)"
      using assms(7,8) by (auto simp: list_all_iff dest: in_set_dropD)
    have g: "reader_ok content opts cached trailer ?g" "fresh_context (user_key_of t) (gs_context ?g)"
      using assms(2,3) by (simp_all add: reader_ok_def)
    obtain g' where g': "get_blocks f env ro t t skip_filters
        (index_seek env (if tr_hash_search (gs_reader g) then PrefixExtractorChanged prefix_extractor (gs_reader g) else False) t) ?g =
        Some (Returns (StOK, g'))" "reader_ok content opts cached trailer g'"
      "lookup_result f t (concat (map block_entries (drop i bs))) (gs_context ?g) g'"
      using get_blocks_ok [OF assms(1,5,4) i(1) [OF refl] sub g, of skip_filters] by blast
    have "concat (map block_entries bs) = concat (map block_entries (take i bs)) @ concat (map block_entries (drop i bs))"
      by (metis append_take_drop_id concat_append map_append)
    moreover have "list_all (\<lambda>x. \<not> (case x of (k, v) \<Rightarrow> \<not> CompareInternalKeys k t < 0)) (concat (map block_entries (take i bs)))"
      using i(2) [OF refl] by (auto simp: list_all_iff)
    ultimately have "lookup_result f t (concat (map block_entries bs)) (gs_context g) g'"
      using g'(3) by (simp add: lookup_result_def find_append_none)
    moreover have "index_status env = StOK" using assms(9) by (simp add: index_sound_def)
    ultimately show ?thesis using True ts key g'(1,2) by (simp add: table_Get_def Let_def)
  qed
qed

text \<open>A table file of one block and the lookup of its second key.\<close>

definition example_table :: bytes where
  "example_table = block_bytes example_block [0, 2] @ [0, 0, 0, 0, 0]"

definition example_get_env :: get_env where
  "example_get_env =
     \<lparr>EqualWithoutTimestamp = (=), timestamp_size = 0, ExtractTimestampFromUserKey = (\<lambda>k n. []), CompareTimestamp = (\<lambda>a b. 0),
      callback_IsVisible = None, memcpy_ok = True, device_bytes = (\<lambda>v. []), ParsePackedValueForValue = (\<lambda>v. (0, length v)),
      GetValueOfDefaultColumn = (\<lambda>v. None), SetWideColumnValue_ok = (\<lambda>v. True), MergeWithPlainBaseValue = (\<lambda>v c. c),
      MergeWithWideColumnBaseValue = (\<lambda>v c. c), MergeWithNoBaseValue = (\<lambda>c. c), ShouldMerge = (\<lambda>ops. False),
      continue_cb = None\<rparr>"

definition example_table_env :: table_env where
  "example_table_env =
     \<lparr>te_ra = example_env example_table, te_malloc_ok = True, te_get = example_get_env,
      StripTimestampFromUserKey = (\<lambda>k n. k), CompareWithoutTimestamp = (\<lambda>a b. if a < b then -1 else 1),
      index_seek = (\<lambda>b t. [\<lparr>iv_handle = \<lparr>bh_offset = 0, bh_size = 52\<rparr>, iv_first_ikey = []\<rparr>]), index_status = StOK\<rparr>"

definition example_context :: "bytes \<Rightarrow> GDSGetContext" where
  "example_context user_key =
     \<lparr>gc_state = kNotFound, gc_user_key = user_key, gc_device_value = Some \<lparr>slice_data = NullPtr, slice_size = 0\<rparr>,
      gc_columns = None, gc_timestamp = None, gc_ts_from_rangetombstone = False, gc_merge_operator = False,
      gc_merge_context = Some [], gc_do_merge = True, gc_max_covering_tombstone_seq = None, gc_seq = None,
      gc_is_blob_index = None, gc_replay_log = None\<rparr>"

definition example_reader :: GDSBlockBasedTableReader where
  "example_reader =
     \<lparr>tr_gds_file = example_file example_table, tr_trailer_size = 5, tr_decompressor = False,
      tr_comparator = ''leveldb.BytewiseComparator'', tr_filter = None, tr_whole_key_filtering = True, tr_min_timestamp = [],
      tr_hash_search = False, tr_prefix_extractor_name = None, tr_table_prefix_extractor = None\<rparr>"

definition example_state :: get_state where
  "example_state =
     \<lparr>gs_reader = example_reader, gs_buffer = Some (fst (Allocate (replicate 512 0) [])), gs_matched = False,
      gs_context = example_context [97, 98]\<rparr>"

lemma length_example_table: "length (block_bytes example_block [0, 2]) = 52" "length example_table = 57"
proof -
  have "length (entries_bytes example_block) = 40" by code_simp
  then show "length (block_bytes example_block [0, 2]) = 52" by (simp add: block_bytes_def)
  then show "length example_table = 57" by (simp add: example_table_def)
qed

lemma example_lookup_env: "lookup_env example_format example_table example_table_env"
  by (simp add: lookup_env_def example_format_ok example_table_env_def example_env_ok plain_env_def example_get_env_def)

lemma example_reader_ok: "reader_ok example_table default_GDSOptions True 5 example_state"
proof -
  have "contains ''Bytewise'' ''leveldb.BytewiseComparator''" by code_simp
  then show ?thesis
    using example_file_ready [of example_table] length_example_table(2)
    by (simp add: reader_ok_def example_state_def example_reader_def Allocate_def iter_typed_def kKeyBufferSize_def)
qed

lemma example_block_in_file:
  "block_in_file example_table default_GDSOptions True 5 (\<lparr>bh_offset = 0, bh_size = 52\<rparr>, example_block, [0, 2])"
  using example_block_wf length_example_table
  by (simp add: block_in_file_def one_block_def BLOCK_SIZE_def example_table_def read_at_def)

lemma example_plain: "plain_block example_format (\<lparr>bh_offset = 0, bh_size = 52\<rparr>, example_block, [0, 2])"
proof -
  have keys: "keys_from [] example_block =
    map (\<lambda>u. make_ikey u 1 1) [[97, 97], [97, 98], [99]]"
    by (simp add: example_block_def make_ikey_def PutFixed64_def)
  show ?thesis
    unfolding plain_block_def prod.case keys
    by (simp add: plain_key_def make_ikey_parts example_format_def DeviceIsExtendedValueType_def DeviceIsValueType_def)
qed



text \<open>
  C37: an intact block that crosses a boundary of the block cache is reported as corrupt.  With an empty cache and prefetching
  on, reading a block whose bytes and trailer reach from one cache block into the next gets only the part up to
  the boundary, although the file has all of it, and \<open>GDSReadBlock\<close> returns Corruption.
\<close>

theorem boundary_block_reported_corrupt:
  assumes "ra_ready content opts True s" and "read_env_ok content env"
    and "ra_gpu_cache s = Some c" and "cache_map c = []"
    and "n = unat (bh_size h + word_of_nat trailer)" and "prefetching opts True n" and "0 < n"
    and "unat (bh_offset h) + n \<le> length content" and "BLOCK_SIZE < unat (bh_offset h) mod BLOCK_SIZE + n"
  shows "\<exists>s'. GDSReadBlock env s h trailer = Returns (StCorruption ''Truncated block read'', None, s')"
proof -
  obtain r s' where r: "Read env s (unat (bh_offset h)) n None = Returns (io_OK, Some r, s')" "slice_size (fst r) < n"
    using Read_cut_at_block_boundary [OF assms(1-4,6-9)] by blast
  then show ?thesis
    unfolding GDSReadBlock_def Let_def assms(5) [symmetric] r(1) by (cases r) (simp add: io_ok_def io_OK_def)
qed

theorem boundary_block_reported_corrupt_witness:
  "\<exists>s'. GDSReadBlock (example_env (replicate (2 * BLOCK_SIZE) 7)) (example_file (replicate (2 * BLOCK_SIZE) 7))
       \<lparr>bh_offset = 262000, bh_size = 4096\<rparr> 5 = Returns (StCorruption ''Truncated block read'', None, s')"
proof -
  have r: "ra_ready (replicate (2 * BLOCK_SIZE) 7) default_GDSOptions True (example_file (replicate (2 * BLOCK_SIZE) 7))"
    by (rule example_file_ready) (simp add: BLOCK_SIZE_def)
  show ?thesis
    by (rule boundary_block_reported_corrupt [OF r example_env_ok, where c = "new_GPUBlockCache (Some zero_pool)" and n = 4101])
      (simp_all add: example_file_def new_GPUBlockCache_def prefetching_def default_GDSOptions_def BLOCK_SIZE_def)
qed

end
