(* ===== verification/SST_File_Picker.thy ===== *)
theory SST_File_Picker
  imports GDS_Block
begin

text \<open>
  \<open>FilePicker\<close> of \<^verbatim>\<open>rocksdb/db/version_set.h\<close>, which chooses the table files a lookup reads: all files of
  level 0 that may hold the key, in order, and then per level the files from the first one whose largest key is
  not below the looked-up key.  \<open>FileIndexer\<close> (fractional cascading between levels) and the comparators are the record
  \<open>picker_env\<close>.

  The unsigned level counters start at -1 and are incremented before they are used; they are integers here.
\<close>

section \<open>State\<close>

record FdWithKeyRange =
  fd_number :: nat
  fd_smallest_key :: bytes
  fd_largest_key :: bytes

type_synonym LevelFilesBrief = "FdWithKeyRange list"

record picker_env =
  ucmp_CompareWithoutTimestamp :: "bytes \<Rightarrow> bytes \<Rightarrow> int"
  icmp_Compare :: "bytes \<Rightarrow> bytes \<Rightarrow> int"
  kLevelMaxIndex :: int
  GetNextLevelIndex :: "int \<Rightarrow> nat \<Rightarrow> int \<Rightarrow> int \<Rightarrow> int \<times> int"

record FilePicker =
  fp_num_levels :: int
  fp_curr_level :: int
  fp_returned_file_level :: int
  fp_hit_file_level :: int
  fp_search_left_bound :: int
  fp_search_right_bound :: int
  fp_level_files_brief :: "LevelFilesBrief list"
  fp_search_ended :: bool
  fp_is_hit_file_last_in_level :: bool
  fp_curr_file_level :: LevelFilesBrief
  fp_curr_index_in_curr_level :: nat
  fp_start_index_in_curr_level :: nat
  fp_user_key :: bytes
  fp_ikey :: bytes

section \<open>Operations\<close>

text \<open>\<open>std::lower_bound\<close> on the files of a level by their largest keys.\<close>

definition FindFileInRange :: "picker_env \<Rightarrow> LevelFilesBrief \<Rightarrow> bytes \<Rightarrow> nat \<Rightarrow> nat \<Rightarrow> nat" where
  "FindFileInRange e file_level key left right =
     left + length (takeWhile (\<lambda>f. icmp_Compare e (fd_largest_key f) key < 0) (take (right - left) (drop left file_level)))"

definition FindFile :: "picker_env \<Rightarrow> LevelFilesBrief \<Rightarrow> bytes \<Rightarrow> nat" where
  "FindFile e file_level key = FindFileInRange e file_level key 0 (length file_level)"

definition all_of_next_level :: "picker_env \<Rightarrow> FilePicker \<Rightarrow> FilePicker" where
  "all_of_next_level e p =
     p\<lparr>fp_search_left_bound := 0, fp_search_right_bound := kLevelMaxIndex e, fp_curr_level := fp_curr_level p + 1\<rparr>"

definition start_level :: "nat \<Rightarrow> FilePicker \<Rightarrow> FilePicker" where
  "start_level start_index p = p\<lparr>fp_start_index_in_curr_level := start_index, fp_curr_index_in_curr_level := start_index\<rparr>"

text \<open>The loop of \<open>PrepareNextLevel\<close> over the levels that are left.\<close>

function prepare_level :: "picker_env \<Rightarrow> FilePicker \<Rightarrow> (bool \<times> FilePicker) outcome" where
  "prepare_level e p =
     (if fp_curr_level p < fp_num_levels p
      then
        let files = fp_level_files_brief p ! nat (fp_curr_level p);
            p = p\<lparr>fp_curr_file_level := files\<rparr>
        in if files = []
           then
             if fp_search_left_bound p \<noteq> 0 then Undefined ''assert(search_left_bound_ == 0)''
             else if fp_search_right_bound p \<noteq> -1 \<and> fp_search_right_bound p \<noteq> kLevelMaxIndex e
             then Undefined ''assert(search_right_bound_ == -1 || search_right_bound_ == FileIndexer::kLevelMaxIndex)''
             else prepare_level e (all_of_next_level e p)
           else if fp_curr_level p = 0 then Returns (True, start_level 0 p)
           else if fp_search_left_bound p \<le> fp_search_right_bound p
           then
             let p = (if fp_search_right_bound p = kLevelMaxIndex e
                      then p\<lparr>fp_search_right_bound := int (length files) - 1\<rparr> else p);
                 left = nat (fp_search_left_bound p);
                 right = nat (fp_search_right_bound p + 1)
             in if right > length files then Undefined ''file index out of range''
                else
                  let start_index = FindFileInRange e files (fp_ikey p) left right
                  in if int start_index = fp_search_right_bound p + 1 then prepare_level e (all_of_next_level e p)
                     else Returns (True, start_level start_index p)
           else prepare_level e (all_of_next_level e p)
      else Returns (False, p))"
  by pat_completeness auto
termination
  by (relation "measure (\<lambda>(e, p). nat (fp_num_levels p - fp_curr_level p))")
    (auto simp: all_of_next_level_def Let_def split: if_splits)

declare prepare_level.simps [simp del]

definition PrepareNextLevel :: "picker_env \<Rightarrow> FilePicker \<Rightarrow> (bool \<times> FilePicker) outcome" where
  "PrepareNextLevel e p = prepare_level e (p\<lparr>fp_curr_level := fp_curr_level p + 1\<rparr>)"

definition end_unless_prepared :: "picker_env \<Rightarrow> FilePicker \<Rightarrow> FilePicker outcome" where
  "end_unless_prepared e p = bind_outcome (PrepareNextLevel e p) (\<lambda>(ok, p). Returns (p\<lparr>fp_search_ended := \<not> ok\<rparr>))"

definition new_FilePicker :: "picker_env \<Rightarrow> bytes \<Rightarrow> bytes \<Rightarrow> LevelFilesBrief list \<Rightarrow> FilePicker outcome" where
  "new_FilePicker e user_key ikey file_levels =
     end_unless_prepared e
       \<lparr>fp_num_levels = int (length file_levels), fp_curr_level = -1, fp_returned_file_level = -1, fp_hit_file_level = -1,
        fp_search_left_bound = 0, fp_search_right_bound = kLevelMaxIndex e, fp_level_files_brief = file_levels,
        fp_search_ended = False, fp_is_hit_file_last_in_level = False, fp_curr_file_level = [],
        fp_curr_index_in_curr_level = 0, fp_start_index_in_curr_level = 0, fp_user_key = user_key, fp_ikey = ikey\<rparr>"

text \<open>The inner loop over the files of the current level: a file to return, or the end of the level.\<close>

datatype level_step = PickFile FdWithKeyRange FilePicker | LevelEnd FilePicker

function scan_level :: "picker_env \<Rightarrow> FilePicker \<Rightarrow> level_step outcome" where
  "scan_level e p =
     (let i = fp_curr_index_in_curr_level p; files = fp_curr_file_level p
      in if i < length files
         then
           let f = files ! i;
               p = p\<lparr>fp_hit_file_level := fp_curr_level p, fp_is_hit_file_last_in_level := (i = length files - 1)\<rparr>;
               filter_range = (fp_num_levels p > 1 \<or> length files > 3);
               cmp_smallest = ucmp_CompareWithoutTimestamp e (fp_user_key p) (user_key_of (fd_smallest_key f));
               cmp_largest = (if filter_range \<and> cmp_smallest \<ge> 0
                              then ucmp_CompareWithoutTimestamp e (fp_user_key p) (user_key_of (fd_largest_key f)) else -1);
               p = (if filter_range \<and> fp_curr_level p > 0
                    then let (l, r) = GetNextLevelIndex e (fp_curr_level p) i cmp_smallest cmp_largest
                         in p\<lparr>fp_search_left_bound := l, fp_search_right_bound := r\<rparr>
                    else p)
           in if filter_range \<and>
                 \<not> (fp_curr_level p = 0 \<or> i = fp_start_index_in_curr_level p \<or> cmp_smallest \<le> 0)
              then Undefined ''assert(curr_level_ == 0 || ...)''
              else if filter_range \<and> (cmp_smallest < 0 \<or> cmp_largest > 0)
              then if fp_curr_level p = 0 then scan_level e (p\<lparr>fp_curr_index_in_curr_level := i + 1\<rparr>)
                   else Returns (LevelEnd p)
              else
                let p = p\<lparr>fp_returned_file_level := fp_curr_level p\<rparr>
                in if fp_curr_level p > 0 \<and> cmp_largest < 0
                   then bind_outcome (end_unless_prepared e p) (\<lambda>p. Returns (PickFile f p))
                   else Returns (PickFile f (p\<lparr>fp_curr_index_in_curr_level := i + 1\<rparr>))
         else Returns (LevelEnd p))"
  by pat_completeness auto
termination
  by (relation "measure (\<lambda>(e, p). length (fp_curr_file_level p) - fp_curr_index_in_curr_level p)")
    (auto simp: Let_def split: prod.splits if_splits)

declare scan_level.simps [simp del]

text \<open>The outer loop over the levels; \<open>None\<close> as the result is the null pointer.\<close>

partial_function (option) GetNextFile :: "picker_env \<Rightarrow> FilePicker \<Rightarrow> (FdWithKeyRange option \<times> FilePicker) outcome option" where
  "GetNextFile e p =
     (if fp_search_ended p then Some (Returns (None, p))
      else
        case scan_level e p of
          Returns st \<Rightarrow>
            (case st of
               PickFile f p \<Rightarrow> Some (Returns (Some f, p))
             | LevelEnd p \<Rightarrow>
                 (case end_unless_prepared e p of
                    Returns p \<Rightarrow> GetNextFile e p
                  | Throws m \<Rightarrow> Some (Throws m)
                  | Exits m \<Rightarrow> Some (Exits m)
                  | Undefined m \<Rightarrow> Some (Undefined m)))
        | Throws m \<Rightarrow> Some (Throws m)
        | Exits m \<Rightarrow> Some (Exits m)
        | Undefined m \<Rightarrow> Some (Undefined m))"

definition GetCurrentLevel :: "FilePicker \<Rightarrow> int" where "GetCurrentLevel p = fp_curr_level p"

definition GetHitFileLevel :: "FilePicker \<Rightarrow> int" where "GetHitFileLevel p = fp_hit_file_level p"

definition IsHitFileLastInLevel :: "FilePicker \<Rightarrow> bool" where
  "IsHitFileLastInLevel p = fp_is_hit_file_last_in_level p"

section \<open>The contract\<close>

text \<open>The range of a file contains the user key; a wanted file may also hold an entry that is not below the looked-up key.\<close>

definition in_range :: "bytes \<Rightarrow> FdWithKeyRange \<Rightarrow> bool" where
  "in_range u f \<longleftrightarrow> user_key_of (fd_smallest_key f) \<le> u \<and> u \<le> user_key_of (fd_largest_key f)"

definition wanted :: "bytes \<Rightarrow> FdWithKeyRange \<Rightarrow> bool" where
  "wanted ikey f \<longleftrightarrow> in_range (user_key_of ikey) f \<and> \<not> CompareInternalKeys (fd_largest_key f) ikey < 0"

text \<open>A sorted level: internal keys, and every file ends before the next one starts.\<close>

definition file_ok :: "FdWithKeyRange \<Rightarrow> bool" where
  "file_ok f \<longleftrightarrow> internal_key (fd_smallest_key f) \<and> internal_key (fd_largest_key f) \<and>
     \<not> CompareInternalKeys (fd_largest_key f) (fd_smallest_key f) < 0"

definition sorted_level :: "LevelFilesBrief \<Rightarrow> bool" where
  "sorted_level files \<longleftrightarrow>
     sorted_wrt (\<lambda>f g. CompareInternalKeys (fd_largest_key f) (fd_smallest_key g) < 0) files"

text \<open>Bounds for the search in a level: every file of it that contains the user key lies inside.\<close>

definition bounds_for :: "picker_env \<Rightarrow> bytes \<Rightarrow> LevelFilesBrief \<Rightarrow> int \<Rightarrow> int \<Rightarrow> bool" where
  "bounds_for e u files l r \<longleftrightarrow>
     0 \<le> l \<and> l \<le> int (length files) \<and> (r = kLevelMaxIndex e \<or> -1 \<le> r \<and> r < int (length files)) \<and>
     (files = [] \<longrightarrow> l = 0) \<and>
     (\<forall>k < length files. in_range u (files ! k) \<longrightarrow> l \<le> int k \<and> (r = kLevelMaxIndex e \<or> int k \<le> r))"

text \<open>
  What the picker relies on: comparators that are orders, sorted levels below the first, an index constant beyond every
  level's size, and bounds of the file indexer that lose no file.
\<close>

definition picker_ok :: "picker_env \<Rightarrow> bytes \<Rightarrow> LevelFilesBrief list \<Rightarrow> bool" where
  "picker_ok e ikey levels \<longleftrightarrow>
     internal_key ikey \<and>
     (\<forall>a b. (ucmp_CompareWithoutTimestamp e a b < 0) = (a < b) \<and> (ucmp_CompareWithoutTimestamp e a b > 0) = (b < a)) \<and>
     icmp_Compare e = CompareInternalKeys \<and>
     list_all (\<lambda>files. list_all file_ok files \<and> int (length files) \<le> kLevelMaxIndex e) levels \<and>
     list_all sorted_level (tl levels) \<and>
     (\<forall>L i. 0 < L \<longrightarrow> Suc L < length levels \<longrightarrow> i < length (levels ! L) \<longrightarrow>
        (let f = levels ! L ! i; u = user_key_of ikey; cs = ucmp_CompareWithoutTimestamp e u (user_key_of (fd_smallest_key f));
             cl = (if cs \<ge> 0 then ucmp_CompareWithoutTimestamp e u (user_key_of (fd_largest_key f)) else -1)
         in case GetNextLevelIndex e (int L) i cs cl of (l, r) \<Rightarrow> bounds_for e u (levels ! Suc L) l r))"

lemma next_level_bounds:
  assumes "picker_ok e ikey levels" "0 < L" "Suc L < length levels" "i < length (levels ! L)"
    and "cs = ucmp_CompareWithoutTimestamp e (user_key_of ikey) (user_key_of (fd_smallest_key (levels ! L ! i)))"
    and "cl = (if cs \<ge> 0 then ucmp_CompareWithoutTimestamp e (user_key_of ikey) (user_key_of (fd_largest_key (levels ! L ! i))) else -1)"
    and "GetNextLevelIndex e (int L) i cs cl = (l, r)"
  shows "bounds_for e (user_key_of ikey) (levels ! Suc L) l r"
proof -
  note h = assms(1) [unfolded picker_ok_def, THEN conjunct2, THEN conjunct2, THEN conjunct2, THEN conjunct2, THEN conjunct2,
      rule_format, OF assms(2-4)]
  show ?thesis using h unfolding Let_def assms(5) [symmetric] assms(6) [symmetric] assms(7) by simp
qed

section \<open>Preparing a level\<close>

definition next_bounds :: "picker_env \<Rightarrow> LevelFilesBrief list \<Rightarrow> FilePicker \<Rightarrow> nat \<Rightarrow> bool" where
  "next_bounds e levels p L \<longleftrightarrow>
     (L < length levels \<longrightarrow> bounds_for e (fp_user_key p) (levels ! L) (fp_search_left_bound p) (fp_search_right_bound p))"

definition picker_on :: "bytes \<Rightarrow> LevelFilesBrief list \<Rightarrow> FilePicker \<Rightarrow> bool" where
  "picker_on ikey levels p \<longleftrightarrow>
     fp_num_levels p = int (length levels) \<and> fp_level_files_brief p = levels \<and> fp_user_key p = user_key_of ikey \<and> fp_ikey p = ikey"

text \<open>A picker inside a level.  Below level 0 it is at the first candidate, or the file before it ends with the user key.\<close>

definition in_level :: "picker_env \<Rightarrow> bytes \<Rightarrow> LevelFilesBrief list \<Rightarrow> nat \<Rightarrow> FilePicker \<Rightarrow> bool" where
  "in_level e ikey levels L p \<longleftrightarrow>
     picker_on ikey levels p \<and> fp_curr_level p = int L \<and> L < length levels \<and> fp_curr_file_level p = levels ! L \<and>
     (if L = 0 then fp_search_left_bound p = 0 \<and> fp_search_right_bound p = kLevelMaxIndex e
      else
        let i = fp_curr_index_in_curr_level p; st = fp_start_index_in_curr_level p; files = levels ! L
        in st \<le> i \<and> st < length files \<and> \<not> CompareInternalKeys (fd_largest_key (files ! st)) ikey < 0 \<and>
           (st < i \<longrightarrow> i \<le> length files \<and> user_key_of (fd_largest_key (files ! (i - 1))) = user_key_of ikey \<and>
                      next_bounds e levels p (Suc L)))"

lemma next_bounds_simps [simp]:
  "next_bounds e levels (p\<lparr>fp_search_ended := x\<rparr>) L = next_bounds e levels p L"
  "next_bounds e levels (p\<lparr>fp_returned_file_level := y\<rparr>) L = next_bounds e levels p L"
  "next_bounds e levels (p\<lparr>fp_curr_index_in_curr_level := i\<rparr>) L = next_bounds e levels p L"
  by (simp_all add: next_bounds_def)

lemma in_range_wanted: "wanted ikey f \<Longrightarrow> in_range (user_key_of ikey) f"
  by (simp add: wanted_def)

lemma takeWhile_stops: "i < length xs \<Longrightarrow> \<not> P (xs ! i) \<Longrightarrow> length (takeWhile P xs) \<le> i"
  by (metis leI nth_length_takeWhile nth_mem set_takeWhileD takeWhile_nth)

lemma max_bounds: "picker_ok e ikey levels \<Longrightarrow> L < length levels \<Longrightarrow> bounds_for e u (levels ! L) 0 (kLevelMaxIndex e)"
  by (simp add: bounds_for_def)

text \<open>The search of a level finds the first candidate, or no file of the level is wanted.\<close>

lemma search_level:
  assumes ok: "picker_ok e ikey levels" and L: "L < length levels" and b: "bounds_for e (user_key_of ikey) (levels ! L) l r"
    and ne: "levels ! L \<noteq> []"
  defines "r' \<equiv> (if r = kLevelMaxIndex e then int (length (levels ! L)) - 1 else r)"
  defines "i \<equiv> FindFileInRange e (levels ! L) ikey (nat l) (nat (r' + 1))"
  shows "r' + 1 \<le> int (length (levels ! L))"
    "l \<le> r \<Longrightarrow> int i \<le> r' + 1"
    "l \<le> r \<Longrightarrow> int i \<noteq> r' + 1 \<Longrightarrow> \<not> CompareInternalKeys (fd_largest_key (levels ! L ! i)) ikey < 0"
    "k < length (levels ! L) \<Longrightarrow> wanted ikey (levels ! L ! k) \<Longrightarrow> l \<le> r' \<and> i \<le> k \<and> int k \<le> r'"
proof -
  let ?f = "levels ! L" and ?P = "\<lambda>f. CompareInternalKeys (fd_largest_key f) ikey < 0"
  let ?seg = "take (nat (r' + 1) - nat l) (drop (nat l) ?f)"
  have i: "i = nat l + length (takeWhile ?P ?seg)" using ok by (simp add: i_def FindFileInRange_def picker_ok_def)
  have b': "0 \<le> l" "r = kLevelMaxIndex e \<or> -1 \<le> r \<and> r < int (length ?f)" using b by (simp_all add: bounds_for_def)
  show r': "r' + 1 \<le> int (length ?f)" using b'(2) by (auto simp: r'_def)
  have seg: "length ?seg = nat (r' + 1) - nat l" using r' by simp
  have at: "?seg ! m = ?f ! (nat l + m)" if "m < length ?seg" for m
  proof -
    have "m < length ?f - nat l" using that by simp
    then have "nat l \<le> length ?f" by linarith
    then show ?thesis using that by simp
  qed
  have le': "int i \<le> r' + 1" if "l \<le> r'"
    using length_takeWhile_le [of ?P ?seg] i seg that b'(1) by linarith
  have gt: "int i = r' + 1" if "l \<le> r" "\<not> l \<le> r'"
    using that b b'(1) i seg by (auto simp: r'_def bounds_for_def split: if_splits)
  show le: "int i \<le> r' + 1" if "l \<le> r" using that le' gt by linarith
  show "\<not> CompareInternalKeys (fd_largest_key (?f ! i)) ikey < 0" if lr: "l \<le> r" and ne: "int i \<noteq> r' + 1"
  proof -
    have "i < nat (r' + 1)" using le [OF lr] ne by linarith
    then have lt: "length (takeWhile ?P ?seg) < length ?seg" using i seg by linarith
    then have "\<not> ?P (?seg ! length (takeWhile ?P ?seg))" by (rule nth_length_takeWhile)
    moreover have "?seg ! length (takeWhile ?P ?seg) = ?f ! i" using at [OF lt] i by simp
    ultimately show ?thesis by simp
  qed
  show "l \<le> r' \<and> i \<le> k \<and> int k \<le> r'" if k: "k < length ?f" and w: "wanted ikey (?f ! k)"
  proof -
    have lk: "l \<le> int k" "int k \<le> r'" using b k in_range_wanted [OF w] by (auto simp: bounds_for_def r'_def)
    have "k - nat l < length ?seg" using lk b'(1) seg by linarith
    moreover have "?seg ! (k - nat l) = ?f ! k" using at [OF calculation] lk b'(1) by simp
    ultimately have "length (takeWhile ?P ?seg) \<le> k - nat l" using w by (intro takeWhile_stops) (simp_all add: wanted_def)
    then show ?thesis using i lk b'(1) by linarith
  qed
qed

text \<open>The files still to be searched from a position on.\<close>

definition files_left :: "LevelFilesBrief list \<Rightarrow> FilePicker \<Rightarrow> FdWithKeyRange list" where
  "files_left levels p =
     (if fp_search_ended p then []
      else drop (fp_curr_index_in_curr_level p) (fp_curr_file_level p) @ concat (drop (Suc (nat (fp_curr_level p))) levels))"

lemma filter_drop_none:
  "(\<And>k. k < length xs \<Longrightarrow> k < i \<Longrightarrow> \<not> P (xs ! k)) \<Longrightarrow> filter P (drop i xs) = filter P xs"
proof -
  assume a: "\<And>k. k < length xs \<Longrightarrow> k < i \<Longrightarrow> \<not> P (xs ! k)"
  have "filter P (take i xs) = []" using a by (auto simp: filter_empty_conv in_set_conv_nth)
  then show ?thesis by (metis append_Nil append_take_drop_id filter_append)
qed

lemma concat_drop_Suc: "L < length xs \<Longrightarrow> concat (drop L xs) = xs ! L @ concat (drop (Suc L) xs)"
  by (simp add: Cons_nth_drop_Suc [symmetric])

text \<open>
  A prepared picker: it stands in some level, and no wanted file was passed over; without a level left there is none.
\<close>

definition prepared :: "picker_env \<Rightarrow> bytes \<Rightarrow> LevelFilesBrief list \<Rightarrow> nat \<Rightarrow> bool \<times> FilePicker \<Rightarrow> bool" where
  "prepared e ikey levels L r =
     (case r of (ok, p) \<Rightarrow>
        if ok then (\<exists>M \<ge> L. in_level e ikey levels M p \<and>
          filter (wanted ikey) (concat (drop L levels)) =
            filter (wanted ikey) (drop (fp_curr_index_in_curr_level p) (levels ! M) @ concat (drop (Suc M) levels)) \<and>
          length (drop (fp_curr_index_in_curr_level p) (levels ! M) @ concat (drop (Suc M) levels)) \<le> length (concat (drop L levels)))
        else filter (wanted ikey) (concat (drop L levels)) = [])"

lemma prepared_skip:
  assumes "prepared e ikey levels (Suc L) r" and "filter (wanted ikey) (levels ! L) = []" and "L < length levels"
  shows "prepared e ikey levels L r"
proof -
  obtain b p where r: "r = (b, p)" by (cases r)
  have c: "concat (drop L levels) = levels ! L @ concat (drop (Suc L) levels)" by (rule concat_drop_Suc [OF assms(3)])
  show ?thesis
  proof (cases b)
    case True
    then obtain M where "M \<ge> Suc L" "in_level e ikey levels M p"
      "filter (wanted ikey) (concat (drop (Suc L) levels)) =
        filter (wanted ikey) (drop (fp_curr_index_in_curr_level p) (levels ! M) @ concat (drop (Suc M) levels))"
      "length (drop (fp_curr_index_in_curr_level p) (levels ! M) @ concat (drop (Suc M) levels)) \<le> length (concat (drop (Suc L) levels))"
      using assms(1) r unfolding prepared_def by auto
    then show ?thesis using r True assms(2) unfolding prepared_def c by (auto intro!: exI [of _ M])
  qed (use assms r c in \<open>simp add: prepared_def\<close>)
qed

lemma prepare_level_ok:
  assumes ok: "picker_ok e ikey levels"
  shows "picker_on ikey levels p \<Longrightarrow> fp_curr_level p = int L \<Longrightarrow> next_bounds e levels p L \<Longrightarrow>
     (L \<le> 1 \<longrightarrow> fp_search_left_bound p = 0 \<and> fp_search_right_bound p = kLevelMaxIndex e) \<Longrightarrow>
     \<exists>r. prepare_level e p = Returns r \<and> prepared e ikey levels L r"
proof (induction "length levels - L" arbitrary: L p rule: less_induct)
  case less
  have on: "fp_num_levels p = int (length levels)" "fp_level_files_brief p = levels" "fp_user_key p = user_key_of ikey" "fp_ikey p = ikey"
    using less.prems(1) by (simp_all add: picker_on_def)
  show ?case
  proof (cases "L < length levels")
    case False
    then show ?thesis using less.prems(2) on by (subst prepare_level.simps) (simp add: prepared_def)
  next
    case L: True
    let ?f = "levels ! L" and ?p = "p\<lparr>fp_curr_file_level := levels ! L\<rparr>"
    let ?l = "fp_search_left_bound p" and ?r = "fp_search_right_bound p"
    have b: "bounds_for e (user_key_of ikey) ?f ?l ?r" using less.prems(3) L on by (simp add: next_bounds_def)
    have max_le: "int (length ?f) \<le> kLevelMaxIndex e" using ok L by (simp add: picker_ok_def list_all_length)
    have split: "concat (drop L levels) = ?f @ concat (drop (Suc L) levels)" by (rule concat_drop_Suc [OF L])
    have skip: "\<exists>r. prepare_level e (all_of_next_level e q) = Returns r \<and> prepared e ikey levels L r"
      if q: "picker_on ikey levels q" "fp_curr_level q = int L" and none: "filter (wanted ikey) ?f = []" for q
    proof -
      have "next_bounds e levels (all_of_next_level e q) (Suc L)"
        using max_bounds [OF ok] by (simp add: next_bounds_def all_of_next_level_def)
      moreover have "length levels - Suc L < length levels - L" using L by simp
      moreover have "picker_on ikey levels (all_of_next_level e q)" "fp_curr_level (all_of_next_level e q) = int (Suc L)"
        "fp_search_left_bound (all_of_next_level e q) = 0 \<and> fp_search_right_bound (all_of_next_level e q) = kLevelMaxIndex e"
        using q by (simp_all add: picker_on_def all_of_next_level_def)
      ultimately obtain r where "prepare_level e (all_of_next_level e q) = Returns r" "prepared e ikey levels (Suc L) r"
        using less.hyps by blast
      then show ?thesis using prepared_skip [OF _ none L] by blast
    qed
    have on': "picker_on ikey levels ?p" "fp_curr_level ?p = int L" using less.prems(1,2) by (simp_all add: picker_on_def)
    consider (empty) "?f = []" | (zero) "?f \<noteq> []" "L = 0" | (none) "?f \<noteq> []" "0 < L" "\<not> ?l \<le> ?r" | (search) "?f \<noteq> []" "0 < L" "?l \<le> ?r"
      by blast
    then show ?thesis
    proof cases
      case empty
      then have "?l = 0" "?r = -1 \<or> ?r = kLevelMaxIndex e" using b by (auto simp: bounds_for_def)
      then have "prepare_level e p = prepare_level e (all_of_next_level e ?p)"
        using less.prems(2) on L empty by (subst prepare_level.simps) (auto simp: Let_def)
      then show ?thesis using skip [OF on'] empty by simp
    next
      case zero
      then have "prepare_level e p = Returns (True, start_level 0 ?p)"
        using less.prems(2) on L by (subst prepare_level.simps) (simp add: Let_def)
      moreover have "in_level e ikey levels 0 (start_level 0 ?p)"
        using on' L zero less.prems(4) by (auto simp: in_level_def start_level_def picker_on_def)
      ultimately show ?thesis using zero L split
        by (auto simp: prepared_def start_level_def intro!: exI [of _ 0])
    next
      case none
      then have "prepare_level e p = prepare_level e (all_of_next_level e ?p)"
        using less.prems(2) on L by (subst prepare_level.simps) (simp add: Let_def)
      moreover have "filter (wanted ikey) ?f = []"
      proof -
        have "\<not> wanted ikey (?f ! k)" if "k < length ?f" for k
          using search_level(4) [OF ok L b none(1) that] none(3) max_le by (auto split: if_splits)
        then show ?thesis by (auto simp: filter_empty_conv in_set_conv_nth)
      qed
      ultimately show ?thesis using skip [OF on'] by simp
    next
      case search
      define r' where "r' = (if ?r = kLevelMaxIndex e then int (length ?f) - 1 else ?r)"
      define i where "i = FindFileInRange e ?f ikey (nat ?l) (nat (r' + 1))"
      let ?q = "?p\<lparr>fp_search_right_bound := r'\<rparr>"
      note s = search_level [OF ok L b search(1), folded r'_def, folded i_def]
      have q: "(if ?r = kLevelMaxIndex e then ?p\<lparr>fp_search_right_bound := int (length ?f) - 1\<rparr> else ?p) = ?q" by (simp add: r'_def)
      have "\<not> length ?f < nat (r' + 1)" using s(1) by linarith
      then have step: "prepare_level e p = (if int i = r' + 1 then prepare_level e (all_of_next_level e ?q) else Returns (True, start_level i ?q))"
        using less.prems(2) on L search q
        by (subst prepare_level.simps) (simp add: Let_def i_def)
      show ?thesis
      proof (cases "int i = r' + 1")
        case True
        have "\<not> wanted ikey (?f ! k)" if "k < length ?f" for k using s(4) [OF that] True by linarith
        then have "filter (wanted ikey) ?f = []" by (auto simp: filter_empty_conv in_set_conv_nth)
        then show ?thesis using skip [of ?q] on' True step by (simp add: picker_on_def)
      next
        case False
        have i: "i < length ?f" using s(1) s(2) [OF search(3)] False by linarith
        have "filter (wanted ikey) (drop i ?f) = filter (wanted ikey) ?f"
          using s(4) by (intro filter_drop_none) (meson not_less)
        moreover have "in_level e ikey levels L (start_level i ?q)"
          using on' L search(2) i s(3) [OF search(3) False] by (simp add: in_level_def start_level_def picker_on_def Let_def)
        ultimately show ?thesis using step False split L
          by (auto simp: prepared_def start_level_def intro!: exI [of _ L])
      qed
    qed
  qed
qed

section \<open>Picking the next file\<close>

lemma internal_order:
  assumes "internal_key a" "internal_key b"
  shows "CompareInternalKeys a b < 0 \<Longrightarrow> user_key_of a \<le> user_key_of b"
    "\<not> CompareInternalKeys a b < 0 \<Longrightarrow> user_key_of b \<le> user_key_of a"
  using CompareInternalKeys_sign(1) [OF assms] by (auto simp: ikey_less_def)

definition picker_at :: "picker_env \<Rightarrow> bytes \<Rightarrow> LevelFilesBrief list \<Rightarrow> FilePicker \<Rightarrow> bool" where
  "picker_at e ikey levels p \<longleftrightarrow> fp_search_ended p \<or> (\<exists>L. in_level e ikey levels L p)"

text \<open>A picker that is done with level \<open>L\<close>.\<close>

definition level_done :: "picker_env \<Rightarrow> bytes \<Rightarrow> LevelFilesBrief list \<Rightarrow> nat \<Rightarrow> FilePicker \<Rightarrow> bool" where
  "level_done e ikey levels L p \<longleftrightarrow>
     picker_on ikey levels p \<and> fp_curr_level p = int L \<and> next_bounds e levels p (Suc L) \<and>
     (L = 0 \<longrightarrow> fp_search_left_bound p = 0 \<and> fp_search_right_bound p = kLevelMaxIndex e)"

lemma end_unless_prepared_run:
  assumes r: "prepare_level e (p\<lparr>fp_curr_level := fp_curr_level p + 1\<rparr>) = Returns r" "prepared e ikey levels L r"
  shows "\<exists>p'. end_unless_prepared e p = Returns p' \<and> picker_at e ikey levels p' \<and>
    filter (wanted ikey) (files_left levels p') = filter (wanted ikey) (concat (drop L levels)) \<and>
    length (files_left levels p') \<le> length (concat (drop L levels)) \<and> (fp_search_ended p' \<or> int L \<le> fp_curr_level p')"
proof -
  obtain b q where b: "r = (b, q)" by (cases r)
  have run: "end_unless_prepared e p = Returns (q\<lparr>fp_search_ended := \<not> b\<rparr>)"
    using r(1) b by (simp add: end_unless_prepared_def PrepareNextLevel_def)
  show ?thesis
  proof (cases b)
    case True
    obtain M where M: "in_level e ikey levels M q"
      "filter (wanted ikey) (concat (drop L levels)) =
        filter (wanted ikey) (drop (fp_curr_index_in_curr_level q) (levels ! M) @ concat (drop (Suc M) levels))"
      "length (drop (fp_curr_index_in_curr_level q) (levels ! M) @ concat (drop (Suc M) levels)) \<le> length (concat (drop L levels))" "L \<le> M"
      using r(2) b True unfolding prepared_def by auto
    have "in_level e ikey levels M (q\<lparr>fp_search_ended := False\<rparr>)" "fp_curr_file_level q = levels ! M" "fp_curr_level q = int M"
      using M(1) unfolding in_level_def picker_on_def by (simp_all add: Let_def cong: if_cong)
    then show ?thesis using run True M(2-4) by (auto simp: picker_at_def files_left_def)
  next
    case False
    then show ?thesis using run r(2) b by (auto simp: picker_at_def files_left_def prepared_def)
  qed
qed

lemma end_unless_prepared_ok:
  assumes ok: "picker_ok e ikey levels" and d: "level_done e ikey levels L p"
  shows "\<exists>p'. end_unless_prepared e p = Returns p' \<and> picker_at e ikey levels p' \<and>
    filter (wanted ikey) (files_left levels p') = filter (wanted ikey) (concat (drop (Suc L) levels)) \<and>
    length (files_left levels p') \<le> length (concat (drop (Suc L) levels)) \<and> (fp_search_ended p' \<or> int L < fp_curr_level p')"
proof -
  let ?p = "p\<lparr>fp_curr_level := fp_curr_level p + 1\<rparr>"
  have "picker_on ikey levels ?p" "fp_curr_level ?p = int (Suc L)" "next_bounds e levels ?p (Suc L)"
    "Suc L \<le> 1 \<longrightarrow> fp_search_left_bound ?p = 0 \<and> fp_search_right_bound ?p = kLevelMaxIndex e"
    using d unfolding level_done_def picker_on_def next_bounds_def by auto
  then obtain r where r: "prepare_level e ?p = Returns r" "prepared e ikey levels (Suc L) r"
    using prepare_level_ok [OF ok] by blast
  from end_unless_prepared_run [OF this] show ?thesis by fastforce
qed

lemma new_FilePicker_ok:
  assumes ok: "picker_ok e ikey levels"
  shows "\<exists>p. new_FilePicker e (user_key_of ikey) ikey levels = Returns p \<and> picker_at e ikey levels p \<and>
    filter (wanted ikey) (files_left levels p) = filter (wanted ikey) (concat levels)"
proof -
  define p where "p = \<lparr>fp_num_levels = int (length levels), fp_curr_level = -1, fp_returned_file_level = -1, fp_hit_file_level = -1,
    fp_search_left_bound = 0, fp_search_right_bound = kLevelMaxIndex e, fp_level_files_brief = levels,
    fp_search_ended = False, fp_is_hit_file_last_in_level = False, fp_curr_file_level = [],
    fp_curr_index_in_curr_level = 0, fp_start_index_in_curr_level = 0, fp_user_key = user_key_of ikey, fp_ikey = ikey\<rparr>"
  let ?p = "p\<lparr>fp_curr_level := fp_curr_level p + 1\<rparr>"
  have "picker_on ikey levels ?p" "fp_curr_level ?p = int 0" "next_bounds e levels ?p 0"
    "fp_search_left_bound ?p = 0 \<and> fp_search_right_bound ?p = kLevelMaxIndex e"
    using max_bounds [OF ok, of 0] by (simp_all add: p_def picker_on_def next_bounds_def)
  then obtain r where r: "prepare_level e ?p = Returns r" "prepared e ikey levels 0 r"
    using prepare_level_ok [OF ok, of ?p 0] by blast
  have "new_FilePicker e (user_key_of ikey) ikey levels = end_unless_prepared e p" by (simp add: new_FilePicker_def p_def)
  then show ?thesis using end_unless_prepared_run [OF r] by auto
qed

text \<open>What one pass over a level gives.\<close>

definition level_step_ok :: "picker_env \<Rightarrow> bytes \<Rightarrow> LevelFilesBrief list \<Rightarrow> nat \<Rightarrow> FdWithKeyRange list \<Rightarrow> level_step \<Rightarrow> bool" where
  "level_step_ok e ikey levels L todo st =
     (case st of
        PickFile f p \<Rightarrow>
          picker_at e ikey levels p \<and> filter (wanted ikey) todo = filter (wanted ikey) (f # files_left levels p) \<and>
          length (files_left levels p) < length todo
      | LevelEnd p \<Rightarrow>
          level_done e ikey levels L p \<and> filter (wanted ikey) todo = filter (wanted ikey) (concat (drop (Suc L) levels)) \<and>
          length (concat (drop (Suc L) levels)) \<le> length todo)"

lemma files_left_Cons:
  assumes "fp_curr_index_in_curr_level p < length (fp_curr_file_level p)" "\<not> fp_search_ended p"
  shows "files_left levels p = fp_curr_file_level p ! fp_curr_index_in_curr_level p #
     files_left levels (p\<lparr>fp_curr_index_in_curr_level := fp_curr_index_in_curr_level p + 1\<rparr>)"
  using assms by (simp add: files_left_def Cons_nth_drop_Suc [symmetric])

lemma scan_level_zero:
  assumes ok: "picker_ok e ikey levels"
  shows "in_level e ikey levels 0 p \<Longrightarrow> \<not> fp_search_ended p \<Longrightarrow>
     \<exists>st. scan_level e p = Returns st \<and> level_step_ok e ikey levels 0 (files_left levels p) st"
proof (induction "length (fp_curr_file_level p) - fp_curr_index_in_curr_level p" arbitrary: p rule: less_induct)
  case less
  let ?i = "fp_curr_index_in_curr_level p" and ?f = "fp_curr_file_level p" and ?u = "user_key_of ikey"
  have on: "picker_on ikey levels p" "fp_curr_level p = 0" "fp_search_left_bound p = 0" "fp_search_right_bound p = kLevelMaxIndex e"
    "fp_user_key p = ?u" "?f = levels ! 0" "0 < length levels"
    using less.prems(1) by (simp_all add: in_level_def picker_on_def)
  show ?case
  proof (cases "?i < length ?f")
    case False
    have "next_bounds e levels p 1" using max_bounds [OF ok] on by (simp add: next_bounds_def)
    then have "level_step_ok e ikey levels 0 (files_left levels p) (LevelEnd p)"
      using False on less.prems(2) by (simp add: level_step_ok_def level_done_def files_left_def)
    then show ?thesis using False by (subst scan_level.simps) (simp add: Let_def)
  next
    case True
    let ?x = "?f ! ?i"
    let ?fr = "fp_num_levels p > 1 \<or> length ?f > 3"
    let ?p = "p\<lparr>fp_hit_file_level := fp_curr_level p, fp_is_hit_file_last_in_level := (?i = length ?f - 1)\<rparr>"
    let ?n = "?p\<lparr>fp_curr_index_in_curr_level := ?i + 1\<rparr>"
    let ?cs = "ucmp_CompareWithoutTimestamp e ?u (user_key_of (fd_smallest_key ?x))"
    let ?cl = "if ?fr \<and> ?cs \<ge> 0 then ucmp_CompareWithoutTimestamp e ?u (user_key_of (fd_largest_key ?x)) else -1"
    have left: "files_left levels p = ?x # files_left levels ?n"
      using files_left_Cons [OF True less.prems(2), of levels] by (simp add: files_left_def)
    have n: "in_level e ikey levels 0 ?n" "in_level e ikey levels 0 (?n\<lparr>fp_returned_file_level := 0\<rparr>)"
      using less.prems(1) by (simp_all add: in_level_def picker_on_def)
    have left': "files_left levels (?n\<lparr>fp_returned_file_level := 0\<rparr>) = files_left levels ?n" by (simp add: files_left_def)
    show ?thesis
    proof (cases "?fr \<and> (?cs < 0 \<or> ?cl > 0)")
      case out: True
      have "\<not> wanted ikey ?x" using out ok by (auto simp: wanted_def in_range_def picker_ok_def not_less split: if_splits)
      have sub: "length (fp_curr_file_level ?n) - fp_curr_index_in_curr_level ?n < length ?f - ?i" using True by simp
      obtain st where "scan_level e ?n = Returns st" "level_step_ok e ikey levels 0 (files_left levels ?n) st"
        using less.hyps [OF sub n(1)] less.prems(2) by auto
      moreover have "scan_level e p = scan_level e ?n"
        using True out on by (subst scan_level.simps) (auto simp: Let_def)
      ultimately show ?thesis using left \<open>\<not> wanted ikey ?x\<close>
        by (auto simp: level_step_ok_def split: level_step.splits)
    next
      case False
      then have "scan_level e p = Returns (PickFile ?x (?n\<lparr>fp_returned_file_level := 0\<rparr>))"
        using True on by (subst scan_level.simps) (auto simp: Let_def)
      then show ?thesis using n(2) left left' by (auto simp: level_step_ok_def picker_at_def)
    qed
  qed
qed

text \<open>Facts on the files of a sorted level, relative to the user key.\<close>

lemma sorted_level_keys:
  assumes ok: "picker_ok e ikey levels" and L: "0 < L" "L < length levels"
  shows "i < k \<Longrightarrow> k < length (levels ! L) \<Longrightarrow>
      user_key_of (fd_largest_key (levels ! L ! i)) \<le> user_key_of (fd_smallest_key (levels ! L ! k))"
    and "i < length (levels ! L) \<Longrightarrow> user_key_of (fd_smallest_key (levels ! L ! i)) \<le> user_key_of (fd_largest_key (levels ! L ! i))"
    and "i < length (levels ! L) \<Longrightarrow> \<not> CompareInternalKeys (fd_largest_key (levels ! L ! i)) ikey < 0 \<Longrightarrow>
      user_key_of ikey \<le> user_key_of (fd_largest_key (levels ! L ! i))"
proof -
  have f: "file_ok (levels ! L ! i)" if "i < length (levels ! L)" for i
    using ok L that by (simp add: picker_ok_def list_all_length)
  obtain M where M: "L = Suc M" using L(1) by (cases L) auto
  have "sorted_level (tl levels ! M)" using ok L(2) M by (simp add: picker_ok_def list_all_length)
  then have "sorted_level (levels ! L)" using L(2) M by (simp add: nth_tl)
  then show "i < k \<Longrightarrow> k < length (levels ! L) \<Longrightarrow>
      user_key_of (fd_largest_key (levels ! L ! i)) \<le> user_key_of (fd_smallest_key (levels ! L ! k))"
    using f [of i] f [of k] internal_order(1) by (simp add: sorted_level_def sorted_wrt_iff_nth_less file_ok_def)
  show "i < length (levels ! L) \<Longrightarrow> user_key_of (fd_smallest_key (levels ! L ! i)) \<le> user_key_of (fd_largest_key (levels ! L ! i))"
    using f [of i] internal_order(2) by (simp add: file_ok_def)
  show "i < length (levels ! L) \<Longrightarrow> \<not> CompareInternalKeys (fd_largest_key (levels ! L ! i)) ikey < 0 \<Longrightarrow>
      user_key_of ikey \<le> user_key_of (fd_largest_key (levels ! L ! i))"
    using f [of i] internal_order(2) ok by (simp add: file_ok_def picker_ok_def)
qed

lemma none_wanted_from:
  assumes ok: "picker_ok e ikey levels" and L: "0 < L" "L < length levels" and i: "i < length (levels ! L)"
    and lt: "user_key_of ikey < user_key_of (fd_smallest_key (levels ! L ! i))"
  shows "filter (wanted ikey) (drop i (levels ! L)) = []"
proof -
  have "\<not> wanted ikey (levels ! L ! k)" if k: "i \<le> k" "k < length (levels ! L)" for k
  proof (cases "i = k")
    case False
    then have "user_key_of ikey < user_key_of (fd_smallest_key (levels ! L ! k))"
      using sorted_level_keys(1) [OF ok L, of i k] sorted_level_keys(2) [OF ok L i] k lt by (meson le_neq_implies_less less_le_trans order_trans)
    then show ?thesis by (auto simp: wanted_def in_range_def)
  qed (use lt in \<open>auto simp: wanted_def in_range_def\<close>)
  then show ?thesis by (auto simp: filter_empty_conv in_set_conv_nth)
qed

lemma none_wanted_after:
  assumes ok: "picker_ok e ikey levels" and L: "0 < L" "L < length levels" and i: "i < length (levels ! L)"
    and lt: "user_key_of ikey < user_key_of (fd_largest_key (levels ! L ! i))"
  shows "filter (wanted ikey) (drop (Suc i) (levels ! L)) = []"
proof (cases "Suc i < length (levels ! L)")
  case True
  then show ?thesis
    using none_wanted_from [OF ok L True] sorted_level_keys(1) [OF ok L, of i "Suc i"] lt by (meson lessI less_le_trans)
qed simp

lemma scan_level_sorted:
  assumes ok: "picker_ok e ikey levels" and p: "in_level e ikey levels L p" and L: "0 < L" and run: "\<not> fp_search_ended p"
  shows "\<exists>st. scan_level e p = Returns st \<and> level_step_ok e ikey levels L (files_left levels p) st"
proof -
  define i where "i = fp_curr_index_in_curr_level p"
  define b where "b = fp_start_index_in_curr_level p"
  let ?f = "levels ! L" and ?u = "user_key_of ikey"
  have on: "picker_on ikey levels p" "fp_curr_level p = int L" "L < length levels" "fp_curr_file_level p = ?f"
    "fp_user_key p = ?u" "fp_num_levels p = int (length levels)" using p by (simp_all add: in_level_def picker_on_def)
  have at: "b \<le> i" "b < length ?f" "\<not> CompareInternalKeys (fd_largest_key (?f ! b)) ikey < 0"
    "b < i \<longrightarrow> i \<le> length ?f \<and> user_key_of (fd_largest_key (?f ! (i - 1))) = ?u \<and> next_bounds e levels p (Suc L)"
    using p L by (simp_all add: in_level_def Let_def i_def b_def)
  have left: "files_left levels p = drop i ?f @ concat (drop (Suc L) levels)" using on run by (simp add: files_left_def i_def)
  note keys = sorted_level_keys [OF ok L on(3)]
  show ?thesis
  proof (cases "i < length ?f")
    case False
    then have "level_step_ok e ikey levels L (files_left levels p) (LevelEnd p)"
      using at on L by (auto simp: level_step_ok_def level_done_def left)
    then show ?thesis using False on by (subst scan_level.simps) (simp add: Let_def i_def)
  next
    case i: True
    let ?x = "?f ! i"
    define cs where "cs = ucmp_CompareWithoutTimestamp e ?u (user_key_of (fd_smallest_key ?x))"
    define cl where "cl = (if cs \<ge> 0 then ucmp_CompareWithoutTimestamp e ?u (user_key_of (fd_largest_key ?x)) else -1)"
    obtain l r where lr: "GetNextLevelIndex e (int L) i cs cl = (l, r)" by fastforce
    have cmp: "cs < 0 \<longleftrightarrow> ?u < user_key_of (fd_smallest_key ?x)" "cs > 0 \<longleftrightarrow> user_key_of (fd_smallest_key ?x) < ?u"
      "cs \<ge> 0 \<Longrightarrow> cl < 0 \<longleftrightarrow> ?u < user_key_of (fd_largest_key ?x)" "cs \<ge> 0 \<Longrightarrow> cl > 0 \<longleftrightarrow> user_key_of (fd_largest_key ?x) < ?u"
      using ok by (simp_all add: picker_ok_def cs_def cl_def)
    define q where "q = p\<lparr>fp_hit_file_level := fp_curr_level p, fp_is_hit_file_last_in_level := (i = length ?f - 1),
      fp_search_left_bound := l, fp_search_right_bound := r\<rparr>"
    have first: "i = b \<or> cs \<le> 0" using at keys(1) [of "i - 1" i] i cmp(2) by (cases "i = b") auto
    have in_file: "\<not> cl > 0"
    proof (cases "i = b")
      case True
      then show ?thesis using keys(3) [OF i] at(3) cmp(4) by (cases "cs \<ge> 0") (auto simp: cl_def not_less)
    next
      case False
      then show ?thesis using first keys(2) [OF i] cmp by (cases "cs = 0") (auto simp: cl_def)
    qed
    have bounds: "next_bounds e levels q (Suc L)"
    proof -
      have "bounds_for e ?u (levels ! Suc L) l r" if "Suc L < length levels"
        using next_level_bounds [OF ok L that i] lr cs_def cl_def by simp
      then show ?thesis using on(5) by (simp add: next_bounds_def q_def)
    qed
    have q: "picker_on ikey levels q" "fp_curr_level q = int L" "fp_curr_file_level q = ?f" "fp_curr_index_in_curr_level q = i"
      "fp_start_index_in_curr_level q = b" "\<not> fp_search_ended q" "fp_num_levels q = int (length levels)"
      using on run by (simp_all add: q_def picker_on_def i_def b_def)
    have fin: "level_done e ikey levels L (q\<lparr>fp_returned_file_level := x\<rparr>)" "level_done e ikey levels L q" for x
      using q bounds L by (simp_all add: level_done_def picker_on_def next_bounds_def)
    have step: "scan_level e p =
        (if cs < 0 then Returns (LevelEnd q)
         else if cl < 0 then bind_outcome (end_unless_prepared e (q\<lparr>fp_returned_file_level := int L\<rparr>)) (\<lambda>p. Returns (PickFile ?x p))
         else Returns (PickFile ?x (q\<lparr>fp_returned_file_level := int L, fp_curr_index_in_curr_level := i + 1\<rparr>)))"
    proof -
      have fr: "Suc 0 < length levels" "L \<noteq> 0" using L on(3) by linarith+
      show ?thesis
      proof (cases "cs < 0")
        case True
        then have "GetNextLevelIndex e (int L) i cs (-1) = (l, r)" using lr by (simp add: cl_def)
        then show ?thesis
          using i first True L
          by (subst scan_level.simps)
            (simp add: Let_def on i_def [symmetric] b_def [symmetric] fr L cs_def [symmetric] q_def)
      next
        case False
        then have cl: "ucmp_CompareWithoutTimestamp e ?u (user_key_of (fd_largest_key ?x)) = cl" by (simp add: cl_def)
        then show ?thesis
          using i first in_file False lr L
          by (subst scan_level.simps)
            (auto simp: Let_def on i_def [symmetric] b_def [symmetric] fr L cs_def [symmetric] q_def)
      qed
    qed
    have head: "drop i ?f = ?x # drop (Suc i) ?f" using i by (simp add: Cons_nth_drop_Suc)
    consider (before) "cs < 0" | (inside) "cs \<ge> 0" "cl < 0" | (at_end) "cs \<ge> 0" "cl = 0" using in_file by linarith
    then show ?thesis
    proof cases
      case before
      then have "level_step_ok e ikey levels L (files_left levels p) (LevelEnd q)"
        using none_wanted_from [OF ok L on(3) i] cmp(1) fin(2) by (simp add: level_step_ok_def left)
      then show ?thesis using step before by simp
    next
      case inside
      obtain p' where p': "end_unless_prepared e (q\<lparr>fp_returned_file_level := int L\<rparr>) = Returns p'" "picker_at e ikey levels p'"
        "filter (wanted ikey) (files_left levels p') = filter (wanted ikey) (concat (drop (Suc L) levels))"
        "length (files_left levels p') \<le> length (concat (drop (Suc L) levels))"
        using end_unless_prepared_ok [OF ok fin(1)] by blast
      have "level_step_ok e ikey levels L (files_left levels p) (PickFile ?x p')"
        using none_wanted_after [OF ok L on(3) i] cmp(3) inside p'(2-4) by (simp add: level_step_ok_def left head)
      then show ?thesis using step inside p'(1) by simp
    next
      case at_end
      let ?n = "q\<lparr>fp_returned_file_level := int L, fp_curr_index_in_curr_level := i + 1\<rparr>"
      have "user_key_of (fd_largest_key ?x) = ?u" using at_end cmp(3,4) by (meson linorder_neqE less_irrefl)
      then have "in_level e ikey levels L ?n"
        using q on(3) at L i bounds by (simp add: in_level_def picker_on_def Let_def next_bounds_def)
      moreover have "files_left levels ?n = drop (Suc i) ?f @ concat (drop (Suc L) levels)" using q by (simp add: files_left_def)
      ultimately have "level_step_ok e ikey levels L (files_left levels p) (PickFile ?x ?n)"
        unfolding level_step_ok_def left head by (auto simp: picker_at_def)
      then show ?thesis using step at_end by simp
    qed
  qed
qed

lemma scan_level_picks: "scan_level e p = Returns (PickFile f p') \<Longrightarrow> f \<in> set (fp_curr_file_level p)"
proof (induction "length (fp_curr_file_level p) - fp_curr_index_in_curr_level p" arbitrary: p rule: less_induct)
  case less
  let ?i = "fp_curr_index_in_curr_level p"
  have i: "?i < length (fp_curr_file_level p)"
    by (rule ccontr) (use less.prems in \<open>subst (asm) scan_level.simps, simp add: Let_def\<close>)
  have step: "f \<in> set (fp_curr_file_level p)"
    if "scan_level e q = Returns (PickFile f p')" "fp_curr_file_level q = fp_curr_file_level p" "fp_curr_index_in_curr_level q = ?i + 1" for q
    using less.hyps [of q] that i by simp
  show ?case
    using less.prems i step
    by (subst (asm) scan_level.simps) (auto simp: Let_def bind_outcome_Returns_iff split: if_split_asm prod.split_asm)
qed

lemma GetNextFile_ok:
  assumes ok: "picker_ok e ikey levels"
  shows "picker_at e ikey levels p \<Longrightarrow>
     \<exists>r p'. GetNextFile e p = Some (Returns (r, p')) \<and>
       (case r of
          None \<Rightarrow> filter (wanted ikey) (files_left levels p) = []
        | Some f \<Rightarrow> f \<in> set (concat levels) \<and> picker_at e ikey levels p' \<and>
            filter (wanted ikey) (files_left levels p) = filter (wanted ikey) (f # files_left levels p') \<and>
            length (files_left levels p') < length (files_left levels p))"
proof (induction "if fp_search_ended p then 0 else length levels - nat (fp_curr_level p)" arbitrary: p rule: less_induct)
  case less
  show ?case
  proof (cases "fp_search_ended p")
    case True
    then show ?thesis by (subst GetNextFile.simps) (simp add: files_left_def)
  next
    case False
    then obtain L where L: "in_level e ikey levels L p" using less.prems by (auto simp: picker_at_def)
    then have lvl: "fp_curr_level p = int L" "L < length levels" by (simp_all add: in_level_def)
    obtain st where st: "scan_level e p = Returns st" "level_step_ok e ikey levels L (files_left levels p) st"
      using scan_level_zero [OF ok, of p] scan_level_sorted [OF ok L] L False by (cases "L = 0") auto
    show ?thesis
    proof (cases st)
      case (PickFile f p')
      have "f \<in> set (levels ! L)" using scan_level_picks [of e p f p'] st(1) PickFile L by (simp add: in_level_def)
      then have "f \<in> set (concat levels)" using lvl(2) by auto
      then show ?thesis using PickFile st False by (subst GetNextFile.simps) (simp add: level_step_ok_def)
    next
      case (LevelEnd q)
      have q: "level_done e ikey levels L q" "filter (wanted ikey) (files_left levels p) = filter (wanted ikey) (concat (drop (Suc L) levels))"
        "length (concat (drop (Suc L) levels)) \<le> length (files_left levels p)" using st(2) LevelEnd by (simp_all add: level_step_ok_def)
      obtain p' where p': "end_unless_prepared e q = Returns p'" "picker_at e ikey levels p'"
        "filter (wanted ikey) (files_left levels p') = filter (wanted ikey) (concat (drop (Suc L) levels))"
        "length (files_left levels p') \<le> length (concat (drop (Suc L) levels))" "fp_search_ended p' \<or> int L < fp_curr_level p'"
        using end_unless_prepared_ok [OF ok q(1)] by blast
      have "(if fp_search_ended p' then 0 else length levels - nat (fp_curr_level p')) <
          (if fp_search_ended p then 0 else length levels - nat (fp_curr_level p))"
        using p'(5) lvl False by auto
      from less.hyps [OF this p'(2)]
      obtain r p'' where r: "GetNextFile e p' = Some (Returns (r, p''))"
        "case r of None \<Rightarrow> filter (wanted ikey) (files_left levels p') = []
         | Some f \<Rightarrow> f \<in> set (concat levels) \<and> picker_at e ikey levels p'' \<and>
            filter (wanted ikey) (files_left levels p') = filter (wanted ikey) (f # files_left levels p'') \<and>
            length (files_left levels p'') < length (files_left levels p')" by blast
      have "GetNextFile e p = GetNextFile e p'"
        using st(1) LevelEnd p'(1) False by (subst GetNextFile.simps) simp
      then show ?thesis using r q(2,3) p'(3,4) by (auto split: option.splits)
    qed
  qed
qed

text \<open>The files a loop over \<open>GetNextFile\<close> visits.\<close>

inductive file_sequence :: "picker_env \<Rightarrow> FilePicker \<Rightarrow> FdWithKeyRange list \<Rightarrow> bool" for e where
  last_file: "GetNextFile e p = Some (Returns (None, p')) \<Longrightarrow> file_sequence e p []"
| next_file: "GetNextFile e p = Some (Returns (Some f, p')) \<Longrightarrow> file_sequence e p' fs \<Longrightarrow> file_sequence e p (f # fs)"

inductive_cases file_sequence_NilE: "file_sequence e p []"
inductive_cases file_sequence_ConsE: "file_sequence e p (f # fs)"

lemma file_sequence_exists:
  assumes ok: "picker_ok e ikey levels"
  shows "picker_at e ikey levels p \<Longrightarrow>
     \<exists>fs. file_sequence e p fs \<and> set fs \<subseteq> set (concat levels) \<and>
          filter (wanted ikey) fs = filter (wanted ikey) (files_left levels p)"
proof (induction "length (files_left levels p)" arbitrary: p rule: less_induct)
  case less
  obtain r p' where r: "GetNextFile e p = Some (Returns (r, p'))"
    "case r of None \<Rightarrow> filter (wanted ikey) (files_left levels p) = []
     | Some f \<Rightarrow> f \<in> set (concat levels) \<and> picker_at e ikey levels p' \<and>
         filter (wanted ikey) (files_left levels p) = filter (wanted ikey) (f # files_left levels p') \<and>
         length (files_left levels p') < length (files_left levels p)"
    using GetNextFile_ok [OF ok less.prems] by blast
  show ?case
  proof (cases r)
    case None
    then show ?thesis using r last_file by fastforce
  next
    case (Some f)
    then have f: "f \<in> set (concat levels)" using r(2) by simp
    have p': "picker_at e ikey levels p'" "length (files_left levels p') < length (files_left levels p)"
      "filter (wanted ikey) (files_left levels p) = filter (wanted ikey) (f # files_left levels p')" using r(2) Some by simp_all
    obtain fs where "file_sequence e p' fs" "set fs \<subseteq> set (concat levels)" "filter (wanted ikey) fs = filter (wanted ikey) (files_left levels p')"
      using less.hyps [OF p'(2,1)] by blast
    then show ?thesis using next_file [of e p f p' fs] r(1) Some p'(3) f by (intro exI [of _ "f # fs"]) simp
  qed
qed

lemma picker_complete:
  assumes "picker_ok e ikey levels"
  shows "\<exists>p fs. new_FilePicker e (user_key_of ikey) ikey levels = Returns p \<and> file_sequence e p fs \<and>
           set fs \<subseteq> set (concat levels) \<and> filter (wanted ikey) fs = filter (wanted ikey) (concat levels)"
proof -
  obtain p where p: "new_FilePicker e (user_key_of ikey) ikey levels = Returns p" "picker_at e ikey levels p"
    "filter (wanted ikey) (files_left levels p) = filter (wanted ikey) (concat levels)"
    using new_FilePicker_ok [OF assms] by blast
  then show ?thesis using file_sequence_exists [OF assms p(2)] by fastforce
qed

section \<open>Property\<close>


text \<open>Two levels with files for the keys a to c and b to d, and an indexer that gives no bounds.\<close>

definition example_ikey :: "byte \<Rightarrow> bytes" where
  "example_ikey c = [c, 1, 1, 0, 0, 0, 0, 0, 0]"

definition example_levels :: "LevelFilesBrief list" where
  "example_levels =
     [[\<lparr>fd_number = 1, fd_smallest_key = example_ikey 97, fd_largest_key = example_ikey 99\<rparr>],
      [\<lparr>fd_number = 2, fd_smallest_key = example_ikey 97, fd_largest_key = example_ikey 97\<rparr>,
       \<lparr>fd_number = 3, fd_smallest_key = example_ikey 98, fd_largest_key = example_ikey 100\<rparr>]]"

definition example_picker_env :: picker_env where
  "example_picker_env =
     \<lparr>ucmp_CompareWithoutTimestamp = (\<lambda>a b. if a < b then -1 else if b < a then 1 else 0), icmp_Compare = CompareInternalKeys,
      kLevelMaxIndex = 2147483647, GetNextLevelIndex = (\<lambda>L i a b. (0, 2147483647))\<rparr>"

lemma example_order: "a < b \<Longrightarrow> CompareInternalKeys (example_ikey a) (example_ikey b) < 0"
  "internal_key (example_ikey a)" "\<not> CompareInternalKeys (example_ikey a) (example_ikey a) < 0" "user_key_of (example_ikey a) = [a]"
  by (simp_all add: example_ikey_def CompareInternalKeys_def kInternalKeyTail_def internal_key_def user_key_of_def Let_def)

lemma example_picker_ok: "picker_ok example_picker_env (example_ikey 98) example_levels"
proof -
  have "\<not> CompareInternalKeys (example_ikey 99) (example_ikey 97) < 0" "\<not> CompareInternalKeys (example_ikey 100) (example_ikey 98) < 0"
    by (simp_all add: example_ikey_def CompareInternalKeys_def kInternalKeyTail_def Let_def)
  then show ?thesis
    by (auto simp: picker_ok_def example_picker_env_def example_levels_def file_ok_def sorted_level_def example_order)
qed


end
