(* ===== verification/GDS_DB_Accessor.thy ===== *)
theory GDS_DB_Accessor
  imports GDS_Table_Reader SST_File_Picker
begin

text \<open>
  \<open>GDSDBAccessor::GetFromSST\<close> of \<^verbatim>\<open>gds/gds_db_accessor.cu\<close>: the lookup of a key in the table files
  of a version, file by file in the order of \<open>FilePicker\<close>, through \<open>GDSBlockBasedTableReader::Get\<close>.

  The version, the table cache and the construction of a lookup key are RocksDB's and are fields of
  \<open>accessor_env\<close>. The state counts the table handles and super versions that are held and the device bytes that
  were allocated and not freed.
\<close>

section \<open>State and parameters\<close>

record accessor_env =
  ae_format :: dbformat
  GetLastPublishedSequence :: u64
  LookupKey_internal_key :: "bytes \<Rightarrow> u64 \<Rightarrow> bytes"
  ae_malloc_ok :: bool
  ae_memcpy_ok :: bool
  GetAndRefSuperVersion_ok :: bool
  ae_levels :: "LevelFilesBrief list"
  ae_picker :: picker_env
  ae_optimize_filters_for_hits :: bool
  ae_merge_operator :: bool
  ae_prefix_extractor :: "SliceTransform option"
  FindTable :: "nat \<Rightarrow> bool \<Rightarrow> int \<Rightarrow> Status \<times> bool"
  ae_table_env :: "nat \<Rightarrow> table_env"

text \<open>
  The table readers by file number; \<open>None\<close> is a reader of another class. A value slice points into the memory of
  one reader, whose file is \<open>as_value_file\<close>.
\<close>

record accessor_state =
  as_tables :: "nat \<Rightarrow> GDSBlockBasedTableReader option"
  as_buffer :: "GDSDataBlockIterDevicePinnedBuffer option"
  as_value :: "DeviceSlice option"
  as_value_file :: nat
  as_handles :: int
  as_super_versions :: int
  as_device_bytes :: nat

section \<open>The lookup\<close>

definition new_GDSGetContext :: "bool \<Rightarrow> bytes \<Rightarrow> DeviceSlice option \<Rightarrow> GDSGetContext" where
  "new_GDSGetContext merge_operator user_key val =
     \<lparr>gc_state = kNotFound, gc_user_key = user_key, gc_device_value = val, gc_columns = None, gc_timestamp = None,
      gc_ts_from_rangetombstone = False, gc_merge_operator = merge_operator, gc_merge_context = Some [],
      gc_do_merge = (val \<noteq> None), gc_max_covering_tombstone_seq = None, gc_seq = None, gc_is_blob_index = None,
      gc_replay_log = None\<rparr>"

definition skip_filters_of :: "accessor_env \<Rightarrow> FilePicker \<Rightarrow> bool" where
  "skip_filters_of E fp \<longleftrightarrow>
     ae_optimize_filters_for_hits E \<and> (GetHitFileLevel fp > 0 \<or> IsHitFileLastInLevel fp) \<and>
     GetHitFileLevel fp = int (length (ae_levels E)) - 1"

text \<open>One file: the loop ends with a flag and an I/O status, or goes on.\<close>

datatype file_step = FileStop bool IOStatus accessor_state | FileNext accessor_state

definition release_handle :: "accessor_state \<Rightarrow> accessor_state" where
  "release_handle st = st\<lparr>as_handles := as_handles st - 1\<rparr>"

definition sst_file ::
  "accessor_env \<Rightarrow> ReadOptions \<Rightarrow> bytes \<Rightarrow> bytes \<Rightarrow> FilePicker \<Rightarrow> FdWithKeyRange \<Rightarrow> accessor_state \<Rightarrow> file_step outcome option" where
  "sst_file E ro host_key ikey fp fd st =
     (let n = fd_number fd;
          skip_filters = skip_filters_of E fp;
          found = FindTable E n skip_filters (GetHitFileLevel fp);
          st = (if snd found then st\<lparr>as_handles := as_handles st + 1\<rparr> else st)
      in if \<not> status_ok (fst found)
         then Some (Returns (FileStop False (io_IOError ''FindTable'') (if snd found then release_handle st else st)))
         else if \<not> snd found then Some (Undefined ''value of a null table handle'')
         else
           case as_tables st n of
             None \<Rightarrow> Some (Returns (FileStop False (io_UnsupportedError ''Table reader is not GDS-enabled'') (release_handle st)))
           | Some r \<Rightarrow>
               bind_run
                 (table_Get (ae_format E) (ae_table_env E n) ro ikey ikey (ae_prefix_extractor E) skip_filters
                    \<lparr>gs_reader = r, gs_buffer = as_buffer st, gs_matched = False,
                     gs_context = new_GDSGetContext (ae_merge_operator E) host_key (as_value st)\<rparr>)
                 (\<lambda>(s, g).
                    let st = release_handle
                               (st\<lparr>as_tables := (as_tables st)(n := Some (gs_reader g)), as_buffer := gs_buffer g,
                                   as_value := gc_device_value (gs_context g)\<rparr>)
                    in Some (Returns
                         (if \<not> status_ok s then FileStop False (io_IOError ''Get'') st
                          else if gc_state (gs_context g) = kFound then FileStop True io_OK (st\<lparr>as_value_file := n\<rparr>)
                          else if gc_state (gs_context g) = kCorrupt then FileStop False (io_IOError ''Corrupted key'') st
                          else FileNext st))))"

text \<open>The loop over the files, with the file to look at, or \<open>None\<close> for the null pointer.\<close>

partial_function (option) sst_files ::
  "accessor_env \<Rightarrow> ReadOptions \<Rightarrow> bytes \<Rightarrow> bytes \<Rightarrow> FilePicker \<Rightarrow> FdWithKeyRange option \<Rightarrow> accessor_state \<Rightarrow>
     (bool \<times> IOStatus \<times> accessor_state) outcome option" where
  "sst_files E ro host_key ikey fp next st =
     (case next of
        None \<Rightarrow> Some (Returns (False, io_OK, st))
      | Some fd \<Rightarrow>
          (case sst_file E ro host_key ikey fp fd st of
             None \<Rightarrow> None
           | Some (Returns step) \<Rightarrow>
               (case step of
                  FileStop value_found io st \<Rightarrow> Some (Returns (value_found, io, st))
                | FileNext st \<Rightarrow>
                    (case GetNextFile (ae_picker E) fp of
                       None \<Rightarrow> None
                     | Some (Returns r) \<Rightarrow> sst_files E ro host_key ikey (snd r) (fst r) st
                     | Some (Throws m) \<Rightarrow> Some (Throws m)
                     | Some (Exits m) \<Rightarrow> Some (Exits m)
                     | Some (Undefined m) \<Rightarrow> Some (Undefined m)))
           | Some (Throws m) \<Rightarrow> Some (Throws m)
           | Some (Exits m) \<Rightarrow> Some (Exits m)
           | Some (Undefined m) \<Rightarrow> Some (Undefined m)))"

definition GetFromSST ::
  "accessor_env \<Rightarrow> u64 option \<Rightarrow> ReadOptions \<Rightarrow> DeviceSlice \<Rightarrow> bytes \<Rightarrow> accessor_state \<Rightarrow>
     (OperationResult \<times> accessor_state) outcome option" where
  "GetFromSST E snapshot_option ro key host_key st =
     (let snapshot = (case snapshot_option of Some n \<Rightarrow> n | None \<Rightarrow> GetLastPublishedSequence E)
      in if slice_size key = 0 \<or> slice_data key = NullPtr then Some (Returns (INVALID_PARAMETER, st))
         else
           let ikey = LookupKey_internal_key E host_key snapshot
           in if \<not> ae_malloc_ok E then Some (Throws ''CUDA error: cudaMallocAsync(&d_ikey)'')
              else if \<not> ae_memcpy_ok E then Some (Throws ''CUDA error: cudaMemcpyAsync(d_ikey)'')
              else
                let st = st\<lparr>as_device_bytes := as_device_bytes st + length ikey\<rparr>
                in if \<not> GetAndRefSuperVersion_ok E then Some (Returns (ROCKSDB_ERROR, st))
                   else
                     let st = st\<lparr>as_super_versions := as_super_versions st + 1\<rparr>
                     in bind_run (Some (new_FilePicker (ae_picker E) host_key ikey (ae_levels E)))
                          (\<lambda>fp. bind_run (GetNextFile (ae_picker E) fp)
                             (\<lambda>(f, fp). bind_run (sst_files E ro host_key ikey fp f st)
                                (\<lambda>(value_found, io, st).
                                   let st = st\<lparr>as_super_versions := as_super_versions st - 1\<rparr>
                                   in Some (Returns
                                        (if value_found then SUCCESS else if \<not> io_ok io then ROCKSDB_ERROR else KEY_NOT_FOUND,
                                         st))))))"

section \<open>The contract\<close>

text \<open>A table file: its bytes, how it was opened, and the data blocks it holds.\<close>

record table_file =
  tf_content :: bytes
  tf_options :: GDSOptions
  tf_cached :: bool
  tf_trailer :: nat
  tf_blocks :: "table_block list"

definition file_entries :: "table_file \<Rightarrow> (bytes \<times> bytes) list" where
  "file_entries T = concat (map block_entries (tf_blocks T))"

text \<open>What a lookup finds in one file: a value, a tombstone, or nothing for the user key.\<close>

datatype hit = Miss | Tombstone | Value bytes

definition file_hit :: "dbformat \<Rightarrow> bytes \<Rightarrow> table_file \<Rightarrow> hit" where
  "file_hit f t T =
     (case find (\<lambda>(k, v). \<not> CompareInternalKeys k t < 0) (file_entries T) of
        None \<Rightarrow> Miss
      | Some (k, v) \<Rightarrow>
          if user_key_of k \<noteq> user_key_of t then Miss
          else if pk_type (parsed_key k) = kTypeValueDB f then Value v else Tombstone)"

text \<open>
  The first file with a value (what the code looks for), and the first file with an entry (what a log-structured
  store means: the newest entry decides).
\<close>

fun first_value :: "hit list \<Rightarrow> bytes option" where
  "first_value [] = None"
| "first_value (Value v # hs) = Some v"
| "first_value (h # hs) = first_value hs"

fun newest_entry :: "hit list \<Rightarrow> bytes option" where
  "newest_entry [] = None"
| "newest_entry (Miss # hs) = newest_entry hs"
| "newest_entry (Tombstone # hs) = None"
| "newest_entry (Value v # hs) = Some v"

definition level_hits :: "accessor_env \<Rightarrow> (nat \<Rightarrow> table_file) \<Rightarrow> bytes \<Rightarrow> hit list" where
  "level_hits E F t = map (\<lambda>fd. file_hit (ae_format E) t (F (fd_number fd))) (concat (ae_levels E))"

text \<open>
  The files of the version: each holds blocks of values and deletions inside its key range, its index and filter lose no
  entry, and the table cache finds it.
\<close>

definition file_in_version :: "accessor_env \<Rightarrow> (nat \<Rightarrow> table_file) \<Rightarrow> bytes \<Rightarrow> FdWithKeyRange \<Rightarrow> bool" where
  "file_in_version E F t fd \<longleftrightarrow>
     (let n = fd_number fd; T = F n; env = ae_table_env E n
      in lookup_env (ae_format E) (tf_content T) env \<and>
         list_all (block_in_file (tf_content T) (tf_options T) (tf_cached T) (tf_trailer T)) (tf_blocks T) \<and>
         list_all (plain_block (ae_format E)) (tf_blocks T) \<and> index_sound env t (tf_blocks T) \<and>
         (\<forall>skip level. FindTable E n skip level = (StOK, True)) \<and>
         list_all (\<lambda>(k, v). internal_key k \<and> \<not> CompareInternalKeys k (fd_smallest_key fd) < 0 \<and>
                            \<not> CompareInternalKeys (fd_largest_key fd) k < 0) (file_entries T))"

definition table_ready :: "accessor_env \<Rightarrow> (nat \<Rightarrow> table_file) \<Rightarrow> bytes \<Rightarrow> accessor_state \<Rightarrow> FdWithKeyRange \<Rightarrow> bool" where
  "table_ready E F t st fd \<longleftrightarrow>
     (let n = fd_number fd; T = F n
      in \<exists>r. as_tables st n = Some r \<and>
           ra_ready (tf_content T) (tf_options T) (tf_cached T) (tr_gds_file r) \<and> tr_trailer_size r = tf_trailer T \<and>
           \<not> tr_decompressor r \<and> contains ''Bytewise'' (tr_comparator r) \<and>
           filter_sound (ae_table_env E n) t (ae_prefix_extractor E) r (tf_blocks T))"

definition tables_ready :: "accessor_env \<Rightarrow> (nat \<Rightarrow> table_file) \<Rightarrow> bytes \<Rightarrow> accessor_state \<Rightarrow> bool" where
  "tables_ready E F t st \<longleftrightarrow>
     list_all (table_ready E F t st) (concat (ae_levels E)) \<and> as_value st \<noteq> None \<and>
     (\<exists>b. as_buffer st = Some b \<and> (\<forall>s. iter_typed (s, b)))"

section \<open>A lookup changes only the file object of a reader\<close>

definition same_table :: "GDSBlockBasedTableReader \<Rightarrow> GDSBlockBasedTableReader \<Rightarrow> bool" where
  "same_table r r' \<longleftrightarrow> (\<exists>x. r' = r\<lparr>tr_gds_file := x\<rparr>)"

lemma same_table_refl [simp]: "same_table r r"
  unfolding same_table_def by (rule exI [of _ "tr_gds_file r"]) simp

lemma same_table_trans: "same_table a b \<Longrightarrow> same_table b c \<Longrightarrow> same_table a c"
  by (auto simp: same_table_def)

lemma RetrieveBlock_reader: "RetrieveBlock env ro h c t = Returns (s, b, t') \<Longrightarrow> same_table t t'"
  unfolding RetrieveBlock_def same_table_def
  by (auto simp: bind_outcome_Returns_iff Let_def split: if_split_asm intro: exI [of _ "tr_gds_file t"])

lemma NewDataBlockIterator_reader:
  assumes "NewDataBlockIterator env ro h it s b t = Returns (it', d, t')"
  shows "same_table t t'"
proof (cases "status_ok s")
  case True
  then show ?thesis
    using assms unfolding NewDataBlockIterator_def Let_def
    by (auto simp: bind_outcome_Returns_iff dest: RetrieveBlock_reader split: option.split_asm if_split_asm)
qed (use assms in \<open>simp add: NewDataBlockIterator_def Let_def\<close>)

lemma get_block_reader:
  assumes "get_block f env ro k v g = Some (Returns (s, b, g'))"
  shows "same_table (gs_reader g) (gs_reader g')"
proof -
  obtain it d t where t: "NewDataBlockIterator env ro (iv_handle v) (Some new_GDSDataBlockIter) StOK (gs_buffer g) (gs_reader g) = Returns (it, d, t)"
    using assms unfolding get_block_def by (elim bind_run_ReturnsE) (auto split: prod.split_asm)
  then have "gs_reader g' = t"
    using assms unfolding get_block_def t
    by (auto simp: Let_def split: if_split_asm elim!: bind_run_ReturnsE)
  then show ?thesis using NewDataBlockIterator_reader [OF t] by simp
qed

lemma get_blocks_reader: "get_blocks f env ro k d sk vs g = Some (Returns (s, g')) \<Longrightarrow> same_table (gs_reader g) (gs_reader g')"
proof (induction vs arbitrary: g)
  case (Cons v vs)
  then show ?case
    by (auto split: if_split_asm elim!: bind_run_ReturnsE dest!: get_block_reader intro: same_table_trans)
qed simp

lemma table_Get_reader: "table_Get f env ro k d pe sk g = Some (Returns (s, g')) \<Longrightarrow> same_table (gs_reader g) (gs_reader g')"
  unfolding table_Get_def Let_def by (auto split: if_split_asm elim!: bind_run_ReturnsE dest!: get_blocks_reader)

lemma FullFilterKeyMayMatch_reader:
  "FullFilterKeyMayMatch env fl t pe (r\<lparr>tr_gds_file := x\<rparr>) = FullFilterKeyMayMatch env fl t pe r"
  by (cases fl; cases pe) (auto simp: FullFilterKeyMayMatch_def PrefixExtractorChanged_def Let_def)

lemma same_table_filter: "same_table r r' \<Longrightarrow> filter_sound env t pe r' bs = filter_sound env t pe r bs"
  unfolding same_table_def filter_sound_def by (elim exE) (simp add: FullFilterKeyMayMatch_reader)

section \<open>The loop over the files\<close>

text \<open>The parts of the state a lookup leaves alone.\<close>

definition same_counts :: "accessor_state \<Rightarrow> accessor_state \<Rightarrow> bool" where
  "same_counts st st' \<longleftrightarrow>
     as_handles st' = as_handles st \<and> as_super_versions st' = as_super_versions st \<and> as_device_bytes st' = as_device_bytes st"

definition value_is :: "accessor_state \<Rightarrow> bytes \<Rightarrow> bool" where
  "value_is st v \<longleftrightarrow>
     (\<exists>p r. as_value st = Some p \<and> as_tables st (as_value_file st) = Some r \<and> slice_bytes (tr_gds_file r) p = v)"

lemma file_entries_plain:
  assumes "lookup_result f t (file_entries T) c g" "fresh_context (user_key_of t) c"
  shows "case file_hit f t T of
     Miss \<Rightarrow> gs_context g = c
   | Tombstone \<Rightarrow> gs_context g = c\<lparr>gc_state := kDeleted\<rparr>
   | Value v \<Rightarrow> \<exists>p. gs_context g = c\<lparr>gc_state := kFound, gc_device_value := Some p\<rparr> \<and> slice_bytes (tr_gds_file (gs_reader g)) p = v"
  using assms
  by (cases "find (\<lambda>(k, v). \<not> CompareInternalKeys k t < 0) (file_entries T)")
    (auto simp: lookup_result_def file_hit_def found_entry_def fresh_context_def)

lemma tables_ready_update:
  assumes "tables_ready E F t st" "fd \<in> set (concat (ae_levels E))" "as_tables st (fd_number fd) = Some r"
    and "ra_ready (tf_content (F (fd_number fd))) (tf_options (F (fd_number fd))) (tf_cached (F (fd_number fd))) (tr_gds_file r')"
    and "same_table r r'" "\<forall>s. iter_typed (s, b)" "v \<noteq> None"
    and "as_tables st' = (as_tables st)(fd_number fd := Some r')" "as_buffer st' = Some b" "as_value st' = v"
  shows "tables_ready E F t st'"
proof -
  have r: "tr_trailer_size r' = tr_trailer_size r" "tr_decompressor r' = tr_decompressor r" "tr_comparator r' = tr_comparator r"
    using assms(5) by (auto simp: same_table_def)
  have "table_ready E F t st' fd'" if "table_ready E F t st fd'" for fd'
    using that assms(3,4,8) r same_table_filter [OF assms(5)] by (auto simp: table_ready_def Let_def)
  then show ?thesis using assms(1,6,7,9,10) by (auto simp: tables_ready_def list_all_iff)
qed

lemma tables_ready_counts [simp]:
  "tables_ready E F t (st\<lparr>as_device_bytes := d\<rparr>) = tables_ready E F t st"
  "tables_ready E F t (st\<lparr>as_super_versions := n\<rparr>) = tables_ready E F t st"
  "tables_ready E F t (st\<lparr>as_value_file := m\<rparr>) = tables_ready E F t st"
  by (simp_all add: tables_ready_def table_ready_def Let_def list_all_iff)

lemma sst_file_ok:
  assumes ready: "tables_ready E F t st" and fd: "fd \<in> set (concat (ae_levels E))" "file_in_version E F t fd"
    and t: "internal_key t" and ro: "\<not> ro_block_cache_tier ro" "ro_timestamp ro = None"
  shows "\<exists>st'. tables_ready E F t st' \<and> same_counts st st' \<and>
     (case file_hit (ae_format E) t (F (fd_number fd)) of
        Value v \<Rightarrow> sst_file E ro (user_key_of t) t fp fd st = Some (Returns (FileStop True io_OK st')) \<and> value_is st' v
      | _ \<Rightarrow> sst_file E ro (user_key_of t) t fp fd st = Some (Returns (FileNext st')))"
proof -
  let ?n = "fd_number fd" let ?T = "F ?n"
  obtain r where r: "as_tables st ?n = Some r" "ra_ready (tf_content ?T) (tf_options ?T) (tf_cached ?T) (tr_gds_file r)"
    "tr_trailer_size r = tf_trailer ?T" "\<not> tr_decompressor r" "contains ''Bytewise'' (tr_comparator r)"
    "filter_sound (ae_table_env E ?n) t (ae_prefix_extractor E) r (tf_blocks ?T)"
    using ready fd(1) unfolding tables_ready_def table_ready_def Let_def list_all_iff by blast
  obtain b where b: "as_buffer st = Some b" "\<forall>s. iter_typed (s, b)" "as_value st \<noteq> None"
    using ready by (auto simp: tables_ready_def)
  define c where "c = new_GDSGetContext (ae_merge_operator E) (user_key_of t) (as_value st)"
  define g where "g = \<lparr>gs_reader = r, gs_buffer = as_buffer st, gs_matched = False, gs_context = c\<rparr>"
  note v = fd(2) [unfolded file_in_version_def Let_def]
  have c: "fresh_context (user_key_of t) c" using b(3) by (simp add: c_def new_GDSGetContext_def fresh_context_def)
  have g: "reader_ok (tf_content ?T) (tf_options ?T) (tf_cached ?T) (tf_trailer ?T) g"
    using r b by (simp add: reader_ok_def g_def)
  obtain g' where g': "table_Get (ae_format E) (ae_table_env E ?n) ro t t (ae_prefix_extractor E) (skip_filters_of E fp) g = Some (Returns (StOK, g'))"
    "reader_ok (tf_content ?T) (tf_options ?T) (tf_cached ?T) (tf_trailer ?T) g'"
    "lookup_result (ae_format E) t (file_entries ?T) c g'"
    using table_Get_lookup [of "ae_format E" "tf_content ?T" "ae_table_env E ?n" "tf_options ?T" "tf_cached ?T" "tf_trailer ?T" g t ro
        "tf_blocks ?T" "ae_prefix_extractor E" "skip_filters_of E fp"] v g c r(6) t ro
    by (auto simp: g_def file_entries_def)
  define st' where "st' = st\<lparr>as_tables := (as_tables st)(?n := Some (gs_reader g')), as_buffer := gs_buffer g',
    as_value := gc_device_value (gs_context g')\<rparr>"
  note hit = file_entries_plain [OF g'(3) c]
  have "gc_device_value (gs_context g') \<noteq> None" "gc_state c = kNotFound"
    using hit b(3) c by (auto simp: c_def new_GDSGetContext_def split: hit.split_asm)
  moreover obtain b' where "gs_buffer g' = Some b'" "\<forall>s. iter_typed (s, b')" using g'(2) by (auto simp: reader_ok_def)
  ultimately have "tables_ready E F t st'"
    using g'(2) table_Get_reader [OF g'(1)]
    by (intro tables_ready_update [OF ready fd(1) r(1)]) (auto simp: st'_def g_def reader_ok_def)
  moreover have "same_counts st st'" by (simp add: st'_def same_counts_def)
  moreover have "sst_file E ro (user_key_of t) t fp fd st = Some (Returns
      (if gc_state (gs_context g') = kFound then FileStop True io_OK (st'\<lparr>as_value_file := ?n\<rparr>)
       else if gc_state (gs_context g') = kCorrupt then FileStop False (io_IOError ''Corrupted key'') st' else FileNext st'))"
    using v r(1) g'(1) by (simp add: sst_file_def Let_def release_handle_def st'_def g_def c_def status_ok_def)
  moreover have "value_is (st'\<lparr>as_value_file := ?n\<rparr>) v" if "file_hit (ae_format E) t ?T = Value v" for v
    using hit that by (fastforce simp: value_is_def st'_def)
  ultimately show ?thesis
    using hit \<open>gc_state c = kNotFound\<close> by (intro exI [of _ "if gc_state (gs_context g') = kFound then st'\<lparr>as_value_file := ?n\<rparr> else st'"])
      (auto simp: same_counts_def split: hit.split)
qed

lemma sst_files_ok:
  assumes files: "\<forall>fd \<in> set (concat (ae_levels E)). file_in_version E F t fd" and t: "internal_key t"
    and ro: "\<not> ro_block_cache_tier ro" "ro_timestamp ro = None"
  shows "file_sequence (ae_picker E) p fs \<Longrightarrow> set fs \<subseteq> set (concat (ae_levels E)) \<Longrightarrow> tables_ready E F t st \<Longrightarrow>
     \<exists>nxt p'. GetNextFile (ae_picker E) p = Some (Returns (nxt, p')) \<and>
       (\<exists>st'. tables_ready E F t st' \<and> same_counts st st' \<and>
         (let found = first_value (map (\<lambda>fd. file_hit (ae_format E) t (F (fd_number fd))) fs)
          in sst_files E ro (user_key_of t) t p' nxt st = Some (Returns (found \<noteq> None, io_OK, st')) \<and>
             (\<forall>v. found = Some v \<longrightarrow> value_is st' v)))"
proof (induction p fs arbitrary: st rule: file_sequence.induct)
  case (last_file p p')
  have "sst_files E ro (user_key_of t) t p' None st = Some (Returns (False, io_OK, st))" by (subst sst_files.simps) simp
  then show ?case using last_file by (auto simp: Let_def same_counts_def)
next
  case (next_file p fd p' fs)
  let ?hit = "\<lambda>fd. file_hit (ae_format E) t (F (fd_number fd))"
  have fd: "fd \<in> set (concat (ae_levels E))" "set fs \<subseteq> set (concat (ae_levels E))" using next_file.prems(1) by simp_all
  obtain st1 where st1: "tables_ready E F t st1" "same_counts st st1"
    "case ?hit fd of
        Value v \<Rightarrow> sst_file E ro (user_key_of t) t p' fd st = Some (Returns (FileStop True io_OK st1)) \<and> value_is st1 v
      | _ \<Rightarrow> sst_file E ro (user_key_of t) t p' fd st = Some (Returns (FileNext st1))"
    using sst_file_ok [OF next_file.prems(2) fd(1) _ t ro] files fd(1) by blast
  show ?case
  proof (cases "\<exists>v. ?hit fd = Value v")
    case True
    then obtain v where v: "?hit fd = Value v" by blast
    then have "sst_files E ro (user_key_of t) t p' (Some fd) st = Some (Returns (True, io_OK, st1))"
      using st1(3) by (subst sst_files.simps) simp
    then show ?thesis using next_file.hyps(1) st1 v by (auto simp: Let_def)
  next
    case False
    then have h: "first_value (?hit fd # map ?hit fs) = first_value (map ?hit fs)" by (cases "?hit fd") auto
    have step: "sst_file E ro (user_key_of t) t p' fd st = Some (Returns (FileNext st1))"
      using st1(3) False by (auto split: hit.split_asm)
    obtain nxt q st' where q: "GetNextFile (ae_picker E) p' = Some (Returns (nxt, q))" "tables_ready E F t st'" "same_counts st1 st'"
      "sst_files E ro (user_key_of t) t q nxt st1 = Some (Returns (first_value (map ?hit fs) \<noteq> None, io_OK, st'))"
      "\<forall>v. first_value (map ?hit fs) = Some v \<longrightarrow> value_is st' v"
      using next_file.IH [OF fd(2) st1(1)] by (auto simp: Let_def)
    have "sst_files E ro (user_key_of t) t p' (Some fd) st = Some (Returns (first_value (map ?hit fs) \<noteq> None, io_OK, st'))"
      using step q(1,4) by (subst sst_files.simps) simp
    then show ?thesis using next_file.hyps(1) q st1(2) h by (auto simp: Let_def same_counts_def)
  qed
qed

text \<open>A file that is not wanted has no entry for the lookup.\<close>

lemma unwanted_miss:
  assumes "file_in_version E F t fd" "internal_key t" "file_ok fd" "\<not> wanted t fd"
  shows "file_hit (ae_format E) t (F (fd_number fd)) = Miss"
proof (cases "find (\<lambda>(k, v). \<not> CompareInternalKeys k t < 0) (file_entries (F (fd_number fd)))")
  case (Some kv)
  obtain k v where kv: "kv = (k, v)" by (cases kv)
  have "kv \<in> set (file_entries (F (fd_number fd)))" "\<not> CompareInternalKeys k t < 0"
    using Some kv nth_mem by (fastforce simp: find_Some_iff)+
  then have k: "internal_key k" "\<not> CompareInternalKeys k (fd_smallest_key fd) < 0" "\<not> CompareInternalKeys (fd_largest_key fd) k < 0"
    using assms(1) kv by (auto simp: file_in_version_def Let_def list_all_iff)
  have ok: "internal_key (fd_smallest_key fd)" "internal_key (fd_largest_key fd)" using assms(3) by (simp_all add: file_ok_def)
  have r: "user_key_of (fd_smallest_key fd) \<le> user_key_of k" "user_key_of k \<le> user_key_of (fd_largest_key fd)"
    using internal_order(2) [OF k(1) ok(1) k(2)] internal_order(2) [OF ok(2) k(1) k(3)] by simp_all
  have "\<not> CompareInternalKeys (fd_largest_key fd) t < 0"
    using \<open>\<not> CompareInternalKeys k t < 0\<close> k(3) CompareInternalKeys_sign(1) [OF k(1) assms(2)]
      CompareInternalKeys_sign(1) [OF ok(2) k(1)] CompareInternalKeys_sign(1) [OF ok(2) assms(2)]
    by (auto simp: ikey_less_def)
  then have "user_key_of k \<noteq> user_key_of t" using assms(4) r by (auto simp: wanted_def in_range_def)
  then show ?thesis using Some kv by (simp add: file_hit_def)
qed (simp add: file_hit_def)

lemma first_value_filter:
  "(\<And>x. x \<in> set xs \<Longrightarrow> \<not> P x \<Longrightarrow> h x = Miss) \<Longrightarrow> first_value (map h (filter P xs)) = first_value (map h xs)"
proof (induction xs)
  case (Cons x xs)
  then show ?case by (cases "h x") auto
qed simp

section \<open>The lookup\<close>

text \<open>What a lookup relies on: the version and its files, and device memory for the key.\<close>

definition version_ok :: "accessor_env \<Rightarrow> (nat \<Rightarrow> table_file) \<Rightarrow> bytes \<Rightarrow> bool" where
  "version_ok E F t \<longleftrightarrow>
     picker_ok (ae_picker E) t (ae_levels E) \<and> list_all (file_in_version E F t) (concat (ae_levels E)) \<and>
     ae_malloc_ok E \<and> ae_memcpy_ok E \<and> GetAndRefSuperVersion_ok E"

text \<open>The lookup key holds the user key.\<close>

definition lookup_key :: "accessor_env \<Rightarrow> u64 option \<Rightarrow> bytes \<Rightarrow> bytes \<Rightarrow> bool" where
  "lookup_key E snap u t \<longleftrightarrow>
     LookupKey_internal_key E u (case snap of Some n \<Rightarrow> n | None \<Rightarrow> GetLastPublishedSequence E) = t \<and> user_key_of t = u"

definition real_key :: "DeviceSlice \<Rightarrow> bool" where "real_key k \<longleftrightarrow> slice_size k \<noteq> 0 \<and> slice_data k \<noteq> NullPtr"

lemma GetFromSST_ok:
  assumes v: "version_ok E F t" and st: "tables_ready E F t st" and key: "lookup_key E snap u t" "real_key k"
    and ro: "\<not> ro_block_cache_tier ro" "ro_timestamp ro = None"
  shows "\<exists>st'. GetFromSST E snap ro k u st =
       Some (Returns (if first_value (level_hits E F t) = None then KEY_NOT_FOUND else SUCCESS, st')) \<and>
     tables_ready E F t st' \<and> (\<forall>v. first_value (level_hits E F t) = Some v \<longrightarrow> value_is st' v)"
proof -
  let ?hit = "\<lambda>fd. file_hit (ae_format E) t (F (fd_number fd))"
  have p: "picker_ok (ae_picker E) t (ae_levels E)" and files: "\<forall>fd \<in> set (concat (ae_levels E)). file_in_version E F t fd"
    using v by (auto simp: version_ok_def list_all_iff)
  have t: "internal_key t" "user_key_of t = u" using p key(1) by (simp_all add: picker_ok_def lookup_key_def)
  obtain fp fs where fp: "new_FilePicker (ae_picker E) u t (ae_levels E) = Returns fp" "file_sequence (ae_picker E) fp fs"
    "set fs \<subseteq> set (concat (ae_levels E))" "filter (wanted t) fs = filter (wanted t) (concat (ae_levels E))"
    using picker_complete [OF p] t(2) by auto
  let ?st = "st\<lparr>as_device_bytes := as_device_bytes st + length t, as_super_versions := as_super_versions st + 1\<rparr>"
  obtain nxt p' st' where n: "GetNextFile (ae_picker E) fp = Some (Returns (nxt, p'))" "tables_ready E F t st'"
    "sst_files E ro u t p' nxt ?st = Some (Returns (first_value (map ?hit fs) \<noteq> None, io_OK, st'))"
    "\<forall>v. first_value (map ?hit fs) = Some v \<longrightarrow> value_is st' v"
    using sst_files_ok [OF files t(1) ro fp(2,3), of ?st] st t(2) by (auto simp: Let_def)
  have miss: "?hit fd = Miss" if "fd \<in> set (concat (ae_levels E))" "\<not> wanted t fd" for fd
  proof -
    have "file_ok fd" using that(1) p by (auto simp: picker_ok_def list_all_iff)
    then show ?thesis using unwanted_miss files that t(1) by blast
  qed
  have "first_value (map ?hit fs) = first_value (map ?hit (filter (wanted t) fs))"
    using fp(3) miss by (intro first_value_filter [symmetric]) blast
  also have "\<dots> = first_value (level_hits E F t)"
    unfolding fp(4) level_hits_def by (intro first_value_filter miss)
  finally have fv: "first_value (map ?hit fs) = first_value (level_hits E F t)" .
  let ?r = "st'\<lparr>as_super_versions := as_super_versions st' - 1\<rparr>"
  have "GetFromSST E snap ro k u st = Some (Returns (if first_value (level_hits E F t) = None then KEY_NOT_FOUND else SUCCESS, ?r))"
    using v key fp(1) n(1,3) unfolding fv by (simp add: GetFromSST_def Let_def version_ok_def lookup_key_def real_key_def io_ok_def io_OK_def)
  moreover have "tables_ready E F t ?r" using n(2) by simp
  moreover have "value_is ?r v" if "first_value (level_hits E F t) = Some v" for v
    using n(4) that fv by (simp add: value_is_def)
  ultimately show ?thesis by blast
qed

lemma newest_is_first: "Tombstone \<notin> set hs \<Longrightarrow> newest_entry hs = first_value hs"
proof (induction hs)
  case (Cons h hs)
  then show ?case by (cases h) auto
qed simp

text \<open>Resources: what every lookup that returns leaves, whatever the files hold.\<close>

lemma sst_file_counts:
  assumes "sst_file E ro u t fp fd st = Some (Returns step)"
  shows "case step of FileStop _ _ st' \<Rightarrow> same_counts st st' | FileNext st' \<Rightarrow> same_counts st st'"
  using assms unfolding sst_file_def Let_def
  by (auto simp: release_handle_def same_counts_def split: if_split_asm option.split_asm elim!: bind_run_ReturnsE)

lemma sst_files_counts:
  assumes "sst_files E ro u t fp nxt st = Some r"
  shows "\<forall>b io st'. r = Returns (b, io, st') \<longrightarrow> same_counts st st'"
proof (rule sst_files.raw_induct [rotated, OF assms], goal_cases)
  case (1 rec E ro u t fp nxt st r)
  show ?case
  proof (cases nxt)
    case None
    then show ?thesis using 1(2) by (auto simp: same_counts_def)
  next
    case (Some fd)
    show ?thesis
    proof (intro allI impI)
      fix b io st' assume r: "r = Returns (b, io, st')"
      obtain step where step: "sst_file E ro u t fp fd st = Some (Returns step)"
        using 1(2) Some r by (auto split: option.split_asm outcome.split_asm)
      note counts = sst_file_counts [OF step]
      show "same_counts st st'"
      proof (cases step)
        case (FileStop b' io' st1)
        then show ?thesis using counts 1(2) Some r step by simp
      next
        case (FileNext st1)
        then obtain q where "rec E ro u t (snd q) (fst q) st1 = Some r"
          using 1(2) Some r step by (auto split: option.split_asm outcome.split_asm)
        then have "same_counts st1 st'" using 1(1) r by blast
        then show ?thesis using counts FileNext by (simp add: same_counts_def)
      qed
    qed
  qed
qed

section \<open>A version of two files\<close>

text \<open>The newer file deletes the key a; the older one has values for a and b.\<close>

definition example_fds :: "FdWithKeyRange list" where
  "example_fds =
     [\<lparr>fd_number = 1, fd_smallest_key = make_ikey [97] 2 0, fd_largest_key = make_ikey [97] 2 0\<rparr>,
      \<lparr>fd_number = 2, fd_smallest_key = make_ikey [97] 1 1, fd_largest_key = make_ikey [98] 1 1\<rparr>]"

definition example_sst_block :: "nat \<Rightarrow> entry list" where
  "example_sst_block n =
     (if n = 1 then [(0, make_ikey [97] 2 0, [])] else [(0, make_ikey [97] 1 1, [7]), (0, make_ikey [98] 1 1, [8])])"

definition example_sst_handle :: "nat \<Rightarrow> DeviceBlockHandle" where
  "example_sst_handle n = \<lparr>bh_offset = 0, bh_size = (if n = 1 then 20 else 34)\<rparr>"

definition example_sst :: "nat \<Rightarrow> table_file" where
  "example_sst n =
     \<lparr>tf_content = block_bytes (example_sst_block n) [0] @ [0, 0, 0, 0, 0], tf_options = default_GDSOptions, tf_cached = True,
      tf_trailer = 5, tf_blocks = [(example_sst_handle n, example_sst_block n, [0])]\<rparr>"

definition example_accessor :: accessor_env where
  "example_accessor =
     \<lparr>ae_format = example_format, GetLastPublishedSequence = 2, LookupKey_internal_key = (\<lambda>u s. make_ikey u s 24),
      ae_malloc_ok = True, ae_memcpy_ok = True, GetAndRefSuperVersion_ok = True, ae_levels = map (\<lambda>fd. [fd]) example_fds,
      ae_picker = example_picker_env, ae_optimize_filters_for_hits = False, ae_merge_operator = False,
      ae_prefix_extractor = None, FindTable = (\<lambda>n s l. (StOK, True)),
      ae_table_env = (\<lambda>n. example_table_env\<lparr>te_ra := example_env (tf_content (example_sst n)),
        index_seek := (\<lambda>b t. [\<lparr>iv_handle = example_sst_handle n, iv_first_ikey = []\<rparr>])\<rparr>)\<rparr>"

definition example_accessor_state :: accessor_state where
  "example_accessor_state =
     \<lparr>as_tables = (\<lambda>n. Some (example_reader\<lparr>tr_gds_file := example_file (tf_content (example_sst n))\<rparr>)),
      as_buffer = gs_buffer example_state, as_value = Some \<lparr>slice_data = NullPtr, slice_size = 0\<rparr>, as_value_file = 0, as_handles = 0,
      as_super_versions = 0, as_device_bytes = 0\<rparr>"

lemma example_keys:
  "make_ikey [97] 2 0 = [97, 0, 2, 0, 0, 0, 0, 0, 0]" "make_ikey [97] 1 1 = [97, 1, 1, 0, 0, 0, 0, 0, 0]"
  "make_ikey [98] 1 1 = [98, 1, 1, 0, 0, 0, 0, 0, 0]" "make_ikey [97] 2 24 = [97, 24, 2, 0, 0, 0, 0, 0, 0]"
  "make_ikey [98] 2 24 = [98, 24, 2, 0, 0, 0, 0, 0, 0]"
  by (simp_all add: make_ikey_def PutFixed64_def)

lemma example_comparisons:
  "\<not> CompareInternalKeys [97, 0, 2, 0, 0, 0, 0, 0, 0] [97, 0, 2, 0, 0, 0, 0, 0, 0] < 0"
  "\<not> CompareInternalKeys [97, 1, 1, 0, 0, 0, 0, 0, 0] [97, 1, 1, 0, 0, 0, 0, 0, 0] < 0"
  "\<not> CompareInternalKeys [98, 1, 1, 0, 0, 0, 0, 0, 0] [97, 1, 1, 0, 0, 0, 0, 0, 0] < 0"
  "\<not> CompareInternalKeys [98, 1, 1, 0, 0, 0, 0, 0, 0] [98, 1, 1, 0, 0, 0, 0, 0, 0] < 0"
  "CompareInternalKeys [97, 1, 1, 0, 0, 0, 0, 0, 0] [98, 1, 1, 0, 0, 0, 0, 0, 0] < 0"
  "CompareInternalKeys [97, 0, 2, 0, 0, 0, 0, 0, 0] [98, 24, 2, 0, 0, 0, 0, 0, 0] < 0"
  "CompareInternalKeys [97, 1, 1, 0, 0, 0, 0, 0, 0] [98, 24, 2, 0, 0, 0, 0, 0, 0] < 0"
  by (simp_all add: CompareInternalKeys_def kInternalKeyTail_def Let_def)

lemma example_below_target:
  "\<not> CompareInternalKeys [97, 0, 2, 0, 0, 0, 0, 0, 0] [97, 24, 2, 0, 0, 0, 0, 0, 0] < 0"
  "\<not> CompareInternalKeys [97, 1, 1, 0, 0, 0, 0, 0, 0] [97, 24, 2, 0, 0, 0, 0, 0, 0] < 0"
  "\<not> CompareInternalKeys [98, 1, 1, 0, 0, 0, 0, 0, 0] [98, 24, 2, 0, 0, 0, 0, 0, 0] < 0"
  by code_simp+

lemma example_sst_length: "length (block_bytes (example_sst_block n) [0]) = (if n = 1 then 20 else 34)"
proof -
  have "length (entries_bytes [(0, [97, 0, 2, 0, 0, 0, 0, 0, 0], [])]) = 12"
    "length (entries_bytes [(0, [97, 1, 1, 0, 0, 0, 0, 0, 0], [7]), (0, [98, 1, 1, 0, 0, 0, 0, 0, 0], [8])]) = 26"
    by code_simp+
  then show ?thesis by (simp add: block_bytes_def example_sst_block_def example_keys)
qed

lemma example_sst_wf: "wf_block (example_sst_block n) [0]"
proof -
  have "length (block_bytes (example_sst_block n) [0]) < 2 ^ 31" unfolding example_sst_length by simp
  then show ?thesis
    unfolding wf_block_def
    by (simp add: example_sst_block_def example_keys internal_key_def kInternalKeyTail_def kKeyBufferSize_def
        example_comparisons)
qed

lemma example_sst_in_file:
  "list_all (block_in_file (tf_content (example_sst n)) default_GDSOptions True 5) (tf_blocks (example_sst n))"
  using example_sst_wf [of n] example_sst_length [of n]
  by (simp add: example_sst_def example_sst_handle_def block_in_file_def one_block_def BLOCK_SIZE_def read_at_def)

lemma example_sst_plain: "list_all (plain_block example_format) (tf_blocks (example_sst n))"
  by (simp add: example_sst_def plain_block_def example_sst_block_def plain_key_def make_ikey_parts example_format_def
      DeviceIsExtendedValueType_def DeviceIsValueType_def is_deletion_def)

lemma example_sst_entries:
  "file_entries (example_sst n) =
     (if n = 1 then [(make_ikey [97] 2 0, [])] else [(make_ikey [97] 1 1, [7]), (make_ikey [98] 1 1, [8])])"
  by (simp add: file_entries_def example_sst_def block_entries_def example_sst_block_def)

lemma example_fds_in_version:
  assumes "fd \<in> set example_fds"
  shows "file_in_version example_accessor example_sst t fd"
proof -
  have "lookup_env example_format (tf_content (example_sst n)) (ae_table_env example_accessor n)" for n
    by (simp add: lookup_env_def example_format_ok example_accessor_def example_table_env_def example_env_ok plain_env_def example_get_env_def)
  moreover have "index_sound (ae_table_env example_accessor n) t (tf_blocks (example_sst n))" for n
    unfolding index_sound_def example_accessor_def example_table_env_def
    by (auto intro!: exI [of _ 0] simp: index_entry_def example_sst_def)
  moreover have "list_all (\<lambda>(k, v). internal_key k \<and> \<not> CompareInternalKeys k (fd_smallest_key fd) < 0 \<and>
      \<not> CompareInternalKeys (fd_largest_key fd) k < 0) (file_entries (example_sst (fd_number fd)))"
    using assms unfolding example_sst_entries
    by (auto simp: example_fds_def example_keys internal_key_def kInternalKeyTail_def example_comparisons)
  moreover have "tf_options (example_sst n) = default_GDSOptions" "tf_cached (example_sst n)" "tf_trailer (example_sst n) = 5" for n
    by (simp_all add: example_sst_def)
  ultimately show ?thesis
    using example_sst_in_file example_sst_plain
    by (simp add: file_in_version_def Let_def) (simp add: example_accessor_def)
qed

lemma example_version_ok:
  assumes "internal_key t"
  shows "version_ok example_accessor example_sst t"
proof -
  have "list_all file_ok example_fds"
    by (simp add: example_fds_def file_ok_def example_keys internal_key_def kInternalKeyTail_def example_comparisons)
  then have "picker_ok example_picker_env t (map (\<lambda>fd. [fd]) example_fds)"
    using assms by (simp add: picker_ok_def example_picker_env_def sorted_level_def example_fds_def) (blast dest: less_asym)
  then show ?thesis
    using example_fds_in_version [of _ t] by (simp add: version_ok_def list_all_iff) (simp add: example_accessor_def)
qed

lemma example_tables_ready: "tables_ready example_accessor example_sst t example_accessor_state"
proof -
  have "length (tf_content (example_sst n)) < 2 ^ 62" for n using example_sst_length [of n] by (simp add: example_sst_def)
  then have "ra_ready (tf_content (example_sst n)) default_GDSOptions True (example_file (tf_content (example_sst n)))" for n
    by (rule example_file_ready)
  moreover have "contains ''Bytewise'' ''leveldb.BytewiseComparator''" by code_simp
  moreover have "tf_options (example_sst n) = default_GDSOptions" "tf_cached (example_sst n)" "tf_trailer (example_sst n) = 5" for n
    by (simp_all add: example_sst_def)
  ultimately show ?thesis
    by (simp add: tables_ready_def table_ready_def Let_def list_all_iff example_accessor_state_def example_reader_def filter_sound_def
        FullFilterKeyMayMatch_def example_state_def Allocate_def iter_typed_def kKeyBufferSize_def)
qed

lemma example_hits:
  "level_hits example_accessor example_sst (make_ikey [97] 2 24) = [Tombstone, Value [7]]"
  "level_hits example_accessor example_sst (make_ikey [98] 2 24) = [Miss, Value [8]]"
proof -
  have parts: "pk_type (parsed_key [97, 0, 2, 0, 0, 0, 0, 0, 0]) = 0" "pk_type (parsed_key [97, 1, 1, 0, 0, 0, 0, 0, 0]) = 1"
    "pk_type (parsed_key [98, 1, 1, 0, 0, 0, 0, 0, 0]) = 1"
    using make_ikey_parts [of 2 "[97]" 0] make_ikey_parts [of 1 "[97]" 1] make_ikey_parts [of 1 "[98]" 1]
    unfolding example_keys by simp_all
  show "level_hits example_accessor example_sst (make_ikey [97] 2 24) = [Tombstone, Value [7]]"
    "level_hits example_accessor example_sst (make_ikey [98] 2 24) = [Miss, Value [8]]"
    by (simp_all add: level_hits_def file_hit_def example_sst_entries example_accessor_def example_fds_def example_format_def
        example_keys example_comparisons example_below_target kInternalKeyTail_def user_key_of_def parts)
qed

lemma example_lookup_key: "lookup_key example_accessor None u (make_ikey u 2 24)" "internal_key (make_ikey u 2 24)"
proof -
  show "internal_key (make_ikey u 2 24)" by (rule make_ikey_parts(1)) simp
  have "user_key_of (make_ikey u 2 24) = u" using make_ikey_parts(2) [of 2 u 24] by (simp add: parsed_key_def)
  then show "lookup_key example_accessor None u (make_ikey u 2 24)" by (simp add: lookup_key_def example_accessor_def)
qed

section \<open>Properties\<close>







text \<open>
  C33: resources of a lookup.  Whenever \<open>GetFromSST\<close> returns, whatever the files and the environment do, every table
  handle and super version it took is released; but the device copy of the lookup key is not freed, so each call that passes
  the check of its key keeps as many bytes of device memory as the internal key has.
\<close>

theorem GetFromSST_resources:
  assumes "GetFromSST E snap ro k u st = Some (Returns (res, st'))"
  shows "as_handles st' = as_handles st \<and> as_super_versions st' = as_super_versions st \<and>
     as_device_bytes st' = as_device_bytes st +
       (if real_key k
        then length (LookupKey_internal_key E u (case snap of Some n \<Rightarrow> n | None \<Rightarrow> GetLastPublishedSequence E)) else 0)"
  using assms unfolding GetFromSST_def Let_def
  by (auto simp: same_counts_def real_key_def split: if_split_asm elim!: bind_run_ReturnsE dest!: sst_files_counts)

theorem GetFromSST_resources_witness:
  "\<exists>res st'. GetFromSST (example_accessor\<lparr>GetAndRefSuperVersion_ok := False\<rparr>) None \<lparr>ro_timestamp = None, ro_block_cache_tier = False\<rparr>
       \<lparr>slice_data = DevPtr 3 0, slice_size = 1\<rparr> [97] example_accessor_state = Some (Returns (res, st')) \<and> as_device_bytes st' = 9"
proof -
  let ?E = "example_accessor\<lparr>GetAndRefSuperVersion_ok := False\<rparr>" and ?k = "\<lparr>slice_data = DevPtr 3 0, slice_size = 1\<rparr>"
  have "\<exists>st'. GetFromSST ?E None \<lparr>ro_timestamp = None, ro_block_cache_tier = False\<rparr> ?k [97] example_accessor_state = Some (Returns (ROCKSDB_ERROR, st'))"
    by (simp add: GetFromSST_def example_accessor_def)
  moreover have "length (LookupKey_internal_key ?E [97] (GetLastPublishedSequence ?E)) = 9" by (simp add: example_accessor_def make_ikey_def)
  moreover have "real_key ?k" "as_device_bytes example_accessor_state = 0" by (simp_all add: real_key_def example_accessor_state_def)
  ultimately show ?thesis using GetFromSST_resources [of ?E None _ ?k "[97]" example_accessor_state] by fastforce
qed

end
