(* ===== verification/Value_Arrays.thy ===== *)
theory Value_Arrays
  imports MLKV_Coding MLKV_Config GPU_Kernel
begin

text \<open>
  Value vectors as RocksDB stores them (\<^verbatim>\<open>src/memdisk_tree_rocksdb.cc.cu\<close>): the number of elements in eight
  bytes and the elements behind it. They are written on the host, and read on the host or by one of three kernels on
  the device.

  A vector is the list of its elements, each the bytes of one \<open>Value\<close>. The kernels store elements, so a device
  array is a list of elements too; \<open>sizeof_Value\<close> is the size of the template parameter.
\<close>

section \<open>Host\<close>

definition serialize_value_array :: "nat \<Rightarrow> bytes list \<Rightarrow> bytes" where
  "serialize_value_array dim vals = PutFixed64 (word_of_nat dim) @ concat (take dim vals)"

definition element_at :: "nat \<Rightarrow> bytes \<Rightarrow> nat \<Rightarrow> nat \<Rightarrow> bytes" where
  "element_at sizeof_Value raw offset i = read_at raw (offset + i * sizeof_Value) sizeof_Value"

definition deserialize_value_array :: "nat \<Rightarrow> bytes \<Rightarrow> bytes list outcome" where
  "deserialize_value_array sizeof_Value raw =
     (if length raw < 8 then Undefined ''read beyond raw''
      else
        let n = unat (DeviceDecodeFixed64 raw)
        in if length raw < 8 + sizeof_Value * n then Undefined ''read beyond raw''
           else Returns (map (element_at sizeof_Value raw 8) [0..<n]))"

section \<open>Kernels\<close>

definition kernel_deserialize_value_array :: "nat \<Rightarrow> bytes \<Rightarrow> nat \<Rightarrow> nat \<Rightarrow> nat \<Rightarrow> bytes store list" where
  "kernel_deserialize_value_array sizeof_Value raw offset num_elements idx =
     (if idx < num_elements then [(idx, [element_at sizeof_Value raw offset idx])] else [])"

text \<open>
  The version with shared memory: every thread of a block loads one element into the memory of the block, and behind
  the barrier writes it out. The stores of a block are those of its second phase.
\<close>

definition shared_load :: "nat \<Rightarrow> bytes \<Rightarrow> nat \<Rightarrow> nat \<Rightarrow> nat \<Rightarrow> nat \<Rightarrow> bytes store list" where
  "shared_load sizeof_Value raw offset num_elements block tid =
     (let global_idx = block * 256 + tid
      in if global_idx < num_elements then [(tid, [element_at sizeof_Value raw offset global_idx])] else [])"

definition shared_store :: "bytes list \<Rightarrow> nat \<Rightarrow> nat \<Rightarrow> nat \<Rightarrow> bytes store list" where
  "shared_store s_buffer num_elements block tid =
     (let global_idx = block * 256 + tid in if global_idx < num_elements then [(global_idx, [s_buffer ! tid])] else [])"

record deserialize_run =
  dr_order :: "nat list"
  dr_load :: "nat \<Rightarrow> nat list"
  dr_store :: "nat \<Rightarrow> nat list"
  dr_shared_mem :: "nat \<Rightarrow> bytes list"

definition kernel_deserialize_value_array_shared ::
  "deserialize_run \<Rightarrow> nat \<Rightarrow> bytes \<Rightarrow> nat \<Rightarrow> nat \<Rightarrow> nat \<Rightarrow> bytes store list" where
  "kernel_deserialize_value_array_shared run sizeof_Value raw offset num_elements block =
     (let s_buffer = launch (dr_load run block) (shared_load sizeof_Value raw offset num_elements block) 256 (dr_shared_mem run block)
      in interleave (dr_store run block) (map (shared_store s_buffer num_elements block) [0..<256]))"

definition vec_size :: "nat \<Rightarrow> nat" where "vec_size sizeof_Value = (if sizeof_Value \<ge> 8 then 2 else 4)"

definition kernel_deserialize_value_array_vectorized :: "nat \<Rightarrow> bytes \<Rightarrow> nat \<Rightarrow> nat \<Rightarrow> nat \<Rightarrow> bytes store list" where
  "kernel_deserialize_value_array_vectorized sizeof_Value raw offset num_elements idx =
     (let vec_idx = idx * vec_size sizeof_Value;
          copy = (\<lambda>i. (vec_idx + i, [element_at sizeof_Value raw offset (vec_idx + i)]))
      in if vec_idx + vec_size sizeof_Value \<le> num_elements then map copy [0..<vec_size sizeof_Value]
         else if vec_idx < num_elements then map copy [0..<num_elements - vec_idx]
         else [])"

section \<open>The device routine\<close>

text \<open>
  The slice with its bytes, and the output array (\<open>None\<close> is a null pointer). The result is the flag and the array.
\<close>

definition deserialize_kernels :: "deserialize_run \<Rightarrow> nat \<Rightarrow> bytes \<Rightarrow> nat \<Rightarrow> bytes list \<Rightarrow> bytes list" where
  "deserialize_kernels run sizeof_Value raw h_size d_output =
     (if h_size \<le> 4096
      then launch (dr_order run) (kernel_deserialize_value_array_shared run sizeof_Value raw 8 h_size)
             ((h_size + 256 - 1) div 256) d_output
      else if sizeof_Value = 4 \<or> sizeof_Value = 8
      then let num_vec_elements = (h_size + vec_size sizeof_Value - 1) div vec_size sizeof_Value
           in launch (dr_order run) (kernel_deserialize_value_array_vectorized sizeof_Value raw 8 h_size)
                ((num_vec_elements + 256 - 1) div 256 * 256) d_output
      else launch (dr_order run) (kernel_deserialize_value_array sizeof_Value raw 8 h_size)
             ((h_size + 256 - 1) div 256 * 256) d_output)"

definition device_deserialize_value_array ::
  "(string \<Rightarrow> bool) \<Rightarrow> deserialize_run \<Rightarrow> nat \<Rightarrow> DeviceSlice \<Rightarrow> bytes \<Rightarrow> bytes list option \<Rightarrow>
     (bool \<times> bytes list option) outcome" where
  "device_deserialize_value_array cuda run sizeof_Value p raw d_output =
     (if slice_size p = 0 \<or> slice_data p = NullPtr then Returns (False, d_output)
      else
        case d_output of
          None \<Rightarrow> Returns (False, None)
        | Some output \<Rightarrow>
            MLKV_CUDA_CHECK cuda ''cudaMemcpyAsync h_size''
            (if length raw < 8 then Undefined ''read beyond raw''
             else
               let h_size = DeviceDecodeFixed64 raw;
                   expected_raw_size = 8 + word_of_nat sizeof_Value * h_size
               in if h_size = 0 then Returns (False, d_output)
                  else if slice_size p < unat expected_raw_size then Returns (False, d_output)
                  else if length raw < 8 + sizeof_Value * unat h_size then Undefined ''read beyond raw''
                  else if length output < unat h_size then Undefined ''write beyond d_output''
                  else
                    let output = deserialize_kernels run sizeof_Value raw (unat h_size) output
                    in Returns (cuda ''cudaGetLastError'', Some output)))"

section \<open>The kernels copy the elements\<close>

text \<open>
  Stores that put \<open>f g\<close> into cell \<open>g\<close> and nothing else: in any order, and however often a cell is stored,
  the cells that are stored hold their values and the others are unchanged.
\<close>

lemma run_pointwise:
  assumes "\<And>w. w \<in> set ws \<Longrightarrow> \<exists>g < n. w = (g, [f g])" and "n \<le> length buf"
  shows "length (run_stores ws buf) = length buf \<and>
     (\<forall>p < length buf. run_stores ws buf ! p = (if (p, [f p]) \<in> set ws then f p else buf ! p))"
  using assms
proof (induction ws arbitrary: buf)
  case (Cons w ws)
  obtain g where g: "g < n" "w = (g, [f g])" using Cons.prems(1) [of w] by auto
  let ?b = "write_at buf g [f g]"
  have len: "length ?b = length buf" using g Cons.prems(2) by (intro length_write_at) simp
  have "length (run_stores ws ?b) = length ?b \<and>
      (\<forall>p < length ?b. run_stores ws ?b ! p = (if (p, [f p]) \<in> set ws then f p else ?b ! p))"
    using Cons.IH [of ?b] Cons.prems len by auto
  then show ?case using g len Cons.prems(2) by (auto simp: nth_write_at)
qed simp

lemma launch_pointwise:
  assumes "\<And>i w. i < N \<Longrightarrow> w \<in> set (body i) \<Longrightarrow> \<exists>g < n. w = (g, [f g])"
    and "\<And>g. g < n \<Longrightarrow> \<exists>i < N. (g, [f g]) \<in> set (body i)" and "n \<le> length buf"
  shows "launch sched body N buf = map f [0..<n] @ drop n buf"
proof -
  let ?ws = "interleave sched (map body [0..<N])"
  have ws: "set ?ws = (\<Union>i < N. set (body i))" by (auto simp: set_interleave)
  have *: "\<exists>g < n. w = (g, [f g])" if "w \<in> set ?ws" for w using that assms(1) ws by blast
  have in_ws: "(p, [f p]) \<in> set ?ws \<longleftrightarrow> p < n" for p using * [of "(p, [f p])"] assms(2) [of p] ws by fastforce
  have r: "length (run_stores ?ws buf) = length buf"
    "\<And>p. p < length buf \<Longrightarrow> run_stores ?ws buf ! p = (if p < n then f p else buf ! p)"
    using run_pointwise [of ?ws n f buf, OF * assms(3)] in_ws by auto
  show ?thesis unfolding launch_def
    by (rule nth_equalityI) (use r assms(3) in \<open>auto simp: nth_append\<close>)
qed

lemma ceiling_covers: "0 < k \<Longrightarrow> g < n \<Longrightarrow> g div k < (n + k - 1) div k" for g n k :: nat
proof -
  assume k: "0 < k" "g < n"
  have "g div k * k \<le> g" by (simp add: div_times_less_eq_dividend)
  then have "g div k * k + k \<le> n + k - 1" using k by linarith
  then have "(g div k + 1) * k \<le> n + k - 1" by simp
  then show ?thesis using k(1) by (metis Suc_eq_plus1 Suc_le_eq less_eq_div_iff_mult_less_eq)
qed

lemma shared_block_stores:
  assumes "length (dr_shared_mem run b) = 256"
  shows "w \<in> set (kernel_deserialize_value_array_shared run s raw off n b) \<longleftrightarrow>
     (\<exists>t < 256. b * 256 + t < n \<and> w = (b * 256 + t, [element_at s raw off (b * 256 + t)]))"
proof -
  let ?m = "min 256 (n - b * 256)"
  let ?s = "launch (dr_load run b) (shared_load s raw off n b) 256 (dr_shared_mem run b)"
  have s: "?s = map (\<lambda>t. element_at s raw off (b * 256 + t)) [0..<?m] @ drop ?m (dr_shared_mem run b)"
    using assms by (intro launch_pointwise) (auto simp: shared_load_def Let_def split: if_split_asm)
  have "?s ! t = element_at s raw off (b * 256 + t)" if "t < 256" "b * 256 + t < n" for t
  proof -
    have "t < n - b * 256" using that(2) by linarith
    then show ?thesis using that(1) s by (simp add: nth_append)
  qed
  then show ?thesis
    by (auto simp: kernel_deserialize_value_array_shared_def set_interleave shared_store_def Let_def split: if_split_asm)
qed

lemma deserialize_kernels_copy:
  assumes "n \<le> length out" and "\<And>b. length (dr_shared_mem run b) = 256"
  shows "deserialize_kernels run s raw n out = map (element_at s raw 8) [0..<n] @ drop n out"
proof -
  have 1: "launch (dr_order run) (kernel_deserialize_value_array_shared run s raw 8 n) ((n + 256 - 1) div 256) out =
      map (element_at s raw 8) [0..<n] @ drop n out"
  proof (rule launch_pointwise [OF _ _ assms(1)])
    fix g assume "g < n"
    moreover have "g = g div 256 * 256 + g mod 256" "g mod 256 < 256" by simp_all
    ultimately show "\<exists>b < (n + 256 - 1) div 256. (g, [element_at s raw 8 g]) \<in> set (kernel_deserialize_value_array_shared run s raw 8 n b)"
      using ceiling_covers [of 256 g n] unfolding shared_block_stores [OF assms(2)] by (metis zero_less_numeral)
  qed (auto simp: shared_block_stores [OF assms(2)])
  have 2: "launch (dr_order run) (kernel_deserialize_value_array s raw 8 n) ((n + 256 - 1) div 256 * 256) out =
      map (element_at s raw 8) [0..<n] @ drop n out"
  proof (rule launch_pointwise [OF _ _ assms(1)])
    fix g assume g: "g < n"
    then have "g < (n + 256 - 1) div 256 * 256" using ceiling_covers [of 256 g n] by (simp add: div_less_iff_less_mult)
    then show "\<exists>i < (n + 256 - 1) div 256 * 256. (g, [element_at s raw 8 g]) \<in> set (kernel_deserialize_value_array s raw 8 n i)"
      using g by (auto simp: kernel_deserialize_value_array_def)
  qed (auto simp: kernel_deserialize_value_array_def split: if_split_asm)
  have 3: "launch (dr_order run) (kernel_deserialize_value_array_vectorized s raw 8 n)
      (((n + vec_size s - 1) div vec_size s + 256 - 1) div 256 * 256) out = map (element_at s raw 8) [0..<n] @ drop n out"
  proof (rule launch_pointwise [OF _ _ assms(1)])
    fix g assume g: "g < n"
    let ?k = "vec_size s" let ?m = "(n + ?k - 1) div ?k"
    have k: "0 < ?k" by (simp add: vec_size_def)
    have "g div ?k < ?m" by (rule ceiling_covers [OF k g])
    then have i: "g div ?k < (?m + 256 - 1) div 256 * 256" using ceiling_covers [of 256 "g div ?k" ?m] by (simp add: div_less_iff_less_mult)
    define q r where "q = g div ?k" and "r = g mod ?k"
    have qr: "g = q * ?k + r" "r < ?k" using k by (simp_all add: q_def r_def)
    have "(g, [element_at s raw 8 g]) \<in> set (kernel_deserialize_value_array_vectorized s raw 8 n q)"
      using g qr unfolding kernel_deserialize_value_array_vectorized_def Let_def by auto
    then show "\<exists>i < (?m + 256 - 1) div 256 * 256. (g, [element_at s raw 8 g]) \<in> set (kernel_deserialize_value_array_vectorized s raw 8 n i)"
      using i unfolding q_def by blast
  qed (auto simp: kernel_deserialize_value_array_vectorized_def Let_def split: if_split_asm)
  show ?thesis unfolding deserialize_kernels_def Let_def 1 2 3 by simp
qed

section \<open>Reading back\<close>

lemma concat_element:
  assumes "list_all (\<lambda>e. length e = s) v" "i < length v"
  shows "read_at (concat v) (i * s) s = v ! i"
proof -
  have "length (concat (take i v)) = i * s"
    using assms by (induction v arbitrary: i) (auto simp: take_Cons' nth_Cons' algebra_simps split: if_splits)
  moreover have "length (v ! i) = s" using assms by (auto simp: list_all_length)
  ultimately show ?thesis using read_at_concat [OF assms(2)] by simp
qed

lemma length_concat_elements: "list_all (\<lambda>e. length e = s) v \<Longrightarrow> length (concat v) = s * length v"
  by (induction v) auto

lemma serialized:
  assumes "length v = dim" "list_all (\<lambda>e. length e = s) v" "dim < 2 ^ 64"
  defines "raw \<equiv> serialize_value_array dim v"
  shows "length raw = 8 + s * dim" "unat (DeviceDecodeFixed64 raw) = dim" "map (element_at s raw 8) [0..<dim] = v"
proof -
  have raw: "raw = PutFixed64 (word_of_nat dim) @ concat v" using assms(1) by (simp add: raw_def serialize_value_array_def)
  show "length raw = 8 + s * dim" unfolding raw using length_concat_elements [OF assms(2)] assms(1) by simp
  show "unat (DeviceDecodeFixed64 raw) = dim" unfolding raw using assms(3) by (simp add: unat_of_nat take_bit_nat_eq_self)
  have "element_at s raw 8 i = v ! i" if "i < dim" for i
    unfolding element_at_def raw using concat_element [OF assms(2)] that assms(1) by (simp add: read_at_def)
  then show "map (element_at s raw 8) [0..<dim] = v" using assms(1) by (auto intro: nth_equalityI)
qed

lemma host_roundtrip:
  assumes "length v = dim" "list_all (\<lambda>e. length e = s) v" "dim < 2 ^ 64"
  shows "deserialize_value_array s (serialize_value_array dim v) = Returns v"
  using serialized [OF assms] by (simp add: deserialize_value_array_def Let_def)

lemma device_matches_host:
  assumes host: "deserialize_value_array s raw = Returns v" "v \<noteq> []" and "\<forall>c. cuda c"
    and p: "slice_size p = length raw" "slice_data p \<noteq> NullPtr" and "length raw < 2 ^ 64"
    and out: "length v \<le> length out" "\<And>b. length (dr_shared_mem run b) = 256"
  shows "device_deserialize_value_array cuda run s p raw (Some out) = Returns (True, Some (v @ drop (length v) out))"
proof -
  let ?n = "unat (DeviceDecodeFixed64 raw)"
  have h: "8 \<le> length raw" "8 + s * ?n \<le> length raw" "v = map (element_at s raw 8) [0..<?n]"
    using host(1) by (auto simp: deserialize_value_array_def Let_def split: if_split_asm)
  then have len: "length v = ?n" by simp
  have "8 + s * ?n < 2 ^ 64" using h(2) assms(6) by linarith
  moreover have "8 + word_of_nat s * DeviceDecodeFixed64 raw = (word_of_nat (8 + s * ?n) :: u64)" by simp
  ultimately have "unat (8 + word_of_nat s * DeviceDecodeFixed64 raw :: u64) = 8 + s * ?n"
    by (simp only: unat_of_nat) (simp add: take_bit_nat_eq_self)
  moreover have "DeviceDecodeFixed64 raw \<noteq> 0" using len host(2) by (metis length_0_conv unat_0)
  moreover have "deserialize_kernels run s raw ?n out = v @ drop ?n out"
    using deserialize_kernels_copy [of ?n out run s raw] out len h(3) by simp
  ultimately show ?thesis
    using h(1,2) len out(1) p assms(3) by (auto simp: device_deserialize_value_array_def MLKV_CUDA_CHECK_def Let_def)
qed



end
