(* ===== verification/MemDisk_Tree.thy ===== *)
theory MemDisk_Tree
  imports GDS_DB_Accessor GWAL_Paths MLKV_Write_Batch Value_Arrays
begin

text \<open>
  The memory and disk tier of the store, \<open>MemDiskTreeRocksDB\<close> of \<^verbatim>\<open>src/memdisk_tree_rocksdb.cc.cu\<close>: single and
  batch writes and reads on RocksDB, with the log written from the GPU and the lookup in table files on the GPU
  when the configuration asks for them.

  The database object of RocksDB has any state \<open>'r\<close> with the operations of the record \<open>rocksdb\<close>; \<open>rocksdb_ok\<close>
  is what they are documented to do. A key is its bytes, a vector the list of its elements. The file of the log
  writer is a parameter as in \<open>GWAL_Writer\<close>. What the code takes from CUDA, from the allocator and from OpenMP are the
  other fields of \<open>memdisk_env\<close>: \<open>new_Key_bytes\<close> are the bytes of the pointer \<^verbatim>\<open>new Key()\<close> returns,
  \<open>thread_num\<close> the thread that runs an iteration of the parallel loop, and \<open>host_reads_device\<close> says whether
  the host may dereference a pointer to device memory.
\<close>

section \<open>Parameters and state\<close>

record WriteOptions =
  write_by_gds :: bool
  wo_disableWAL :: bool

datatype read_tier = ReadAll | SkipMemtable | MemtableOnly

record 'r rocksdb =
  DB_Open :: "string \<Rightarrow> bool \<Rightarrow> bool \<Rightarrow> Status \<times> 'r"
  DB_Put :: "WriteOptions \<Rightarrow> bytes \<Rightarrow> bytes \<Rightarrow> 'r \<Rightarrow> Status \<times> 'r"
  DB_Write :: "WriteOptions \<Rightarrow> (bytes \<times> bytes) list \<Rightarrow> 'r \<Rightarrow> Status \<times> 'r"
  DB_Get :: "read_tier \<Rightarrow> bytes \<Rightarrow> 'r \<Rightarrow> Status \<times> bytes"
  DB_MultiGet :: "read_tier \<Rightarrow> bytes list \<Rightarrow> 'r \<Rightarrow> (Status \<times> bytes) list"
  GetLatestSequenceNumber :: "'r \<Rightarrow> u64"
  GetCurrentWalFile :: "'r \<Rightarrow> Status \<times> string"

record ('r, 's) memdisk_env =
  me_rocksdb :: "'r rocksdb"
  me_cuda :: "string \<Rightarrow> bool"
  me_gpu :: gpu_env
  me_sizes_order :: "nat list"
  me_batch_order :: "nat list"
  me_malloc_sizes :: "nat \<Rightarrow> nat list option"
  me_append :: "'s append_fun"
  me_open_dest :: "string \<Rightarrow> 's outcome"
  me_gwal :: gwal_env
  me_accessor :: "'r \<Rightarrow> accessor_env"
  me_deserialize :: deserialize_run
  me_pinned :: "nat \<Rightarrow> bytes"
  sizeof_Key :: nat
  sizeof_Value :: nat
  omp_get_num_procs :: nat
  thread_num :: "nat \<Rightarrow> nat"
  new_Key_bytes :: bytes
  host_reads_device :: bool

record ('r, 's) MemDiskTreeRocksDB =
  md_config :: StorageConfig
  md_rocksdb :: "'r option"
  md_write_options :: WriteOptions
  md_gwal_writer :: "'s GWALWriter option"
  md_generator :: "GPUWriteBatchGenerator option"
  md_gds_buffers :: "GDSDataBlockIterDevicePinnedBuffer list"
  md_sst :: accessor_state

definition new_MemDiskTreeRocksDB :: "accessor_state \<Rightarrow> StorageConfig \<Rightarrow> ('r, 's) MemDiskTreeRocksDB" where
  "new_MemDiskTreeRocksDB sst config =
     \<lparr>md_config = config, md_rocksdb = None, md_write_options = \<lparr>write_by_gds = False, wo_disableWAL = False\<rparr>,
      md_gwal_writer = None, md_generator = None, md_gds_buffers = [], md_sst = sst\<rparr>"

section \<open>Initialisation\<close>

text \<open>The number of buffers is the number of processors less five; a negative one is a huge size for \<open>resize\<close>.\<close>

definition init_gds_buffers :: "('r, 's) memdisk_env \<Rightarrow> GDSDataBlockIterDevicePinnedBuffer list outcome" where
  "init_gds_buffers E =
     (if omp_get_num_procs E < 5 then Throws ''std::length_error''
      else Returns (map (\<lambda>i. fst (Allocate (me_pinned E i) [])) [0..<omp_get_num_procs E - 5]))"

definition open_gwal_writer :: "('r, 's) memdisk_env \<Rightarrow> string \<Rightarrow> string \<Rightarrow> 's GWALWriter outcome" where
  "open_gwal_writer E path db =
     new_GWALWriter (me_open_dest E) (me_gwal E) (me_cuda E ''cudaMemcpy'') (me_cuda E ''cudaDeviceSynchronize'') path db"

definition memdisk_initialize ::
  "('r, 's) memdisk_env \<Rightarrow> ('r, 's) MemDiskTreeRocksDB \<Rightarrow> (OperationResult \<times> ('r, 's) MemDiskTreeRocksDB) outcome" where
  "memdisk_initialize E m =
     (let c = md_config m;
          m = m\<lparr>md_write_options := \<lparr>write_by_gds = cfg_enable_gds_log c, wo_disableWAL = cfg_disableWAL c\<rparr>\<rparr>
      in bind_outcome (if cfg_enable_gds_get_from_sst c then init_gds_buffers E else Returns [])
           (\<lambda>buffers.
              let m = m\<lparr>md_gds_buffers := buffers\<rparr>;
                  opened = DB_Open (me_rocksdb E) (cfg_rocksdb_path c) (cfg_create_if_missing c) (cfg_enable_gds_get_from_sst c)
              in if \<not> status_ok (fst opened) then Returns (ROCKSDB_ERROR, m)
                 else
                   let m = m\<lparr>md_rocksdb := Some (snd opened)\<rparr>
                   in if \<not> cfg_enable_gds_log c then Returns (SUCCESS, m)
                      else
                        let wal = GetCurrentWalFile (me_rocksdb E) (snd opened)
                        in if \<not> status_ok (fst wal) then Throws ''Failed to get current wal file''
                           else
                             bind_outcome (open_gwal_writer E (snd wal) (cfg_rocksdb_path c))
                               (\<lambda>w. bind_outcome (new_GPUWriteBatchGenerator (me_malloc_sizes E) (cfg_max_batch_size c))
                                  (\<lambda>gen. Returns (SUCCESS, m\<lparr>md_gwal_writer := Some w, md_generator := Some gen\<rparr>)))))"

section \<open>Writing the log from the GPU\<close>

text \<open>
  The steps of \<open>put\<close> and \<open>multiset\<close> on the log: a new writer when RocksDB has moved to another log file, the
  batch, and its record. \<open>check_status\<close> says whether the status of the generator is looked at: \<open>multiset\<close>
  does, \<open>put\<close> overwrites it.
\<close>

definition current_gwal_writer ::
  "('r, 's) memdisk_env \<Rightarrow> 'r \<Rightarrow> ('r, 's) MemDiskTreeRocksDB \<Rightarrow> 's GWALWriter outcome" where
  "current_gwal_writer E r m =
     (let wal = GetCurrentWalFile (me_rocksdb E) r
      in if \<not> status_ok (fst wal) then Throws ''Failed to get current wal file''
         else
           case md_gwal_writer m of
             None \<Rightarrow> Undefined ''null gwal_writer_''
           | Some w \<Rightarrow>
               if IsWALRelativePathEqual (snd wal) w then Returns w
               else open_gwal_writer E (snd wal) (cfg_rocksdb_path (md_config m)))"

definition log_batch ::
  "('r, 's) memdisk_env \<Rightarrow> bool \<Rightarrow> 'r \<Rightarrow> bytes list \<Rightarrow> bytes list list \<Rightarrow> nat \<Rightarrow> u64 \<Rightarrow> ('r, 's) MemDiskTreeRocksDB \<Rightarrow>
     ('r, 's) MemDiskTreeRocksDB outcome" where
  "log_batch E check_status r d_keys d_values n sequence_number m =
     bind_outcome (current_gwal_writer E r m)
       (\<lambda>w. case md_generator m of
              None \<Rightarrow> Undefined ''null write_batch_generator_''
            | Some gen \<Rightarrow>
                bind_outcome (GenerateTypedWriteBatch (me_gpu E) (me_sizes_order E) (me_batch_order E) (sizeof_Key E)
                    (sizeof_Value E) (concat d_keys) (concat (concat d_values)) n (cfg_dim (md_config m)) sequence_number gen)
                  (\<lambda>(s, gen).
                     if check_status \<and> \<not> io_ok s then Throws ''Failed to generate typed write batch''
                     else
                       bind_outcome
                         (case GetWriteBatchData gen of
                            Some data \<Rightarrow>
                              if GetWriteBatchSize gen > 0 then AddRecord (me_append E) (take (GetWriteBatchSize gen) data) w
                              else Returns (io_IOError ''Generated WriteBatch is empty'', w)
                          | None \<Rightarrow> Returns (io_IOError ''Generated WriteBatch is empty'', w))
                         (\<lambda>(s, w).
                            if \<not> io_ok s then Throws ''Failed to write generated batch to WAL''
                            else Returns (m\<lparr>md_gwal_writer := Some w, md_generator := Some (gen_Clear gen)\<rparr>))))"

section \<open>Writing\<close>

text \<open>
  The variable \<open>key\<close> of \<open>put\<close> is a pointer and the slice is made of the variable: the key that is stored is the bytes
  of the pointer.
\<close>

definition memdisk_put ::
  "('r, 's) memdisk_env \<Rightarrow> bytes \<Rightarrow> bytes list \<Rightarrow> ('r, 's) MemDiskTreeRocksDB \<Rightarrow> (OperationResult \<times> ('r, 's) MemDiskTreeRocksDB) outcome" where
  "memdisk_put E d_key d_values m =
     (case md_rocksdb m of
        None \<Rightarrow> Returns (ROCKSDB_ERROR, m)
      | Some r \<Rightarrow>
          MLKV_CUDA_CHECK (me_cuda E) ''cudaMemcpy key''
          (MLKV_CUDA_CHECK (me_cuda E) ''cudaMemcpy values''
          (let key_slice = new_Key_bytes E;
               value_slice = serialize_value_array (cfg_dim (md_config m)) d_values;
               put = DB_Put (me_rocksdb E) (md_write_options m) key_slice value_slice r;
               m = m\<lparr>md_rocksdb := Some (snd put)\<rparr>
           in bind_outcome
                (if cfg_enable_gds_log (md_config m)
                 then log_batch E False (snd put) [d_key] [d_values] 1 (GetLatestSequenceNumber (me_rocksdb E) (snd put)) m
                 else Returns m)
                (\<lambda>m. Returns (if status_ok (fst put) then SUCCESS else ROCKSDB_ERROR, m)))))"

definition memdisk_multiset ::
  "('r, 's) memdisk_env \<Rightarrow> bytes list \<Rightarrow> bytes list list \<Rightarrow> nat \<Rightarrow> ('r, 's) MemDiskTreeRocksDB \<Rightarrow>
     (OperationResult \<times> ('r, 's) MemDiskTreeRocksDB) outcome" where
  "memdisk_multiset E d_keys d_values batch_size m =
     (case md_rocksdb m of
        None \<Rightarrow> Throws ''RocksDB multiset error''
      | Some r \<Rightarrow>
          if batch_size = 0 then Throws ''RocksDB multiset error''
          else if length d_keys < batch_size \<or> length d_values < batch_size then Undefined ''read beyond d_keys or d_values''
          else
            MLKV_CUDA_CHECK (me_cuda E) ''cudaMemcpy keys''
            (MLKV_CUDA_CHECK (me_cuda E) ''cudaMemcpy values''
            (let keys = take batch_size d_keys;
                 vals = take batch_size d_values;
                 batch = zip keys (map (serialize_value_array (cfg_dim (md_config m))) vals);
                 latest_sequence_number = GetLatestSequenceNumber (me_rocksdb E) r
             in bind_outcome
                  (if cfg_enable_gds_log (md_config m)
                   then log_batch E True r keys vals batch_size (latest_sequence_number + 1) m
                   else Returns m)
                  (\<lambda>m.
                     let written = DB_Write (me_rocksdb E) (md_write_options m) batch r;
                         m = m\<lparr>md_rocksdb := Some (snd written)\<rparr>
                     in if \<not> status_ok (fst written) then Throws ''Failed to write batch to RocksDB''
                        else Returns (SUCCESS, m)))))"

section \<open>Reading\<close>

text \<open>A value string is decoded and the first \<open>dim\<close> elements are copied to the output.\<close>

definition copy_decoded :: "('r, 's) memdisk_env \<Rightarrow> nat \<Rightarrow> bytes \<Rightarrow> bytes list outcome" where
  "copy_decoded E dim raw =
     bind_outcome (deserialize_value_array (sizeof_Value E) raw)
       (\<lambda>temp_values. if length temp_values < dim then Undefined ''read beyond temp_values'' else Returns (take dim temp_values))"

text \<open>
  A lookup in the table files, with the buffer of thread \<open>t\<close>, and the decoding of what it found into an output array. The
  result is the operation result of the lookup, whether the decoding succeeded, and the array.
\<close>

definition sst_get ::
  "('r, 's) memdisk_env \<Rightarrow> 'r \<Rightarrow> DeviceSlice \<Rightarrow> bytes \<Rightarrow> nat \<Rightarrow> bytes list \<Rightarrow> ('r, 's) MemDiskTreeRocksDB \<Rightarrow>
     (OperationResult \<times> bool \<times> bytes list \<times> ('r, 's) MemDiskTreeRocksDB) outcome option" where
  "sst_get E r key_slice host_key t output m =
     (if length (md_gds_buffers m) \<le> t then Some (Undefined ''gds_buffers_ out of range'')
      else
        let st = (md_sst m)\<lparr>as_buffer := Some (md_gds_buffers m ! t), as_value := Some \<lparr>slice_data = NullPtr, slice_size = 0\<rparr>\<rparr>
        in bind_run (GetFromSST (me_accessor E r) None \<lparr>ro_timestamp = None, ro_block_cache_tier = False\<rparr> key_slice host_key st)
             (\<lambda>(status, st).
                let m = m\<lparr>md_sst := st, md_gds_buffers := (md_gds_buffers m)[t := the (as_buffer st)]\<rparr>
                in if status \<noteq> SUCCESS then Some (Returns (status, False, output, m))
                   else
                     case (as_value st, as_tables st (as_value_file st)) of
                       (Some p, Some reader) \<Rightarrow>
                         bind_run
                           (Some (device_deserialize_value_array (me_cuda E) (me_deserialize E) (sizeof_Value E) p
                              (slice_bytes (tr_gds_file reader) p) (Some output)))
                           (\<lambda>(ok, out). Some (Returns (status, ok, the out, m)))
                     | _ \<Rightarrow> Some (Undefined ''no value'')))"

definition memdisk_get ::
  "('r, 's) memdisk_env \<Rightarrow> bytes \<Rightarrow> bytes list \<Rightarrow> ('r, 's) MemDiskTreeRocksDB \<Rightarrow>
     (OperationResult \<times> bytes list \<times> ('r, 's) MemDiskTreeRocksDB) outcome option" where
  "memdisk_get E d_key d_values m =
     (case md_rocksdb m of
        None \<Rightarrow> Some (Returns (ROCKSDB_ERROR, d_values, m))
      | Some r \<Rightarrow>
          let dim = cfg_dim (md_config m); cuda = me_cuda E
          in if cfg_enable_gds_get_from_sst (md_config m)
             then
               if \<not> cuda ''cudaMemcpy h_key'' then Some (Throws ''CUDA error: cudaMemcpy h_key'')
               else
                 let mem = (if cfg_force_skip_memtable (md_config m) then (StNotFound, [])
                            else DB_Get (me_rocksdb E) MemtableOnly d_key r)
                 in if status_ok (fst mem)
                    then bind_run (Some (copy_decoded E dim (snd mem)))
                           (\<lambda>v. Some (MLKV_CUDA_CHECK cuda ''cudaMemcpy d_values'' (Returns (SUCCESS, v @ drop dim d_values, m))))
                    else
                      bind_run (sst_get E r \<lparr>slice_data = DevPtr 0 0, slice_size = sizeof_Key E\<rparr> d_key (thread_num E 0) d_values m)
                        (\<lambda>(status, ok, out, m).
                           Some (Returns (if status \<noteq> SUCCESS then status else if ok then SUCCESS else ROCKSDB_ERROR, out, m)))
             else
               if \<not> cuda ''cudaMemcpy key'' then Some (Throws ''CUDA error: cudaMemcpy key'')
               else
                 let got = DB_Get (me_rocksdb E) (if cfg_force_skip_memtable (md_config m) then SkipMemtable else ReadAll) d_key r
                 in if fst got = StNotFound then Some (Returns (KEY_NOT_FOUND, d_values, m))
                    else if \<not> status_ok (fst got) then Some (Returns (ROCKSDB_ERROR, d_values, m))
                    else bind_run (Some (copy_decoded E dim (snd got)))
                           (\<lambda>v. Some (MLKV_CUDA_CHECK cuda ''cudaMemcpy d_values'' (Returns (SUCCESS, v @ drop dim d_values, m)))))"

section \<open>Reading batches\<close>

text \<open>
  The loop of \<open>multiget\<close> over the results of RocksDB: the rows are the memory the caller reserved, and rows of missing
  keys keep what the memory held.
\<close>

fun multiget_results ::
  "('r, 's) memdisk_env \<Rightarrow> nat \<Rightarrow> (Status \<times> bytes) list \<Rightarrow> nat \<Rightarrow> bytes list list \<Rightarrow> bool list \<Rightarrow> (bytes list list \<times> bool list) outcome" where
  "multiget_results E dim [] i vals found = Returns (vals, found)"
| "multiget_results E dim ((s, raw) # results) i vals found =
     (if length vals \<le> i \<or> length found \<le> i then Undefined ''access beyond the output vectors''
      else if status_ok s
      then bind_outcome (copy_decoded E dim raw) (\<lambda>v. multiget_results E dim results (i + 1) (vals[i := v]) (found[i := True]))
      else multiget_results E dim results (i + 1) vals (found[i := False]))"

definition memdisk_multiget ::
  "('r, 's) memdisk_env \<Rightarrow> bytes list \<Rightarrow> bytes list list \<Rightarrow> bool list \<Rightarrow> ('r, 's) MemDiskTreeRocksDB \<Rightarrow>
     (OperationResult \<times> bytes list list \<times> bool list) outcome" where
  "memdisk_multiget E keys vals found m =
     (case md_rocksdb m of
        None \<Rightarrow> Returns (ROCKSDB_ERROR, vals, found)
      | Some r \<Rightarrow>
          (case multiget_results E (cfg_dim (md_config m)) (DB_MultiGet (me_rocksdb E) ReadAll keys r) 0 vals found of
             Returns (vals, found) \<Rightarrow> Returns (SUCCESS, vals, found)
           | Throws e \<Rightarrow> Returns (ROCKSDB_ERROR, vals, found)
           | Exits e \<Rightarrow> Exits e
           | Undefined e \<Rightarrow> Undefined e))"

text \<open>
  \<open>multiget_gds\<close>: the loop over the results of the memtables, which collects the indices of the keys to look up in the
  files, and the loop over these. The output is one array of elements. The slice of the device key is made of the key itself:
  the host reads it from device memory and converts it to a pointer, which is null for the key 0.
\<close>

fun memtable_results ::
  "('r, 's) memdisk_env \<Rightarrow> nat \<Rightarrow> (Status \<times> bytes) list \<Rightarrow> nat \<Rightarrow> bytes list \<Rightarrow> bool list \<Rightarrow> nat list \<Rightarrow>
     (bytes list \<times> bool list \<times> nat list) outcome" where
  "memtable_results E dim [] i out found need = Returns (out, found, need)"
| "memtable_results E dim ((s, raw) # results) i out found need =
     (if length out < i * dim + dim \<or> length found \<le> i then Undefined ''access beyond the output arrays''
      else if status_ok s
      then bind_outcome (copy_decoded E dim raw)
             (\<lambda>v. MLKV_CUDA_CHECK (me_cuda E) ''cudaMemcpy d_values_out''
                (memtable_results E dim results (i + 1) (write_at out (i * dim) v) (found[i := True]) need))
      else memtable_results E dim results (i + 1) out (found[i := False]) (need @ [i]))"

definition key_as_pointer :: "bytes \<Rightarrow> dev_ptr" where
  "key_as_pointer k = (if list_all (\<lambda>b. b = 0) k then NullPtr else DevPtr 0 0)"

fun sst_gets ::
  "('r, 's) memdisk_env \<Rightarrow> 'r \<Rightarrow> nat \<Rightarrow> bytes list \<Rightarrow> nat list \<Rightarrow> nat \<Rightarrow> bytes list \<Rightarrow> bool list \<Rightarrow> ('r, 's) MemDiskTreeRocksDB \<Rightarrow>
     (OperationResult \<times> bytes list \<times> bool list \<times> ('r, 's) MemDiskTreeRocksDB) outcome option" where
  "sst_gets E r dim keys [] j out found m = Some (Returns (SUCCESS, out, found, m))"
| "sst_gets E r dim keys (i # need) j out found m =
     (if \<not> host_reads_device E then Some (Undefined ''host access to device memory'')
      else
        bind_run (sst_get E r \<lparr>slice_data = key_as_pointer (keys ! i), slice_size = sizeof_Key E\<rparr> (keys ! i) (thread_num E j)
                    (drop (i * dim) out) m)
          (\<lambda>(status, ok, rest, m).
             let out = take (i * dim) out @ rest
             in if status = KEY_NOT_FOUND then sst_gets E r dim keys need (j + 1) out (found[i := False]) m
                else if status = SUCCESS
                then if ok then sst_gets E r dim keys need (j + 1) out (found[i := True]) m
                     else Some (Returns (ROCKSDB_ERROR, out, found[i := True], m))
                else Some (Returns (status, out, found, m))))"

definition memdisk_multiget_gds ::
  "('r, 's) memdisk_env \<Rightarrow> bytes list \<Rightarrow> bytes list \<Rightarrow> bool list \<Rightarrow> nat \<Rightarrow> ('r, 's) MemDiskTreeRocksDB \<Rightarrow>
     (OperationResult \<times> bytes list \<times> bool list \<times> ('r, 's) MemDiskTreeRocksDB) outcome option" where
  "memdisk_multiget_gds E d_keys d_values_out h_found_out batch_size m =
     (case md_rocksdb m of
        None \<Rightarrow> Some (Returns (ROCKSDB_ERROR, d_values_out, h_found_out, m))
      | Some r \<Rightarrow>
          if length d_keys < batch_size then Some (Undefined ''read beyond d_keys'')
          else if \<not> me_cuda E ''cudaMemcpy h_keys'' then Some (Throws ''CUDA error: cudaMemcpy h_keys'')
          else
            let keys = take batch_size d_keys; dim = cfg_dim (md_config m)
            in bind_run
                 (Some (if cfg_force_skip_memtable (md_config m) then Returns (d_values_out, h_found_out, [])
                        else memtable_results E dim (DB_MultiGet (me_rocksdb E) MemtableOnly keys r) 0 d_values_out h_found_out []))
                 (\<lambda>(out, found, need). sst_gets E r dim keys need 0 out found m))"

definition delete_MemDiskTreeRocksDB :: "('s \<Rightarrow> 's) \<Rightarrow> ('r, 's) MemDiskTreeRocksDB \<Rightarrow> ('r, 's) MemDiskTreeRocksDB \<times> 's option" where
  "delete_MemDiskTreeRocksDB delete_dest m =
     (m\<lparr>md_rocksdb := None, md_gwal_writer := None, md_generator := None, md_gds_buffers := []\<rparr>,
      map_option (delete_GWALWriter delete_dest) (md_gwal_writer m))"

section \<open>The contract\<close>

text \<open>
  RocksDB as a map from byte strings to byte strings; \<open>contents\<close> is the map of a database state. Writes succeed, and
  reads of both the memtables and the files return what was written last.
\<close>

definition rocksdb_ok :: "'r rocksdb \<Rightarrow> ('r \<Rightarrow> bytes \<Rightarrow> bytes option) \<Rightarrow> bool" where
  "rocksdb_ok R contents \<longleftrightarrow>
     (\<forall>wo k v r. fst (DB_Put R wo k v r) = StOK \<and> contents (snd (DB_Put R wo k v r)) = (contents r)(k \<mapsto> v)) \<and>
     (\<forall>wo kvs r. fst (DB_Write R wo kvs r) = StOK \<and> contents (snd (DB_Write R wo kvs r)) = contents r ++ map_of (rev kvs)) \<and>
     (\<forall>k r. DB_Get R ReadAll k r = (case contents r k of Some v \<Rightarrow> (StOK, v) | None \<Rightarrow> (StNotFound, []))) \<and>
     (\<forall>ks r. DB_MultiGet R ReadAll ks r = map (\<lambda>k. DB_Get R ReadAll k r) ks)"

definition vector_ok :: "nat \<Rightarrow> nat \<Rightarrow> bytes list \<Rightarrow> bool" where
  "vector_ok dim s v \<longleftrightarrow> length v = dim \<and> list_all (\<lambda>e. length e = s) v"

text \<open>A tree that uses neither the log on the GPU nor the lookup on the GPU, and holds only serialised vectors.\<close>

definition stored_vectors :: "nat \<Rightarrow> nat \<Rightarrow> (bytes \<Rightarrow> bytes option) \<Rightarrow> bool" where
  "stored_vectors dim s c \<longleftrightarrow> (\<forall>k raw. c k = Some raw \<longrightarrow> (\<exists>v. vector_ok dim s v \<and> raw = serialize_value_array dim v))"

definition memdisk_ready :: "('r, 's) memdisk_env \<Rightarrow> ('r \<Rightarrow> bytes \<Rightarrow> bytes option) \<Rightarrow> ('r, 's) MemDiskTreeRocksDB \<Rightarrow> bool" where
  "memdisk_ready E contents m \<longleftrightarrow>
     rocksdb_ok (me_rocksdb E) contents \<and> (\<forall>c. me_cuda E c) \<and> cfg_dim (md_config m) < 2 ^ 64 \<and>
     \<not> cfg_enable_gds_log (md_config m) \<and> \<not> cfg_enable_gds_get_from_sst (md_config m) \<and> \<not> cfg_force_skip_memtable (md_config m) \<and>
     (\<exists>r. md_rocksdb m = Some r \<and> stored_vectors (cfg_dim (md_config m)) (sizeof_Value E) (contents r))"

definition memdisk_lookup :: "('r, 's) memdisk_env \<Rightarrow> ('r \<Rightarrow> bytes \<Rightarrow> bytes option) \<Rightarrow> ('r, 's) MemDiskTreeRocksDB \<Rightarrow> bytes \<Rightarrow> bytes list option" where
  "memdisk_lookup E contents m k =
     map_option (\<lambda>raw. case deserialize_value_array (sizeof_Value E) raw of Returns v \<Rightarrow> v | _ \<Rightarrow> []) (contents (the (md_rocksdb m)) k)"

lemma decoded_vector:
  assumes "vector_ok dim s v" "dim < 2 ^ 64"
  shows "deserialize_value_array s (serialize_value_array dim v) = Returns v"
  using assms host_roundtrip by (auto simp: vector_ok_def)

lemma copy_decoded_vector:
  assumes "vector_ok dim (sizeof_Value E) v" "dim < 2 ^ 64"
  shows "copy_decoded E dim (serialize_value_array dim v) = Returns v"
  using decoded_vector [OF assms] assms(1) by (simp add: copy_decoded_def vector_ok_def)

lemma map_of_map_snd: "map_of (map (\<lambda>(k, v). (k, f v)) kvs) k = map_option f (map_of kvs k)"
  by (induction kvs) auto

lemma stored_vectors_add:
  assumes "stored_vectors dim s c" "\<And>k v. (k, v) \<in> set kvs \<Longrightarrow> vector_ok dim s v"
  shows "stored_vectors dim s (c ++ map_of (map (\<lambda>(k, v). (k, serialize_value_array dim v)) kvs))"
  using assms(1) assms(2) [OF map_of_SomeD]
  by (fastforce simp: stored_vectors_def map_add_Some_iff map_of_map_snd)

lemma memdisk_multiset_ok:
  assumes ready: "memdisk_ready E contents m" and n: "0 < n" "n \<le> length keys" "n \<le> length vals"
    and v: "list_all (vector_ok (cfg_dim (md_config m)) (sizeof_Value E)) vals"
  shows "\<exists>m'. memdisk_multiset E keys vals n m = Returns (SUCCESS, m') \<and> memdisk_ready E contents m' \<and> md_config m' = md_config m \<and>
     memdisk_lookup E contents m' = memdisk_lookup E contents m ++ map_of (rev (zip (take n keys) (take n vals)))"
proof -
  let ?dim = "cfg_dim (md_config m)" and ?kvs = "rev (zip (take n keys) (take n vals))"
  obtain r where r: "md_rocksdb m = Some r" "stored_vectors ?dim (sizeof_Value E) (contents r)"
    using ready by (auto simp: memdisk_ready_def)
  let ?batch = "zip (take n keys) (map (serialize_value_array ?dim) (take n vals))"
  let ?w = "DB_Write (me_rocksdb E) (md_write_options m) ?batch r"
  have w: "fst ?w = StOK" "contents (snd ?w) = contents r ++ map_of (rev ?batch)"
    using ready by (simp_all add: memdisk_ready_def rocksdb_ok_def)
  have batch: "rev ?batch = map (\<lambda>(k, v). (k, serialize_value_array ?dim v)) ?kvs"
    by (simp add: zip_map2 rev_map)
  have vecs: "vector_ok ?dim (sizeof_Value E) v" if "(k, v) \<in> set ?kvs" for k v
    using that v by (auto simp: list_all_iff dest!: set_zip_rightD in_set_takeD)
  let ?m = "m\<lparr>md_rocksdb := Some (snd ?w)\<rparr>"
  have "memdisk_multiset E keys vals n m = Returns (SUCCESS, ?m)"
    using ready r(1) n w(1) by (simp add: memdisk_multiset_def memdisk_ready_def MLKV_CUDA_CHECK_def status_ok_def Let_def)
  moreover have "stored_vectors ?dim (sizeof_Value E) (contents (snd ?w))"
    unfolding w(2) batch by (rule stored_vectors_add [OF r(2)]) (rule vecs)
  then have "memdisk_ready E contents ?m" using ready by (simp add: memdisk_ready_def)
  moreover have "memdisk_lookup E contents ?m k = (memdisk_lookup E contents m ++ map_of ?kvs) k" for k
  proof -
    have dim: "?dim < 2 ^ 64" using ready by (simp add: memdisk_ready_def)
    show ?thesis
    proof (cases "map_of ?kvs k")
      case None
      then show ?thesis using r(1) w(2) unfolding batch by (simp add: memdisk_lookup_def map_add_def map_of_map_snd)
    next
      case (Some u)
      then have "vector_ok ?dim (sizeof_Value E) u" using vecs map_of_SomeD by fast
      then show ?thesis using Some w(2) decoded_vector [OF _ dim] unfolding batch
        by (simp add: memdisk_lookup_def map_add_def map_of_map_snd)
    qed
  qed
  ultimately show ?thesis by (intro exI [of _ ?m]) auto
qed

lemma stored_lookup:
  assumes ready: "memdisk_ready E contents m" and r: "md_rocksdb m = Some r" "contents r k = Some raw"
  obtains v where "vector_ok (cfg_dim (md_config m)) (sizeof_Value E) v" "memdisk_lookup E contents m k = Some v"
    "copy_decoded E (cfg_dim (md_config m)) raw = Returns v"
proof -
  obtain v where v: "vector_ok (cfg_dim (md_config m)) (sizeof_Value E) v" "raw = serialize_value_array (cfg_dim (md_config m)) v"
    using ready r unfolding memdisk_ready_def stored_vectors_def by force
  have dim: "cfg_dim (md_config m) < 2 ^ 64" using ready by (simp add: memdisk_ready_def)
  have "memdisk_lookup E contents m k = Some v"
    using decoded_vector [OF v(1) dim] r v(2) by (simp add: memdisk_lookup_def)
  then show ?thesis using that [OF v(1)] copy_decoded_vector [OF v(1) dim] v(2) by simp
qed

lemma memdisk_get_ok:
  assumes ready: "memdisk_ready E contents m"
  shows "memdisk_get E k out m =
     Some (Returns (case memdisk_lookup E contents m k of
        Some v \<Rightarrow> (SUCCESS, v @ drop (cfg_dim (md_config m)) out, m) | None \<Rightarrow> (KEY_NOT_FOUND, out, m)))"
proof -
  obtain r where r: "md_rocksdb m = Some r" using ready by (auto simp: memdisk_ready_def)
  have cfg: "\<not> cfg_enable_gds_get_from_sst (md_config m)" "\<not> cfg_force_skip_memtable (md_config m)" "\<forall>c. me_cuda E c"
    "DB_Get (me_rocksdb E) ReadAll k r = (case contents r k of Some v \<Rightarrow> (StOK, v) | None \<Rightarrow> (StNotFound, []))"
    using ready by (simp_all add: memdisk_ready_def rocksdb_ok_def)
  show ?thesis
  proof (cases "contents r k")
    case None
    then show ?thesis using r cfg by (simp add: memdisk_get_def memdisk_lookup_def)
  next
    case (Some raw)
    obtain v where "memdisk_lookup E contents m k = Some v" "copy_decoded E (cfg_dim (md_config m)) raw = Returns v"
      using stored_lookup [OF ready r Some] by blast
    then show ?thesis using r cfg Some by (simp add: memdisk_get_def status_ok_def MLKV_CUDA_CHECK_def)
  qed
qed

text \<open>A batch: found rows are replaced, the others keep what they held.\<close>

lemma multiget_results_ok:
  assumes ready: "memdisk_ready E contents m" and r: "md_rocksdb m = Some r"
  shows "i + length ks = length vals \<Longrightarrow> length found = length vals \<Longrightarrow>
     multiget_results E (cfg_dim (md_config m)) (map (\<lambda>k. DB_Get (me_rocksdb E) ReadAll k r) ks) i vals found =
     Returns (take i vals @ map (\<lambda>(k, old). case memdisk_lookup E contents m k of Some v \<Rightarrow> v | None \<Rightarrow> old) (zip ks (drop i vals)),
              take i found @ map (\<lambda>k. memdisk_lookup E contents m k \<noteq> None) ks)"
proof (induction ks arbitrary: i vals found)
  case (Cons k ks)
  have get: "DB_Get (me_rocksdb E) ReadAll k r = (case contents r k of Some v \<Rightarrow> (StOK, v) | None \<Rightarrow> (StNotFound, []))"
    using ready by (simp add: memdisk_ready_def rocksdb_ok_def)
  have i: "i < length vals" using Cons.prems by simp
  have split: "drop i vals = vals ! i # drop (Suc i) vals" using i by (simp add: Cons_nth_drop_Suc)
  show ?case
  proof (cases "contents r k")
    case None
    then have "memdisk_lookup E contents m k = None" using r by (simp add: memdisk_lookup_def)
    then show ?thesis
      using Cons.IH [of "Suc i" vals "found[i := False]"] Cons.prems get None i split
      by (simp add: status_ok_def take_Suc_conv_app_nth)
  next
    case (Some raw)
    obtain v where v: "memdisk_lookup E contents m k = Some v" "copy_decoded E (cfg_dim (md_config m)) raw = Returns v"
      using stored_lookup [OF ready r Some] by blast
    then show ?thesis
      using Cons.IH [of "Suc i" "vals[i := v]" "found[i := True]"] Cons.prems get Some i split
      by (simp add: status_ok_def take_Suc_conv_app_nth)
  qed
qed simp

lemma memdisk_multiget_ok:
  assumes ready: "memdisk_ready E contents m" and "length vals = length ks" "length found = length ks"
  shows "memdisk_multiget E ks vals found m =
     Returns (SUCCESS, map (\<lambda>(k, old). case memdisk_lookup E contents m k of Some v \<Rightarrow> v | None \<Rightarrow> old) (zip ks vals),
              map (\<lambda>k. memdisk_lookup E contents m k \<noteq> None) ks)"
proof -
  obtain r where r: "md_rocksdb m = Some r" using ready by (auto simp: memdisk_ready_def)
  have "DB_MultiGet (me_rocksdb E) ReadAll ks r = map (\<lambda>k. DB_Get (me_rocksdb E) ReadAll k r) ks"
    using ready by (simp add: memdisk_ready_def rocksdb_ok_def)
  then show ?thesis using multiget_results_ok [OF ready r, of 0 ks vals found] assms(2,3) r by (simp add: memdisk_multiget_def)
qed

end
