(* ===== verification/MLKV_DB.thy ===== *)
theory MLKV_DB
  imports GPU_Tree MemDisk_Tree
begin

text \<open>
  The store itself, class \<open>DB\<close> of \<^verbatim>\<open>src/mlkv_plus.cc.cu\<close>: a GPU tier over a memory and disk tier. Writes go to the
  GPU tier and what it evicts to the tier below; batch lookups that miss the GPU tier fetch the missing keys from
  below, insert them into the GPU tier and answer from the result buffer.

  The record \<open>db_env\<close> holds the environments of the two tiers and what is left open by the platform: the order in
  which the threads of the extraction kernel reserve their output positions, the iteration order of a hash map, and
  the contents of memory that is reserved but never initialised.
\<close>

section \<open>The extraction kernel\<close>

text \<open>
  Every thread of \<open>extract_found_keys_values_kernel\<close> with a found key takes the next position of the output by an atomic
  increment and copies its key and vector there; the others do so for the keys that were not found, if there is an
  output for them. The order of the increments is any order of the threads.
\<close>

definition extract_found_keys_values_kernel ::
  "nat list \<Rightarrow> 'k list \<Rightarrow> 'v list \<Rightarrow> bool list \<Rightarrow> nat \<Rightarrow> ('k list \<times> 'v list) \<times> 'k list" where
  "extract_found_keys_values_kernel order d_keys d_values d_found batch_size =
     (let idxs = thread_order order batch_size;
          hits = filter (\<lambda>i. d_found ! i) idxs;
          misses = filter (\<lambda>i. \<not> d_found ! i) idxs
      in ((map (\<lambda>i. d_keys ! i) hits, map (\<lambda>i. d_values ! i) hits), map (\<lambda>i. d_keys ! i) misses))"

section \<open>State\<close>

record ('t, 'r, 's) db_env =
  de_hkv :: "('t, bytes, bytes list) hkv"
  de_memdisk :: "('r, 's) memdisk_env"
  de_cuda :: "string \<Rightarrow> bool"
  de_pool_malloc :: "nat \<Rightarrow> nat \<Rightarrow> bool"
  de_flag_run :: kernel_run
  de_second_run :: kernel_run
  de_extract_order :: "nat list"
  de_hash_order :: "bytes list \<Rightarrow> bytes list"
  de_reserved :: "nat \<Rightarrow> bytes list list"
  de_uninit_found :: "nat \<Rightarrow> bool list"

record ('t, 'r, 's) DB =
  db_config :: StorageConfig
  db_gpu_tree :: "'t GPUTreeHkv option"
  db_memdisk_tree :: "('r, 's) MemDiskTreeRocksDB option"
  db_owns_cuda_stream :: bool
  db_initialized :: bool
  db_key_locations :: "bytes \<rightharpoonup> StorageLevel"

definition new_DB :: "StorageConfig \<Rightarrow> ('t, 'r, 's) DB" where
  "new_DB config =
     \<lparr>db_config = config, db_gpu_tree = None, db_memdisk_tree = None, db_owns_cuda_stream = False, db_initialized = False,
      db_key_locations = Map.empty\<rparr>"

section \<open>Initialisation and clean-up\<close>

definition db_initialize ::
  "('t, 'r, 's) db_env \<Rightarrow> accessor_state \<Rightarrow> bool \<Rightarrow> ('t, 'r, 's) DB \<Rightarrow> (OperationResult \<times> ('t, 'r, 's) DB) outcome" where
  "db_initialize E sst stream_given db =
     (if db_initialized db then Returns (SUCCESS, db)
      else
        MLKV_CUDA_CHECK (de_cuda E) ''cudaSetDeviceFlags''
        (MLKV_CUDA_CHECK (de_cuda E) ''cudaSetDevice''
        (MLKV_CUDA_CHECK (de_cuda E) ''cudaGetDeviceProperties''
        (if \<not> de_cuda E ''canMapHostMemory'' then Undefined ''assert(p.canMapHostMemory)''
         else if \<not> stream_given \<and> \<not> de_cuda E ''cudaStreamCreate'' then Returns (CUDA_ERROR, db)
         else
           let db = db\<lparr>db_owns_cuda_stream := \<not> stream_given\<rparr>
           in bind_outcome (memdisk_initialize (de_memdisk E) (new_MemDiskTreeRocksDB sst (db_config db)))
                (\<lambda>(r, m).
                   let db = db\<lparr>db_memdisk_tree := Some m\<rparr>
                   in if r \<noteq> SUCCESS then Returns (r, db)
                      else
                        MLKV_CUDA_CHECK (de_cuda E) ''cudaDeviceSynchronize''
                        (if \<not> de_cuda E ''cudaGetLastError'' then Returns (CUDA_ERROR, db)
                         else
                           bind_outcome (gpu_initialize (de_hkv E) (de_cuda E) (de_pool_malloc E) (sizeof_Key (de_memdisk E)) (new_GPUTreeHkv (db_config db)))
                             (\<lambda>(r, g).
                                let db = db\<lparr>db_gpu_tree := Some g\<rparr>
                                in if r \<noteq> SUCCESS then Returns (r, db)
                                   else
                                     MLKV_CUDA_CHECK (de_cuda E) ''cudaDeviceSynchronize gpu_tree''
                                     (if \<not> de_cuda E ''cudaGetLastError gpu_tree'' then Returns (CUDA_ERROR, db)
                                      else Returns (SUCCESS, db\<lparr>db_initialized := True\<rparr>)))))))))"

definition db_cleanup :: "('s \<Rightarrow> 's) \<Rightarrow> ('t, 'r, 's) DB \<Rightarrow> ('t, 'r, 's) DB \<times> 's option" where
  "db_cleanup delete_dest db =
     (if \<not> db_initialized db then (db, None)
      else
        let closed = (case db_memdisk_tree db of None \<Rightarrow> None | Some m \<Rightarrow> snd (delete_MemDiskTreeRocksDB delete_dest m))
        in (db\<lparr>db_gpu_tree := None, db_memdisk_tree := None, db_owns_cuda_stream := False, db_initialized := False\<rparr>, closed))"

definition delete_DB :: "('s \<Rightarrow> 's) \<Rightarrow> ('t, 'r, 's) DB \<Rightarrow> 's option" where
  "delete_DB delete_dest db = snd (db_cleanup delete_dest db)"

section \<open>Single keys\<close>

text \<open>The pairs evicted by a \<open>put\<close> go to the tier below one by one; the results of these writes are ignored.\<close>

fun put_evicted ::
  "('r, 's) memdisk_env \<Rightarrow> (bytes \<times> bytes list) list \<Rightarrow> ('r, 's) MemDiskTreeRocksDB \<Rightarrow> ('r, 's) MemDiskTreeRocksDB outcome" where
  "put_evicted E [] m = Returns m"
| "put_evicted E ((k, v) # ev) m = bind_outcome (memdisk_put E k v m) (\<lambda>(_, m). put_evicted E ev m)"

definition db_put ::
  "('t, 'r, 's) db_env \<Rightarrow> bytes \<Rightarrow> bytes list \<Rightarrow> ('t, 'r, 's) DB \<Rightarrow> (OperationResult \<times> ('t, 'r, 's) DB) outcome" where
  "db_put E key vals db =
     (if \<not> db_initialized db then Throws ''DB not initialized''
      else
        case (db_gpu_tree db, db_memdisk_tree db) of
          (Some g, Some m) \<Rightarrow>
            bind_outcome (gpu_put (de_hkv E) (de_cuda E) key vals g)
              (\<lambda>(r, ev, g).
                 if r = GPU_EVICTED \<and> length ev > 0
                 then bind_outcome (put_evicted (de_memdisk E) ev m)
                        (\<lambda>m. MLKV_CUDA_CHECK (de_cuda E) ''cudaFree evicted''
                           (Returns (SUCCESS, db\<lparr>db_gpu_tree := Some g, db_memdisk_tree := Some m\<rparr>)))
                 else Returns (SUCCESS, db\<lparr>db_gpu_tree := Some g\<rparr>))
        | _ \<Rightarrow> Undefined ''null tree'')"

definition db_get ::
  "('t, 'r, 's) db_env \<Rightarrow> bytes \<Rightarrow> bytes list \<Rightarrow> ('t, 'r, 's) DB \<Rightarrow> (OperationResult \<times> bytes list \<times> ('t, 'r, 's) DB) outcome option" where
  "db_get E d_key d_values db =
     (if \<not> db_initialized db then Some (Throws ''DB not initialized'')
      else
        case (db_gpu_tree db, db_memdisk_tree db) of
          (Some g, Some m) \<Rightarrow>
            (case gpu_get (de_hkv E) (de_cuda E) d_key d_values g of
               (r, out) \<Rightarrow>
                 if r = SUCCESS then Some (Returns (SUCCESS, out, db))
                 else
                   bind_run (memdisk_get (de_memdisk E) d_key out m)
                     (\<lambda>(r, out, m). Some (Returns (if r = SUCCESS then SUCCESS else KEY_NOT_FOUND, out, db\<lparr>db_memdisk_tree := Some m\<rparr>))))
        | _ \<Rightarrow> Some (Undefined ''null tree''))"

section \<open>Batches\<close>

definition db_multiset ::
  "('t, 'r, 's) db_env \<Rightarrow> bytes list \<Rightarrow> bytes list list \<Rightarrow> nat \<Rightarrow> ('t, 'r, 's) DB \<Rightarrow> (OperationResult \<times> ('t, 'r, 's) DB) outcome" where
  "db_multiset E d_keys d_values batch_size db =
     (if \<not> db_initialized db then Throws ''DB not initialized''
      else if batch_size = 0 then Returns (SUCCESS, db)
      else
        case (db_gpu_tree db, db_memdisk_tree db) of
          (Some g, Some m) \<Rightarrow>
            bind_outcome (gpu_multiset (de_hkv E) (de_cuda E) d_keys d_values batch_size g)
              (\<lambda>(r, ev, g).
                 let db = db\<lparr>db_gpu_tree := Some g\<rparr>
                 in if r = CUDA_ERROR then Returns (CUDA_ERROR, db)
                    else if r = GPU_EVICTED \<and> length ev > 0
                    then bind_outcome (memdisk_multiset (de_memdisk E) (map fst ev) (map snd ev) (length ev) m)
                           (\<lambda>(_, m). MLKV_CUDA_CHECK (de_cuda E) ''cudaFree evicted''
                              (Returns (SUCCESS, db\<lparr>db_memdisk_tree := Some m\<rparr>)))
                    else Returns (SUCCESS, db))
        | _ \<Rightarrow> Undefined ''null tree'')"

text \<open>
  The end of a batch lookup: the fetched keys go to the GPU tier and to the buffer, and the buffer answers for the
  whole batch. The results of these calls are not looked at.
\<close>

definition answer_from_buffer ::
  "('t, 'r, 's) db_env \<Rightarrow> bytes list \<Rightarrow> bytes list list \<Rightarrow> nat \<Rightarrow> bytes list \<Rightarrow> bytes list list \<Rightarrow> ('t, 'r, 's) DB \<Rightarrow>
     (OperationResult \<times> bytes list list \<times> bool list \<times> ('t, 'r, 's) DB) outcome" where
  "answer_from_buffer E d_keys d_values_out batch_size unfound_keys unfound_values db =
     (let n = length unfound_keys
      in bind_outcome (db_multiset E unfound_keys unfound_values n db)
           (\<lambda>(_, db).
              case db_gpu_tree db of
                None \<Rightarrow> Undefined ''null tree''
              | Some g \<Rightarrow>
                  bind_outcome (multiset_buffer (de_hkv E) (de_cuda E) unfound_keys unfound_values n g)
                    (\<lambda>(_, g). bind_outcome (multiget_buffer (de_hkv E) (de_cuda E) d_keys d_values_out batch_size g)
                       (\<lambda>(_, vals, found). MLKV_CUDA_CHECK (de_cuda E) ''cudaFree unfound''
                          (Returns (SUCCESS, vals, found, db\<lparr>db_gpu_tree := Some g\<rparr>))))))"

text \<open>The found keys of a batch lookup go to the buffer.\<close>

definition buffer_found ::
  "('t, 'r, 's) db_env \<Rightarrow> bytes list \<Rightarrow> bytes list list \<Rightarrow> 't GPUTreeHkv \<Rightarrow> 't GPUTreeHkv outcome" where
  "buffer_found E found_keys found_values g =
     (if length found_keys > 0
      then bind_outcome (multiset_buffer (de_hkv E) (de_cuda E) found_keys found_values (length found_keys) g) (\<lambda>(_, g). Returns g)
      else Returns g)"

definition rows_of :: "nat \<Rightarrow> nat \<Rightarrow> 'a list \<Rightarrow> 'a list list" where
  "rows_of dim n xs = map (\<lambda>i. read_at xs (i * dim) dim) [0..<n]"

definition db_multiget_gds ::
  "('t, 'r, 's) db_env \<Rightarrow> bytes list \<Rightarrow> bytes list list \<Rightarrow> nat \<Rightarrow> ('t, 'r, 's) DB \<Rightarrow>
     (OperationResult \<times> bytes list list \<times> bool list \<times> ('t, 'r, 's) DB) outcome option" where
  "db_multiget_gds E d_keys d_values_out batch_size db =
     (if \<not> db_initialized db \<or> batch_size = 0 then Some (Throws ''DB not initialized or invalid batch size'')
      else
        case (db_gpu_tree db, db_memdisk_tree db) of
          (Some g, Some m) \<Rightarrow>
            bind_run (Some (multiget_gpu_only (de_hkv E) (de_cuda E) (de_flag_run E) d_keys d_values_out batch_size g))
              (\<lambda>(r, vals, found, g).
                 if r = GPU_ALL_FOUND then Some (Returns (SUCCESS, vals, found, db\<lparr>db_gpu_tree := Some g\<rparr>))
                 else if \<not> de_cuda E ''cudaMalloc found'' then Some (Throws ''CUDA error: cudaMalloc found'')
                 else
                   case extract_found_keys_values_kernel (de_extract_order E) d_keys vals found batch_size of
                     ((found_keys, found_values), unfound_keys) \<Rightarrow>
                       bind_run (Some (buffer_found E found_keys found_values g))
                         (\<lambda>g.
                            let n = length unfound_keys; dim = cfg_dim (db_config db)
                            in if \<not> de_cuda E ''cudaMalloc unfound'' then Some (Throws ''CUDA error: cudaMalloc unfound'')
                               else
                                 bind_run (memdisk_multiget_gds (de_memdisk E) unfound_keys (concat (de_reserved E n)) (de_uninit_found E n) n m)
                                   (\<lambda>(_, out, _, m).
                                      Some (answer_from_buffer E d_keys vals batch_size unfound_keys (rows_of dim n out)
                                        (db\<lparr>db_gpu_tree := Some g, db_memdisk_tree := Some m\<rparr>)))))
        | _ \<Rightarrow> Some (Undefined ''null tree''))"

text \<open>
  The lookup through the host: the keys that were not found, without repetitions and in the order of a hash map, are
  fetched from the tier below into a vector whose memory is reserved and never initialised.
\<close>

definition unfound_keys_of :: "('t, 'r, 's) db_env \<Rightarrow> bytes list \<Rightarrow> bool list \<Rightarrow> bytes list" where
  "unfound_keys_of E keys found = de_hash_order E (remdups (map fst (filter (\<lambda>(k, f). \<not> f) (zip keys found))))"

text \<open>The copies of the keys and flags to the host are not checked: when one fails, the host has a vector of zeros.\<close>

definition host_keys :: "('t, 'r, 's) db_env \<Rightarrow> bytes list \<Rightarrow> bytes list" where
  "host_keys E keys =
     (if de_cuda E ''cudaMemcpy h_keys'' then keys else replicate (length keys) (replicate (sizeof_Key (de_memdisk E)) 0))"

definition host_found :: "('t, 'r, 's) db_env \<Rightarrow> bool list \<Rightarrow> bool list" where
  "host_found E found = (if de_cuda E ''cudaMemcpy h_found'' then found else replicate (length found) False)"

definition fetch_unfound ::
  "('t, 'r, 's) db_env \<Rightarrow> bytes list \<Rightarrow> ('r, 's) MemDiskTreeRocksDB \<Rightarrow> bytes list list outcome" where
  "fetch_unfound E unfound_keys m =
     bind_outcome
       (memdisk_multiget (de_memdisk E) unfound_keys (de_reserved E (length unfound_keys)) (replicate (length unfound_keys) False) m)
       (\<lambda>(_, vals, _). Returns vals)"

definition db_multiget ::
  "('t, 'r, 's) db_env \<Rightarrow> bytes list \<Rightarrow> bytes list list \<Rightarrow> nat \<Rightarrow> ('t, 'r, 's) DB \<Rightarrow>
     (OperationResult \<times> bytes list list \<times> bool list \<times> ('t, 'r, 's) DB) outcome option" where
  "db_multiget E d_keys d_values_out batch_size db =
     (if \<not> db_initialized db \<or> batch_size = 0 then Some (Throws ''DB not initialized or invalid batch size'')
      else if cfg_enable_gds_get_from_sst (db_config db) then db_multiget_gds E d_keys d_values_out batch_size db
      else
        case (db_gpu_tree db, db_memdisk_tree db) of
          (Some g, Some m) \<Rightarrow>
            Some (bind_outcome (multiget_gpu_only (de_hkv E) (de_cuda E) (de_flag_run E) d_keys d_values_out batch_size g)
              (\<lambda>(r, vals, found, g).
                 if r = GPU_ALL_FOUND then Returns (SUCCESS, vals, found, db\<lparr>db_gpu_tree := Some g\<rparr>)
                 else
                   MLKV_CUDA_CHECK (de_cuda E) ''cudaMalloc found''
                   (case extract_found_keys_values_kernel (de_extract_order E) d_keys vals found batch_size of
                      ((found_keys, found_values), _) \<Rightarrow>
                        bind_outcome (buffer_found E found_keys found_values g)
                          (\<lambda>g.
                             let unfound_keys = unfound_keys_of E (host_keys E (take batch_size d_keys)) (host_found E found)
                             in bind_outcome (fetch_unfound E unfound_keys m)
                                  (\<lambda>unfound_values.
                                     MLKV_CUDA_CHECK (de_cuda E) ''cudaMemcpy unfound''
                                     (answer_from_buffer E d_keys vals batch_size unfound_keys unfound_values
                                        (db\<lparr>db_gpu_tree := Some g\<rparr>)))))))
        | _ \<Rightarrow> Some (Undefined ''null tree''))"

section \<open>The older batch lookup\<close>

text \<open>
  \<open>old_multiget\<close> inserts the fetched keys into the GPU tier, looks the batch up there again, and fetches what is still
  missing from the tier below once more, straight into the output.
\<close>

fun copy_remaining :: "(nat \<times> bytes list \<times> bool) list \<Rightarrow> bytes list list \<times> bool list \<Rightarrow> bytes list list \<times> bool list" where
  "copy_remaining [] out = out"
| "copy_remaining ((idx, row, hit) # rest) (vals, found) =
     copy_remaining rest (if hit then (vals[idx := row], found[idx := True]) else (vals, found))"

definition fetch_remaining ::
  "('t, 'r, 's) db_env \<Rightarrow> bytes list \<Rightarrow> ('r, 's) MemDiskTreeRocksDB \<Rightarrow> nat \<Rightarrow> bytes list list \<times> bool list \<Rightarrow>
     (bytes list list \<times> bool list) outcome" where
  "fetch_remaining E keys m dim out =
     (let idxs = filter (\<lambda>i. \<not> snd out ! i) [0..<length keys];
          ks = map (\<lambda>i. keys ! i) idxs
      in if ks = [] then Returns out
         else
           bind_outcome (memdisk_multiget (de_memdisk E) ks (replicate (length ks) (replicate dim (replicate (sizeof_Value (de_memdisk E)) 0)))
                           (replicate (length ks) False) m)
             (\<lambda>(r, rows, hits). Returns (if r = SUCCESS then copy_remaining (zip idxs (zip rows hits)) out else out)))"

definition old_multiget ::
  "('t, 'r, 's) db_env \<Rightarrow> bytes list \<Rightarrow> bytes list list \<Rightarrow> nat \<Rightarrow> ('t, 'r, 's) DB \<Rightarrow>
     (OperationResult \<times> bytes list list \<times> bool list \<times> ('t, 'r, 's) DB) outcome" where
  "old_multiget E d_keys d_values_out batch_size db =
     (if \<not> db_initialized db \<or> batch_size = 0 then Throws ''DB not initialized or invalid batch size''
      else
        case (db_gpu_tree db, db_memdisk_tree db) of
          (Some g, Some m) \<Rightarrow>
            bind_outcome (gpu_multiget (de_hkv E) (de_cuda E) (de_flag_run E) d_keys d_values_out batch_size g)
              (\<lambda>(r, vals, found, g).
                 let db = db\<lparr>db_gpu_tree := Some g\<rparr>
                 in if r = GPU_ALL_FOUND then Returns (SUCCESS, vals, found, db)
                    else
                      let keys = host_keys E (take batch_size d_keys); unfound_keys = unfound_keys_of E keys found
                      in bind_outcome (fetch_unfound E unfound_keys m)
                           (\<lambda>unfound_values.
                              MLKV_CUDA_CHECK (de_cuda E) ''cudaMemcpy unfound''
                              (bind_outcome (db_multiset E unfound_keys unfound_values (length unfound_keys) db)
                                 (\<lambda>(_, db).
                                    case (db_gpu_tree db, db_memdisk_tree db) of
                                      (Some g, Some m) \<Rightarrow>
                                        bind_outcome (gpu_multiget (de_hkv E) (de_cuda E) (de_second_run E) d_keys vals batch_size g)
                                          (\<lambda>(r, vals, found, g).
                                             let db = db\<lparr>db_gpu_tree := Some g\<rparr>
                                             in if r = GPU_ALL_FOUND then Returns (SUCCESS, vals, found, db)
                                                else bind_outcome (fetch_remaining E keys m (cfg_dim (db_config db)) (vals, found))
                                                       (\<lambda>(vals, found). Returns (SUCCESS, vals, found, db)))
                                    | _ \<Rightarrow> Undefined ''null tree''))))
        | _ \<Rightarrow> Undefined ''null tree'')"

section \<open>Locations and configuration\<close>

definition update_key_location :: "bytes \<Rightarrow> StorageLevel \<Rightarrow> ('t, 'r, 's) DB \<Rightarrow> ('t, 'r, 's) DB" where
  "update_key_location key level db = db\<lparr>db_key_locations := (db_key_locations db)(key \<mapsto> level)\<rparr>"

definition find_key_location :: "bytes \<Rightarrow> ('t, 'r, 's) DB \<Rightarrow> StorageLevel" where
  "find_key_location key db = (case db_key_locations db key of Some level \<Rightarrow> level | None \<Rightarrow> DISK)"

definition get_key_location :: "bytes \<Rightarrow> ('t, 'r, 's) DB \<Rightarrow> StorageLevel" where
  "get_key_location key db = find_key_location key db"

definition update_config :: "StorageConfig \<Rightarrow> ('t, 'r, 's) DB \<Rightarrow> OperationResult \<times> ('t, 'r, 's) DB" where
  "update_config new_config db = (SUCCESS, db\<lparr>db_config := new_config\<rparr>)"

text \<open>The store has copies of the serialisation of the tier below, which it does not call.\<close>

definition db_serialize_value_array :: "('t, 'r, 's) DB \<Rightarrow> bytes list \<Rightarrow> bytes" where
  "db_serialize_value_array db vals =
     (let dim = cfg_dim (db_config db) in PutFixed64 (word_of_nat dim) @ concat (take dim vals))"

definition db_deserialize_value_array :: "nat \<Rightarrow> bytes \<Rightarrow> bytes list outcome" where
  "db_deserialize_value_array size_Value raw =
     (if length raw < 8 then Undefined ''read beyond raw''
      else
        let n = unat (DeviceDecodeFixed64 raw)
        in if length raw < 8 + size_Value * n then Undefined ''read beyond raw''
           else Returns (map (\<lambda>i. read_at raw (8 + i * size_Value) size_Value) [0..<n]))"

definition get_config :: "('t, 'r, 's) DB \<Rightarrow> StorageConfig" where "get_config db = db_config db"

section \<open>The store as a map\<close>

text \<open>
  The abstraction: a key has the vector of the GPU tier, or else the one of the tier below. \<open>db_ready\<close> is a store
  after initialisation whose tiers are usable and hold vectors of the configured size.
\<close>

definition db_lookup :: "('t, 'r, 's) db_env \<Rightarrow> ('r \<Rightarrow> bytes \<Rightarrow> bytes option) \<Rightarrow> ('t, 'r, 's) DB \<Rightarrow> bytes \<Rightarrow> bytes list option" where
  "db_lookup E contents db = memdisk_lookup (de_memdisk E) contents (the (db_memdisk_tree db)) ++ gpu_lookup (de_hkv E) (the (db_gpu_tree db))"

definition vectors_in :: "nat \<Rightarrow> nat \<Rightarrow> (bytes \<Rightarrow> bytes list option) \<Rightarrow> bool" where
  "vectors_in dim s f \<longleftrightarrow> (\<forall>k v. f k = Some v \<longrightarrow> vector_ok dim s v)"

definition db_ready :: "('t, 'r, 's) db_env \<Rightarrow> ('r \<Rightarrow> bytes \<Rightarrow> bytes option) \<Rightarrow> ('t, 'r, 's) DB \<Rightarrow> bool" where
  "db_ready E contents db \<longleftrightarrow>
     hkv_ok (de_hkv E) \<and> (\<forall>c. de_cuda E c) \<and> db_initialized db \<and> \<not> cfg_enable_gds_get_from_sst (db_config db) \<and>
     (\<exists>g m. db_gpu_tree db = Some g \<and> db_memdisk_tree db = Some m \<and> gpu_ready g \<and> memdisk_ready (de_memdisk E) contents m \<and>
        md_config m = db_config db \<and> vectors_in (cfg_dim (db_config db)) (sizeof_Value (de_memdisk E)) (gpu_lookup (de_hkv E) g))"

lemma vectors_in_add:
  assumes "vectors_in dim s f" "list_all (vector_ok dim s) vals"
  shows "vectors_in dim s (f ++ map_of (zip keys vals))"
  using assms by (auto simp: vectors_in_def map_add_Some_iff list_all_iff dest!: map_of_SomeD set_zip_rightD)

lemma vectors_in_parts:
  assumes "vectors_in dim s (map_of ev ++ f)" "distinct (map fst ev)" "\<forall>k v. (k, v) \<in> set ev \<longrightarrow> f k = None"
  shows "vectors_in dim s f" "list_all (vector_ok dim s) (map snd ev)"
proof -
  show "vectors_in dim s f" using assms(1) by (auto simp: vectors_in_def map_add_Some_iff)
  have "vector_ok dim s v" if "(k, v) \<in> set ev" for k v
  proof -
    have "map_of ev k = Some v" "f k = None" using that assms(2,3) by auto
    then have "(map_of ev ++ f) k = Some v" by (simp add: map_add_def)
    then show ?thesis using assms(1) by (simp add: vectors_in_def)
  qed
  then show "list_all (vector_ok dim s) (map snd ev)" by (auto simp: list_all_iff)
qed

lemma map_of_rev_distinct: "distinct (map fst kvs) \<Longrightarrow> map_of (rev kvs) = map_of kvs"
proof (induction kvs)
  case (Cons kv kvs)
  then have "map_of kvs (fst kv) = None" by (simp add: map_of_eq_None_iff)
  then show ?case using Cons by (cases kv) (auto simp: fun_eq_iff map_add_def split: option.split)
qed simp

lemma db_multiset_ok:
  assumes ready: "db_ready E contents db" and n: "n \<le> length keys" "n \<le> length vals" and d: "distinct (take n keys)"
    and v: "list_all (vector_ok (cfg_dim (db_config db)) (sizeof_Value (de_memdisk E))) (take n vals)"
  shows "\<exists>db'. db_multiset E keys vals n db = Returns (SUCCESS, db') \<and> db_ready E contents db' \<and> db_config db' = db_config db \<and>
     db_lookup E contents db' = db_lookup E contents db ++ map_of (zip (take n keys) (take n vals)) \<and>
     gt_buffer_table (the (db_gpu_tree db')) = gt_buffer_table (the (db_gpu_tree db))"
proof (cases "n = 0")
  case True
  then show ?thesis using ready by (auto simp: db_multiset_def db_ready_def)
next
  case False
  let ?H = "de_hkv E" and ?kvs = "zip (take n keys) (take n vals)"
  let ?vec = "vector_ok (cfg_dim (db_config db)) (sizeof_Value (de_memdisk E))"
  obtain g m where gm: "db_gpu_tree db = Some g" "db_memdisk_tree db = Some m" "gpu_ready g" "memdisk_ready (de_memdisk E) contents m"
    "md_config m = db_config db" "vectors_in (cfg_dim (db_config db)) (sizeof_Value (de_memdisk E)) (gpu_lookup ?H g)"
    using ready by (auto simp: db_ready_def)
  have H: "hkv_ok ?H" "\<forall>c. de_cuda E c" "db_initialized db" using ready by (simp_all add: db_ready_def)
  obtain ev g' where g': "gpu_multiset ?H (de_cuda E) keys vals n g = Returns (if ev = [] then SUCCESS else GPU_EVICTED, ev, g')"
    "gpu_ready g'" "distinct (map fst ev)" "map_of ev ++ gpu_lookup ?H g' = gpu_lookup ?H g ++ map_of ?kvs"
    "gt_buffer_table g' = gt_buffer_table g" "\<forall>k v. (k, v) \<in> set ev \<longrightarrow> gpu_lookup ?H g' k = None"
    using gpu_multiset_ok [OF H(1) gm(3) H(2) _ n d] False by auto
  have "vectors_in (cfg_dim (db_config db)) (sizeof_Value (de_memdisk E)) (map_of ev ++ gpu_lookup ?H g')"
    unfolding g'(4) by (rule vectors_in_add [OF gm(6) v])
  note parts = vectors_in_parts [OF this g'(3,6)]
  show ?thesis
  proof (cases "ev = []")
    case True
    then have "db_multiset E keys vals n db = Returns (SUCCESS, db\<lparr>db_gpu_tree := Some g'\<rparr>)"
      using False H gm g'(1) by (simp add: db_multiset_def)
    then show ?thesis using True gm g' H parts ready by (auto simp: db_ready_def db_lookup_def)
  next
    case ev: False
    obtain m' where m': "memdisk_multiset (de_memdisk E) (map fst ev) (map snd ev) (length ev) m = Returns (SUCCESS, m')"
      "memdisk_ready (de_memdisk E) contents m'" "md_config m' = md_config m"
      "memdisk_lookup (de_memdisk E) contents m' = memdisk_lookup (de_memdisk E) contents m ++ map_of (rev ev)"
      using memdisk_multiset_ok [OF gm(4), of "length ev" "map fst ev" "map snd ev"] parts(2) ev gm(5)
      by (auto simp: zip_map_fst_snd)
    have "db_multiset E keys vals n db = Returns (SUCCESS, db\<lparr>db_gpu_tree := Some g', db_memdisk_tree := Some m'\<rparr>)"
      using False ev H gm g'(1) m'(1) by (simp add: db_multiset_def MLKV_CUDA_CHECK_def)
    moreover have "memdisk_lookup (de_memdisk E) contents m' ++ gpu_lookup ?H g' =
        (memdisk_lookup (de_memdisk E) contents m ++ gpu_lookup ?H g) ++ map_of ?kvs"
      unfolding m'(4) map_of_rev_distinct [OF g'(3)] using g'(4) by (metis map_add_assoc)
    ultimately show ?thesis using gm g' m' H parts ready by (auto simp: db_ready_def db_lookup_def)
  qed
qed

lemma db_get_ok:
  assumes ready: "db_ready E contents db" and "length out = cfg_dim (db_config db)"
  shows "db_get E k out db =
     Some (Returns (case db_lookup E contents db k of Some v \<Rightarrow> (SUCCESS, v, db) | None \<Rightarrow> (KEY_NOT_FOUND, out, db)))"
proof -
  obtain g m where gm: "db_gpu_tree db = Some g" "db_memdisk_tree db = Some m" "gpu_ready g" "memdisk_ready (de_memdisk E) contents m"
    "md_config m = db_config db" using ready by (auto simp: db_ready_def)
  have H: "\<forall>c. de_cuda E c" "db_initialized db" using ready by (simp_all add: db_ready_def)
  have upd: "db\<lparr>db_memdisk_tree := Some m\<rparr> = db" using gm(2) by (cases db) simp
  show ?thesis
    using gm(1,2,5) H(2) upd assms(2) gpu_get_ok [OF gm(3) H(1), of "de_hkv E" k out] memdisk_get_ok [OF gm(4), of k out]
    by (auto simp: db_get_def db_lookup_def map_add_def split: option.split)
qed

section \<open>Batch lookups\<close>

lemma map_of_map_inj:
  assumes "inj_on f (insert i (set is))"
  shows "map_of (map (\<lambda>i. (f i, g i)) is) (f i) = (if i \<in> set is then Some (g i) else None)"
  using assms by (induction "is") (auto simp: inj_on_def)

text \<open>Whatever the order of the threads, the kernel pairs each found key with its vector.\<close>

lemma extract_ok:
  assumes d: "distinct (take n keys)" and n: "n \<le> length keys"
    and x: "extract_found_keys_values_kernel order keys vals found n = ((fk, fv), uk)"
  shows "length fv = length fk" "distinct fk" "set fk = {keys ! i | i. i < n \<and> found ! i}"
    "i < n \<Longrightarrow> map_of (zip fk fv) (keys ! i) = (if found ! i then Some (vals ! i) else None)"
proof -
  let ?hits = "filter (\<lambda>i. found ! i) (thread_order order n)"
  have fk: "fk = map (\<lambda>i. keys ! i) ?hits" "fv = map (\<lambda>i. vals ! i) ?hits"
    using x by (auto simp: extract_found_keys_values_kernel_def Let_def)
  have "inj_on ((!) (take n keys)) {..<n}" using d n by (intro inj_on_nth) auto
  then have inj: "inj_on ((!) keys) {..<n}" using n by (auto simp: inj_on_def)
  show "length fv = length fk" by (simp add: fk)
  have "inj_on ((!) keys) (set ?hits)" using inj by (rule inj_on_subset) (auto simp: thread_order_ok)
  then show "distinct fk" by (simp add: fk distinct_map thread_order_ok)
  show "set fk = {keys ! i | i. i < n \<and> found ! i}" by (auto simp: fk thread_order_ok)
  assume i: "i < n"
  have "zip fk fv = map (\<lambda>i. (keys ! i, vals ! i)) ?hits" by (simp add: fk zip_map_map zip_same_conv_map)
  moreover have "inj_on ((!) keys) (insert i (set ?hits))"
    using inj by (rule inj_on_subset) (use i in \<open>auto simp: thread_order_ok\<close>)
  ultimately show "map_of (zip fk fv) (keys ! i) = (if found ! i then Some (vals ! i) else None)"
    using map_of_map_inj [of "(!) keys" i ?hits "(!) vals"] i by (simp add: thread_order_ok)
qed

text \<open>The iteration order of the hash map is a permutation of its keys, and reserved memory has the size asked for.\<close>

definition host_ok :: "('t, 'r, 's) db_env \<Rightarrow> nat \<Rightarrow> bool" where
  "host_ok E dim \<longleftrightarrow>
     (\<forall>ks. distinct ks \<longrightarrow> distinct (de_hash_order E ks) \<and> set (de_hash_order E ks) = set ks) \<and>
     (\<forall>n. length (de_reserved E n) = n \<and> list_all (vector_ok dim (sizeof_Value (de_memdisk E))) (de_reserved E n))"

lemma unfound_keys_ok:
  assumes "host_ok E dim" and "length found = length keys"
  shows "distinct (unfound_keys_of E keys found)" "set (unfound_keys_of E keys found) = {keys ! i | i. i < length keys \<and> \<not> found ! i}"
  using assms by (auto simp: host_ok_def unfound_keys_of_def set_zip image_iff) blast

text \<open>What the tier below gives for the keys that were not found: their vectors, or what the reserved memory held.\<close>

definition fetched_rows :: "('t, 'r, 's) db_env \<Rightarrow> ('r \<Rightarrow> bytes \<Rightarrow> bytes option) \<Rightarrow> bytes list \<Rightarrow> ('r, 's) MemDiskTreeRocksDB \<Rightarrow> bytes list list" where
  "fetched_rows E contents ks m =
     map (\<lambda>(k, old). case memdisk_lookup (de_memdisk E) contents m k of Some v \<Rightarrow> v | None \<Rightarrow> old) (zip ks (de_reserved E (length ks)))"

lemma memdisk_lookup_vector:
  assumes "memdisk_ready E contents m" "memdisk_lookup E contents m k = Some v"
  shows "vector_ok (cfg_dim (md_config m)) (sizeof_Value E) v"
proof -
  obtain r where r: "md_rocksdb m = Some r" using assms(1) by (auto simp: memdisk_ready_def)
  then obtain raw where "contents r k = Some raw" using assms(2) by (auto simp: memdisk_lookup_def)
  from stored_lookup [OF assms(1) r this] assms(2) show ?thesis by auto
qed

lemma fetch_unfound_ok:
  assumes "memdisk_ready (de_memdisk E) contents m" "host_ok E (cfg_dim (md_config m))"
  shows "fetch_unfound E ks m = Returns (fetched_rows E contents ks m)" "length (fetched_rows E contents ks m) = length ks"
    "list_all (vector_ok (cfg_dim (md_config m)) (sizeof_Value (de_memdisk E))) (fetched_rows E contents ks m)"
proof -
  have len: "length (de_reserved E n) = n" for n using assms(2) by (simp add: host_ok_def)
  show "fetch_unfound E ks m = Returns (fetched_rows E contents ks m)"
    using memdisk_multiget_ok [OF assms(1), of "de_reserved E (length ks)" ks "replicate (length ks) False"] len
    by (simp add: fetch_unfound_def fetched_rows_def)
  show "length (fetched_rows E contents ks m) = length ks" by (simp add: fetched_rows_def len)
  have "list_all (vector_ok (cfg_dim (md_config m)) (sizeof_Value (de_memdisk E))) (de_reserved E (length ks))"
    using assms(2) by (simp add: host_ok_def)
  then show "list_all (vector_ok (cfg_dim (md_config m)) (sizeof_Value (de_memdisk E))) (fetched_rows E contents ks m)"
    using memdisk_lookup_vector [OF assms(1)]
    by (auto simp: fetched_rows_def list_all_iff split: option.split dest!: set_zip_rightD)
qed

lemma fetched_row:
  assumes "length (de_reserved E (length ks)) = length ks" "k \<in> set ks" "distinct ks"
  shows "\<exists>j < length ks. ks ! j = k \<and> map_of (zip ks (fetched_rows E contents ks m)) k =
     Some (case memdisk_lookup (de_memdisk E) contents m k of Some v \<Rightarrow> v | None \<Rightarrow> de_reserved E (length ks) ! j)"
proof -
  obtain j where j: "j < length ks" "ks ! j = k" using assms(2) by (auto simp: in_set_conv_nth)
  then have "map_of (zip ks (fetched_rows E contents ks m)) k = Some (fetched_rows E contents ks m ! j)"
    using map_of_zip_nth [of ks "fetched_rows E contents ks m" j] assms by (simp add: fetched_rows_def)
  then show ?thesis using j assms(1) by (auto simp: fetched_rows_def)
qed

text \<open>A change of the result buffer alone does not touch the store.\<close>

lemma with_buffer:
  assumes "db_ready E contents db" "db_gpu_tree db = Some g"
  shows "db_ready E contents (db\<lparr>db_gpu_tree := Some (g\<lparr>gt_buffer_table := Some t\<rparr>)\<rparr>)"
    "db_lookup E contents (db\<lparr>db_gpu_tree := Some (g\<lparr>gt_buffer_table := Some t\<rparr>)\<rparr>) = db_lookup E contents db"
  using assms by (auto simp: db_ready_def db_lookup_def gpu_ready_def gpu_lookup_def)

lemma buffer_found_ok:
  assumes "gpu_ready g" "\<forall>c. de_cuda E c" "length fv = length fk"
  shows "buffer_found E fk fv g =
     Returns (g\<lparr>gt_buffer_table := Some (if fk = [] then the (gt_buffer_table g)
        else insert_or_assign (de_hkv E) (the (gt_buffer_table g)) (zip fk fv))\<rparr>)"
proof -
  obtain t where "gt_buffer_table g = Some t" using assms(1) by (auto simp: gpu_ready_def)
  then have "g\<lparr>gt_buffer_table := Some t\<rparr> = g" by (cases g) simp
  then show ?thesis
    using multiset_buffer_ok [OF assms(1,2), of "length fk" fk fv] assms(3) \<open>gt_buffer_table g = Some t\<close>
    by (auto simp: buffer_found_def)
qed

lemma answer_from_buffer_ok:
  assumes ready: "db_ready E contents db" and n: "n \<le> length keys" "n \<le> length out"
    and u: "distinct uk" "length uv = length uk" "list_all (vector_ok (cfg_dim (db_config db)) (sizeof_Value (de_memdisk E))) uv"
  defines "r \<equiv> find_batch (de_hkv E) (insert_or_assign (de_hkv E) (the (gt_buffer_table (the (db_gpu_tree db)))) (zip uk uv)) (take n keys) out"
  shows "\<exists>db'. answer_from_buffer E keys out n uk uv db = Returns (SUCCESS, fst r, snd r, db') \<and> db_ready E contents db' \<and>
     db_config db' = db_config db \<and> db_lookup E contents db' = db_lookup E contents db ++ map_of (zip uk uv)"
proof -
  obtain db' where db': "db_multiset E uk uv (length uk) db = Returns (SUCCESS, db')" "db_ready E contents db'"
    "db_config db' = db_config db" "db_lookup E contents db' = db_lookup E contents db ++ map_of (zip uk uv)"
    "gt_buffer_table (the (db_gpu_tree db')) = gt_buffer_table (the (db_gpu_tree db))"
    using db_multiset_ok [OF ready, of "length uk" uk uv] u by auto
  obtain g where g: "db_gpu_tree db' = Some g" "gpu_ready g" using db'(2) by (auto simp: db_ready_def)
  have cuda: "\<forall>c. de_cuda E c" using ready by (simp add: db_ready_def)
  let ?t = "insert_or_assign (de_hkv E) (the (gt_buffer_table g)) (zip uk uv)"
  let ?g = "g\<lparr>gt_buffer_table := Some ?t\<rparr>"
  have "multiset_buffer (de_hkv E) (de_cuda E) uk uv (length uk) g = Returns (SUCCESS, ?g)"
    using multiset_buffer_ok [OF g(2) cuda, of "length uk" uk uv] u(2) by simp
  moreover have "gpu_ready ?g" using g(2) by (simp add: gpu_ready_def)
  then have "multiget_buffer (de_hkv E) (de_cuda E) keys out n ?g = Returns (SUCCESS, fst r, snd r)"
    using multiget_buffer_ok [OF _ cuda n, of ?g] db'(5) g(1) by (simp add: r_def Let_def)
  ultimately have "answer_from_buffer E keys out n uk uv db = Returns (SUCCESS, fst r, snd r, db'\<lparr>db_gpu_tree := Some ?g\<rparr>)"
    using db'(1) g(1) cuda by (simp add: answer_from_buffer_def MLKV_CUDA_CHECK_def split: prod.split)
  then show ?thesis using with_buffer [OF db'(2) g(1), of ?t] db' by auto
qed

text \<open>The two parts of a batch: each key is in exactly one, with the vector of the store or with reserved memory.\<close>

lemma batch_parts:
  assumes host: "host_ok E dim" and d: "distinct (take n keys)" and n: "n \<le> length keys"
    and found: "found = map (\<lambda>k. gpu k \<noteq> None) (take n keys)" and vals: "\<forall>i v. i < n \<longrightarrow> gpu (keys ! i) = Some v \<longrightarrow> vals ! i = v"
    and x: "extract_found_keys_values_kernel order keys vals found n = ((fk, fv), uk0)"
    and uk: "uk = unfound_keys_of E (take n keys) found" and uv: "uv = fetched_rows E contents uk m"
  shows "distinct (fk @ uk)" "length fk + length uk \<le> n" "length fv = length fk" "length uv = length uk" "set uk \<subseteq> set (take n keys)"
    "i < n \<Longrightarrow> gpu (keys ! i) = Some v \<Longrightarrow> map_of (zip fk fv) (keys ! i) = Some v \<and> keys ! i \<notin> set uk"
    "i < n \<Longrightarrow> gpu (keys ! i) = None \<Longrightarrow> \<exists>j < length uk. map_of (zip uk uv) (keys ! i) =
       Some (case memdisk_lookup (de_memdisk E) contents m (keys ! i) of Some v \<Rightarrow> v | None \<Rightarrow> de_reserved E (length uk) ! j)"
    "i < n \<Longrightarrow> gpu (keys ! i) = None \<Longrightarrow> map_of (zip fk fv) (keys ! i) = None"
proof -
  note ex = extract_ok [OF d n x]
  have fl: "found ! i \<longleftrightarrow> gpu (keys ! i) \<noteq> None" if "i < n" for i using that n found by simp
  have "length found = length (take n keys)" using found by simp
  note un = unfound_keys_ok [OF host this, folded uk]
  have fks: "set fk = {k \<in> set (take n keys). gpu k \<noteq> None}" using n fl by (auto simp: ex(3) in_set_conv_nth)
  have uks: "set uk = {k \<in> set (take n keys). gpu k = None}" using n fl by (auto simp: un(2) in_set_conv_nth)
  show dist: "distinct (fk @ uk)" using ex(2) un(1) fks uks by auto
  have "set (fk @ uk) \<subseteq> set (take n keys)" using fks uks by auto
  then have "card (set (fk @ uk)) \<le> card (set (take n keys))" by (rule card_mono [OF finite_set])
  also have "\<dots> \<le> n" using card_length [of "take n keys"] n by simp
  finally show "length fk + length uk \<le> n" using distinct_card [OF dist] by simp
  have len: "length (de_reserved E (length uk)) = length uk" using host by (simp add: host_ok_def)
  show "length fv = length fk" by (rule ex(1))
  show "length uv = length uk" using len by (simp add: uv fetched_rows_def)
  show "set uk \<subseteq> set (take n keys)" using uks by auto
  show "map_of (zip fk fv) (keys ! i) = Some v \<and> keys ! i \<notin> set uk" if "i < n" "gpu (keys ! i) = Some v"
    using ex(4) [OF that(1)] fl [OF that(1)] vals that uks by simp
  show "map_of (zip fk fv) (keys ! i) = None" if "i < n" "gpu (keys ! i) = None"
    using ex(4) [OF that(1)] fl [OF that(1)] that(2) by simp
  show "\<exists>j < length uk. map_of (zip uk uv) (keys ! i) =
       Some (case memdisk_lookup (de_memdisk E) contents m (keys ! i) of Some v \<Rightarrow> v | None \<Rightarrow> de_reserved E (length uk) ! j)"
    if "i < n" "gpu (keys ! i) = None"
  proof -
    have "keys ! i \<in> set uk" using that n uks by (auto simp: in_set_conv_nth)
    then show ?thesis using fetched_row [OF len _ un(1)] unfolding uv by blast
  qed
qed

lemma buffer_keepsD:
  assumes "buffer_keeps H n" "distinct (map fst (kvs @ kvs'))" "length (kvs @ kvs') \<le> n" "map_of (kvs @ kvs') k = Some v"
  shows "hkv_find H (insert_or_assign H (if kvs = [] then t else insert_or_assign H t kvs) kvs') k = Some v"
  using assms unfolding buffer_keeps_def by (cases "kvs = []") (auto simp del: map_of_append)

lemma map_of_zip_nth_distinct:
  assumes "distinct (take n keys)" "n \<le> length keys" "n \<le> length vals" "i < n"
  shows "map_of (zip (take n keys) (take n vals)) (keys ! i) = Some (vals ! i)"
  using map_of_zip_nth [of "take n keys" "take n vals" i] assms by simp

text \<open>
  The flags and the lookup that follow from one value per key: the buffer answers for every key, and the store has
  what the batch returned.
\<close>

definition answered :: "('t, 'r, 's) db_env \<Rightarrow> (bytes \<Rightarrow> bytes list option) \<Rightarrow> bytes \<Rightarrow> bytes list \<Rightarrow> bool" where
  "answered E lookup k v \<longleftrightarrow> (case lookup k of Some w \<Rightarrow> v = w | None \<Rightarrow> \<exists>m j. j < m \<and> v = de_reserved E m ! j)"

lemma batch_answer:
  assumes host: "host_ok E dim" and d: "distinct (take n keys)" and n: "n \<le> length keys" and keeps: "buffer_keeps H n"
    and found: "found = map (\<lambda>k. gpu k \<noteq> None) (take n keys)" and vals: "\<forall>i v. i < n \<longrightarrow> gpu (keys ! i) = Some v \<longrightarrow> vals ! i = v"
    and x: "extract_found_keys_values_kernel order keys vals found n = ((fk, fv), uk0)"
    and uk: "uk = unfound_keys_of E (take n keys) found" and uv: "uv = fetched_rows E contents uk m"
    and t: "t = (if fk = [] then t0 else insert_or_assign H t0 (zip fk fv))" and i: "i < n"
    and L: "L = memdisk_lookup (de_memdisk E) contents m ++ gpu"
  shows "\<exists>w. hkv_find H (insert_or_assign H t (zip uk uv)) (keys ! i) = Some w \<and> answered E L (keys ! i) w \<and>
     (L ++ map_of (zip uk uv)) (keys ! i) = Some w"
proof -
  note bp = batch_parts [OF host d n found vals x uk uv]
  have kv: "hkv_find H (insert_or_assign H t (zip uk uv)) k = Some v" if "map_of (zip fk fv @ zip uk uv) k = Some v" for k v
  proof -
    have "distinct (map fst (zip fk fv @ zip uk uv))" "length (zip fk fv @ zip uk uv) \<le> n" "zip fk fv = [] \<longleftrightarrow> fk = []"
      using bp(1-4) by auto
    from buffer_keepsD [OF keeps this(1,2) that, of t0] this(3) show ?thesis by (simp add: t)
  qed
  show ?thesis
  proof (cases "gpu (keys ! i)")
    case None
    obtain j where j: "j < length uk" "map_of (zip uk uv) (keys ! i) =
        Some (case memdisk_lookup (de_memdisk E) contents m (keys ! i) of Some v \<Rightarrow> v | None \<Rightarrow> de_reserved E (length uk) ! j)"
      using bp(7) [OF i None] by blast
    then show ?thesis
      using kv [of "keys ! i"] bp(8) [OF i None] None L
      by (auto simp: answered_def map_add_def split: option.split)
  next
    case (Some v)
    then have "map_of (zip fk fv) (keys ! i) = Some v" "map_of (zip uk uv) (keys ! i) = None"
      using bp(6) [OF i Some] bp(4) by (auto simp: map_of_zip_is_None)
    then show ?thesis using kv [of "keys ! i" v] Some L by (simp add: answered_def map_add_def)
  qed
qed

lemma lookup_after_batch:
  assumes d: "distinct (take n keys)" and n: "n \<le> length keys" "n \<le> length vals"
    and each: "\<And>i. i < n \<Longrightarrow> L' (keys ! i) = Some (vals ! i)"
    and L': "L' = L ++ map_of (zip uk uv)" and uk: "length uv = length uk" "set uk \<subseteq> set (take n keys)"
  shows "L' = L ++ map_of (zip (take n keys) (take n vals))"
proof
  fix k
  show "L' k = (L ++ map_of (zip (take n keys) (take n vals))) k"
  proof (cases "k \<in> set (take n keys)")
    case True
    then obtain i where i: "i < n" "k = keys ! i" using n by (auto simp: in_set_conv_nth)
    then show ?thesis using each [OF i(1)] map_of_zip_nth_distinct [OF d n i(1)] by (simp add: map_add_def)
  next
    case False
    then have "map_of (zip uk uv) k = None" "map_of (zip (take n keys) (take n vals)) k = None"
      using uk n by (auto simp: map_of_zip_is_None)
    then show ?thesis using L' by (simp add: map_add_def)
  qed
qed

lemma db_multiget_slow:
  assumes ready: "db_ready E contents db" and keeps: "buffer_keeps (de_hkv E) n" and host: "host_ok E (cfg_dim (db_config db))"
    and n: "0 < n" "n \<le> length keys" "n \<le> length out" and d: "distinct (take n keys)"
    and slow: "check_all_true_kernel (de_flag_run E) (map (\<lambda>k. gpu_lookup (de_hkv E) (the (db_gpu_tree db)) k \<noteq> None) (take n keys)) n \<noteq> 1"
  shows "\<exists>vals db'. db_multiget E keys out n db = Some (Returns (SUCCESS, vals, replicate n True, db')) \<and>
     db_ready E contents db' \<and> db_config db' = db_config db \<and> length vals = length out \<and>
     (\<forall>i < n. answered E (db_lookup E contents db) (keys ! i) (vals ! i)) \<and>
     db_lookup E contents db' = db_lookup E contents db ++ map_of (zip (take n keys) (take n vals))"
proof -
  let ?H = "de_hkv E" and ?L = "db_lookup E contents db"
  obtain g m where gm: "db_gpu_tree db = Some g" "db_memdisk_tree db = Some m" "gpu_ready g" "memdisk_ready (de_memdisk E) contents m"
    "md_config m = db_config db" using ready by (auto simp: db_ready_def)
  have H: "\<forall>c. de_cuda E c" "db_initialized db" "\<not> cfg_enable_gds_get_from_sst (db_config db)" using ready by (simp_all add: db_ready_def)
  define found where "found = map (\<lambda>k. gpu_lookup ?H g k \<noteq> None) (take n keys)"
  define vals where "vals = fst (find_batch ?H (the (gt_table g)) (take n keys) out)"
  have fnd: "snd (find_batch ?H (the (gt_table g)) (take n keys) out) = found" by (simp add: find_batch_def found_def gpu_lookup_def)
  have vals: "\<forall>i v. i < n \<longrightarrow> gpu_lookup ?H g (keys ! i) = Some v \<longrightarrow> vals ! i = v"
    using find_batch_nth(2) [of _ "take n keys" out ?H "the (gt_table g)"] n by (simp add: vals_def gpu_lookup_def)
  have lv: "length vals = length out" using n by (simp add: vals_def find_batch_def)
  obtain fk fv uk0 where x: "extract_found_keys_values_kernel (de_extract_order E) keys vals found n = ((fk, fv), uk0)"
    by (metis surj_pair)
  define uk where "uk = unfound_keys_of E (take n keys) found"
  define uv where "uv = fetched_rows E contents uk m"
  note bp = batch_parts [OF host d n(2) found_def vals x uk_def uv_def]
  define t where "t = (if fk = [] then the (gt_buffer_table g) else insert_or_assign ?H (the (gt_buffer_table g)) (zip fk fv))"
  let ?db = "db\<lparr>db_gpu_tree := Some (g\<lparr>gt_buffer_table := Some t\<rparr>)\<rparr>"
  have uvok: "fetch_unfound E uk m = Returns uv" "list_all (vector_ok (cfg_dim (db_config db)) (sizeof_Value (de_memdisk E))) uv"
    using fetch_unfound_ok [OF gm(4), of uk] host gm(5) by (simp_all add: uv_def)
  have gpu: "multiget_gpu_only ?H (de_cuda E) (de_flag_run E) keys out n g = Returns (SUCCESS, vals, found, g)"
    using multiget_gpu_only_ok [OF gm(3) H(1) n(2,3), of ?H "de_flag_run E"] slow gm(1) fnd by (simp add: vals_def found_def)
  have "distinct uk" using bp(1) by simp
  have step: "db_multiget E keys out n db = Some (answer_from_buffer E keys vals n uk uv ?db)"
    using H n(1) gm gpu x buffer_found_ok [OF gm(3) H(1) bp(3)] uvok(1) bp(3)
    by (simp add: db_multiget_def MLKV_CUDA_CHECK_def t_def host_keys_def host_found_def flip: uk_def)
  let ?r = "find_batch ?H (insert_or_assign ?H t (zip uk uv)) (take n keys) vals"
  obtain db' where db': "answer_from_buffer E keys vals n uk uv ?db = Returns (SUCCESS, fst ?r, snd ?r, db')"
    "db_ready E contents db'" "db_config db' = db_config db" "db_lookup E contents db' = ?L ++ map_of (zip uk uv)"
    using answer_from_buffer_ok [OF with_buffer(1) [OF ready gm(1), of t], of n keys vals uk uv] with_buffer(2) [OF ready gm(1), of t]
      n lv \<open>distinct uk\<close> bp(4) uvok(2) by auto
  have L: "?L = memdisk_lookup (de_memdisk E) contents m ++ gpu_lookup ?H g" using gm by (simp add: db_lookup_def)
  note ans = batch_answer [OF host d n(2) keeps found_def vals x uk_def uv_def t_def _ L]
  have each: "snd ?r ! i \<and> answered E ?L (keys ! i) (fst ?r ! i) \<and> db_lookup E contents db' (keys ! i) = Some (fst ?r ! i)" if "i < n" for i
    using ans [OF that] find_batch_nth [of i "take n keys" vals ?H "insert_or_assign ?H t (zip uk uv)"] that n lv db'(4)
    by (auto simp: map_add_Some_iff)
  have lens: "length (fst ?r) = length out" "length (snd ?r) = n" using n lv by (simp_all add: find_batch_def)
  then have "snd ?r = replicate n True" using each by (intro nth_equalityI) auto
  moreover have "db_lookup E contents db' = ?L ++ map_of (zip (take n keys) (take n (fst ?r)))"
    using lookup_after_batch [OF d n(2) _ _ db'(4) bp(4,5)] each lens n by simp
  ultimately show ?thesis using step db' each lens by (intro exI [of _ "fst ?r"] exI [of _ db']) auto
qed

lemma db_multiget_fast:
  assumes ready: "db_ready E contents db" and n: "0 < n" "n \<le> length keys" "n \<le> length out"
    and fast: "check_all_true_kernel (de_flag_run E) (map (\<lambda>k. gpu_lookup (de_hkv E) (the (db_gpu_tree db)) k \<noteq> None) (take n keys)) n = 1"
  shows "db_multiget E keys out n db =
     (let r = find_batch (de_hkv E) (the (gt_table (the (db_gpu_tree db)))) (take n keys) out in Some (Returns (SUCCESS, fst r, snd r, db)))"
proof -
  obtain g m where gm: "db_gpu_tree db = Some g" "db_memdisk_tree db = Some m" "gpu_ready g" using ready by (auto simp: db_ready_def)
  have H: "\<forall>c. de_cuda E c" "db_initialized db" "\<not> cfg_enable_gds_get_from_sst (db_config db)" using ready by (simp_all add: db_ready_def)
  have upd: "db\<lparr>db_gpu_tree := Some g\<rparr> = db" using gm(1) by (cases db) simp
  have "snd (find_batch (de_hkv E) (the (gt_table g)) (take n keys) out) = map (\<lambda>k. gpu_lookup (de_hkv E) g k \<noteq> None) (take n keys)"
    by (simp add: find_batch_def gpu_lookup_def)
  then show ?thesis
    using multiget_gpu_only_ok [OF gm(3) H(1) n(2,3), of "de_hkv E" "de_flag_run E"] fast gm H(2,3) n(1) upd
    by (simp add: db_multiget_def Let_def)
qed

lemma db_multiget_present:
  assumes ready: "db_ready E contents db" and keeps: "buffer_keeps (de_hkv E) n" and host: "host_ok E (cfg_dim (db_config db))"
    and n: "0 < n" "n \<le> 256" "n \<le> length keys" "n \<le> length out" and d: "distinct (take n keys)"
    and present: "\<And>i. i < n \<Longrightarrow> db_lookup E contents db (keys ! i) \<noteq> None"
  shows "\<exists>vals db'. db_multiget E keys out n db = Some (Returns (SUCCESS, vals, replicate n True, db')) \<and>
     db_ready E contents db' \<and> db_config db' = db_config db \<and> length vals = length out \<and>
     (\<forall>i < n. db_lookup E contents db (keys ! i) = Some (vals ! i)) \<and> db_lookup E contents db' = db_lookup E contents db"
proof (cases "check_all_true_kernel (de_flag_run E) (map (\<lambda>k. gpu_lookup (de_hkv E) (the (db_gpu_tree db)) k \<noteq> None) (take n keys)) n = 1")
  case True
  let ?g = "the (db_gpu_tree db)" and ?r = "find_batch (de_hkv E) (the (gt_table (the (db_gpu_tree db)))) (take n keys) out"
  have all: "gpu_lookup (de_hkv E) ?g (keys ! i) \<noteq> None" if "i < n" for i
    using True check_all_true_one_block [OF n(1,2)] that n by (simp split: if_split_asm)
  have "snd ?r ! i \<and> db_lookup E contents db (keys ! i) = Some (fst ?r ! i)" if "i < n" for i
    using find_batch_nth [of i "take n keys" out "de_hkv E" "the (gt_table ?g)"] all [OF that] that n
    by (auto simp: gpu_lookup_def db_lookup_def)
  moreover have "length (snd ?r) = n" "length (fst ?r) = length out" using n by (simp_all add: find_batch_def)
  ultimately have "snd ?r = replicate n True" "\<forall>i < n. db_lookup E contents db (keys ! i) = Some (fst ?r ! i)"
    by (auto intro!: nth_equalityI)
  then show ?thesis
    using db_multiget_fast [OF ready n(1,3,4) True] ready \<open>length (fst ?r) = length out\<close>
    by (intro exI [of _ "fst ?r"] exI [of _ db]) (simp add: Let_def)
next
  case False
  obtain vals db' where r: "db_multiget E keys out n db = Some (Returns (SUCCESS, vals, replicate n True, db'))"
    "db_ready E contents db'" "db_config db' = db_config db" "length vals = length out"
    "\<forall>i < n. answered E (db_lookup E contents db) (keys ! i) (vals ! i)"
    "db_lookup E contents db' = db_lookup E contents db ++ map_of (zip (take n keys) (take n vals))"
    using db_multiget_slow [OF ready keeps host n(1,3,4) d False] by blast
  have each: "db_lookup E contents db (keys ! i) = Some (vals ! i)" if "i < n" for i
    using r(5) present [OF that] that by (auto simp: answered_def split: option.split_asm)
  have "db_lookup E contents db = db_lookup E contents db ++ map_of (zip (take n keys) (take n vals))"
    using lookup_after_batch [OF d n(3), of vals "db_lookup E contents db" "db_lookup E contents db" "[]" "[]"] each r(4) n by simp
  then show ?thesis using r each by auto
qed

end
