(* ===== verification/MLKV_Store.thy ===== *)
theory MLKV_Store
  imports MLKV_DB "HOL-Library.AList"
begin

text \<open>
  What the store promises to its callers, over the definitions of \<open>MLKV_DB\<close>: after initialisation it serves any sequence
  of batch writes, single lookups and batch lookups of stored keys as a map from keys to vectors would. The other
  properties say where the store departs from a map: batch lookups of missing keys, batches of more than one block,
  and single writes that evict.
\<close>

section \<open>Initialisation\<close>

text \<open>
  What initialisation relies on: CUDA calls and allocations succeed, a new table is empty, RocksDB opens a database that
  holds vectors of the configured size only, and the configuration passes the checks of the hash table.
\<close>

definition platform_ok :: "('t, 'r, 's) db_env \<Rightarrow> ('r \<Rightarrow> bytes \<Rightarrow> bytes option) \<Rightarrow> bool" where
  "platform_ok E contents \<longleftrightarrow>
     hkv_ok (de_hkv E) \<and> (\<forall>options. hkv_find (de_hkv E) (hkv_create (de_hkv E) options) = Map.empty) \<and>
     rocksdb_ok (me_rocksdb (de_memdisk E)) contents \<and> (\<forall>c. de_cuda E c) \<and> (\<forall>c. me_cuda (de_memdisk E) c) \<and>
     (\<forall>i j. de_pool_malloc E i j) \<and> sizeof_Key (de_memdisk E) = 8 \<and>
     hkv_ispow2 (de_hkv E) 128 \<and> hkv_ispow2 (de_hkv E) 1 \<and> hkv_GB (de_hkv E) 0 = 0"

definition config_ok :: "StorageConfig \<Rightarrow> bool" where
  "config_ok c \<longleftrightarrow>
     128 \<le> hkv_init_capacity c \<and> \<not> (hkv_io_by_cpu c \<and> max_hbm_for_vectors_gb c \<noteq> 0) \<and> cfg_dim c < 2 ^ 64 \<and>
     \<not> cfg_enable_gds_log c \<and> \<not> cfg_enable_gds_get_from_sst c \<and> \<not> cfg_force_skip_memtable c"

definition opened :: "('t, 'r, 's) db_env \<Rightarrow> StorageConfig \<Rightarrow> Status \<times> 'r" where
  "opened E c = DB_Open (me_rocksdb (de_memdisk E)) (cfg_rocksdb_path c) (cfg_create_if_missing c) (cfg_enable_gds_get_from_sst c)"

definition decoded :: "nat \<Rightarrow> (bytes \<Rightarrow> bytes option) \<Rightarrow> bytes \<Rightarrow> bytes list option" where
  "decoded s c k = map_option (\<lambda>raw. case deserialize_value_array s raw of Returns v \<Rightarrow> v | _ \<Rightarrow> []) (c k)"

lemma table_options_accepted:
  assumes "config_ok c" "\<forall>c. cuda c" "hkv_ispow2 H 128" "hkv_ispow2 H 1" "hkv_GB H 0 = 0"
  shows "HashTable_init H cuda (table_options H c) 8 8 = Returns (hkv_create H (table_options H c))"
    "HashTable_init H cuda (buffer_options H c) 8 8 = Returns (hkv_create H (buffer_options H c))"
  using assms
  by (auto simp: HashTable_init_def table_options_def buffer_options_def default_HashTableOptions_def config_ok_def Let_def)

lemma pool_usable: "(\<forall>j. malloc 0 j) \<Longrightarrow> find_buffer (gt_pool (init_device_buffers malloc n g)) = Some 0"
  by (cases n) (simp_all add: init_device_buffers_def init_device_buffer_def buffer_usable_def Let_def max_def upt_conv_Cons)

lemma gpu_initialize_ok:
  assumes "config_ok (gt_config g)" "\<forall>c. cuda c" "\<forall>i j. malloc i j" "hkv_ispow2 H 128" "hkv_ispow2 H 1" "hkv_GB H 0 = 0"
  shows "\<exists>g'. gpu_initialize H cuda malloc 8 g = Returns (SUCCESS, g') \<and> gpu_ready g' \<and>
     gpu_lookup H g' = hkv_find H (hkv_create H (table_options H (gt_config g)))"
  using table_options_accepted [OF assms(1,2,4,5,6)] assms(2) [rule_format, of "''cudaGetLastError''"] assms(3) pool_usable [of malloc 4]
  by (auto simp: gpu_initialize_def gpu_ready_def gpu_lookup_def init_device_buffers_def Let_def)

lemma db_initialize_ok:
  assumes p: "platform_ok E contents" and c: "config_ok c" and o: "fst (opened E c) = StOK"
    and v: "stored_vectors (cfg_dim c) (sizeof_Value (de_memdisk E)) (contents (snd (opened E c)))"
  shows "\<exists>db. db_initialize E sst stream_given (new_DB c) = Returns (SUCCESS, db) \<and> db_ready E contents db \<and> db_config db = c \<and>
     db_lookup E contents db = decoded (sizeof_Value (de_memdisk E)) (contents (snd (opened E c)))"
proof -
  let ?M = "de_memdisk E"
  let ?m = "(new_MemDiskTreeRocksDB sst c)\<lparr>md_write_options := \<lparr>write_by_gds = False, wo_disableWAL = cfg_disableWAL c\<rparr>,
    md_gds_buffers := [], md_rocksdb := Some (snd (opened E c))\<rparr>"
  have cfg: "\<not> cfg_enable_gds_log c" "\<not> cfg_enable_gds_get_from_sst c" "\<not> cfg_force_skip_memtable c" "cfg_dim c < 2 ^ 64"
    using c by (simp_all add: config_ok_def)
  have p': "hkv_ok (de_hkv E)" "hkv_find (de_hkv E) (hkv_create (de_hkv E) options) = Map.empty" "rocksdb_ok (me_rocksdb ?M) contents"
    "\<forall>c. de_cuda E c" "\<forall>c. me_cuda ?M c" "\<forall>i j. de_pool_malloc E i j" "sizeof_Key ?M = 8"
    "hkv_ispow2 (de_hkv E) 128" "hkv_ispow2 (de_hkv E) 1" "hkv_GB (de_hkv E) 0 = 0" for options
    using p by (simp_all add: platform_ok_def)
  have m: "memdisk_initialize ?M (new_MemDiskTreeRocksDB sst c) = Returns (SUCCESS, ?m)"
    using cfg o by (simp add: memdisk_initialize_def new_MemDiskTreeRocksDB_def opened_def status_ok_def)
  obtain g where g: "gpu_initialize (de_hkv E) (de_cuda E) (de_pool_malloc E) 8 (new_GPUTreeHkv c) = Returns (SUCCESS, g)"
    "gpu_ready g" "gpu_lookup (de_hkv E) g = Map.empty"
    using gpu_initialize_ok [of "new_GPUTreeHkv c" "de_cuda E" "de_pool_malloc E" "de_hkv E"] c p'(2,4,6,8,9,10) by (auto simp: new_GPUTreeHkv_def)
  let ?db = "(new_DB c)\<lparr>db_owns_cuda_stream := \<not> stream_given, db_memdisk_tree := Some ?m, db_gpu_tree := Some g, db_initialized := True\<rparr>"
  have "db_initialize E sst stream_given (new_DB c) = Returns (SUCCESS, ?db)"
    using m g(1) p'(4,7) by (simp add: db_initialize_def new_DB_def MLKV_CUDA_CHECK_def)
  moreover have "memdisk_ready ?M contents ?m" using p'(3,5) cfg v by (simp add: memdisk_ready_def new_MemDiskTreeRocksDB_def)
  then have "db_ready E contents ?db"
    using p'(1,4) cfg g by (simp add: db_ready_def new_DB_def vectors_in_def new_MemDiskTreeRocksDB_def)
  moreover have "db_lookup E contents ?db = decoded (sizeof_Value ?M) (contents (snd (opened E c)))"
    using g(3) by (intro ext) (simp add: db_lookup_def memdisk_lookup_def decoded_def)
  ultimately show ?thesis by (intro exI [of _ ?db]) (simp add: new_DB_def)
qed

section \<open>Sequences of requests\<close>

text \<open>Requests to the store, run one after the other, with the answer of each: its result, the vectors and the flags.\<close>

datatype request = SetBatch "bytes list" "bytes list list" | GetOne bytes | GetBatch "bytes list"

type_synonym answer = "OperationResult \<times> bytes list list \<times> bool list"

definition zero_vector :: "nat \<Rightarrow> nat \<Rightarrow> bytes list" where "zero_vector dim s = replicate dim (replicate s 0)"

fun db_request :: "('t, 'r, 's) db_env \<Rightarrow> request \<Rightarrow> ('t, 'r, 's) DB \<Rightarrow> (answer \<times> ('t, 'r, 's) DB) outcome option" where
  "db_request E (SetBatch keys vals) db =
     bind_run (Some (db_multiset E keys vals (length keys) db)) (\<lambda>(r, db). Some (Returns ((r, [], []), db)))"
| "db_request E (GetOne key) db =
     bind_run (db_get E key (zero_vector (cfg_dim (db_config db)) (sizeof_Value (de_memdisk E))) db)
       (\<lambda>(r, v, db). Some (Returns ((r, [v], []), db)))"
| "db_request E (GetBatch keys) db =
     bind_run (db_multiget E keys (replicate (length keys) (zero_vector (cfg_dim (db_config db)) (sizeof_Value (de_memdisk E)))) (length keys) db)
       (\<lambda>(r, vals, found, db). Some (Returns ((r, vals, found), db)))"

fun db_serve :: "('t, 'r, 's) db_env \<Rightarrow> request list \<Rightarrow> ('t, 'r, 's) DB \<Rightarrow> (answer list \<times> ('t, 'r, 's) DB) outcome option" where
  "db_serve E [] db = Some (Returns ([], db))"
| "db_serve E (q # qs) db =
     bind_run (db_request E q db) (\<lambda>(a, db). bind_run (db_serve E qs db) (\<lambda>(as, db). Some (Returns (a # as, db))))"

text \<open>The specification: a map, and the requests it is specified for.\<close>

fun map_request :: "bytes list \<Rightarrow> request \<Rightarrow> (bytes \<Rightarrow> bytes list option) \<Rightarrow> answer \<times> (bytes \<Rightarrow> bytes list option)" where
  "map_request z (SetBatch keys vals) m = ((SUCCESS, [], []), m ++ map_of (zip keys vals))"
| "map_request z (GetOne key) m = ((case m key of Some v \<Rightarrow> (SUCCESS, [v], []) | None \<Rightarrow> (KEY_NOT_FOUND, [z], [])), m)"
| "map_request z (GetBatch keys) m = ((SUCCESS, map (\<lambda>k. the (m k)) keys, map (\<lambda>_. True) keys), m)"

fun map_serve :: "bytes list \<Rightarrow> request list \<Rightarrow> (bytes \<Rightarrow> bytes list option) \<Rightarrow> answer list \<times> (bytes \<Rightarrow> bytes list option)" where
  "map_serve z [] m = ([], m)"
| "map_serve z (q # qs) m = (case map_request z q m of (a, m) \<Rightarrow> case map_serve z qs m of (as, m) \<Rightarrow> (a # as, m))"

fun request_ok :: "nat \<Rightarrow> nat \<Rightarrow> request \<Rightarrow> (bytes \<Rightarrow> bytes list option) \<Rightarrow> bool" where
  "request_ok dim s (SetBatch keys vals) m \<longleftrightarrow> distinct keys \<and> length vals = length keys \<and> list_all (vector_ok dim s) vals"
| "request_ok dim s (GetOne key) m \<longleftrightarrow> True"
| "request_ok dim s (GetBatch keys) m \<longleftrightarrow> keys \<noteq> [] \<and> length keys \<le> 256 \<and> distinct keys \<and> list_all (\<lambda>k. m k \<noteq> None) keys"

fun requests_ok :: "nat \<Rightarrow> nat \<Rightarrow> request list \<Rightarrow> (bytes \<Rightarrow> bytes list option) \<Rightarrow> bool" where
  "requests_ok dim s [] m \<longleftrightarrow> True"
| "requests_ok dim s (q # qs) m \<longleftrightarrow> request_ok dim s q m \<and> requests_ok dim s qs (snd (map_request (zero_vector dim s) q m))"

lemma buffer_keeps_mono: "buffer_keeps H n \<Longrightarrow> k \<le> n \<Longrightarrow> buffer_keeps H k"
  unfolding buffer_keeps_def by (meson le_trans)

lemma db_request_ok:
  assumes ready: "db_ready E contents db" and keeps: "buffer_keeps (de_hkv E) 256" and host: "host_ok E (cfg_dim (db_config db))"
    and q: "request_ok (cfg_dim (db_config db)) (sizeof_Value (de_memdisk E)) q (db_lookup E contents db)"
  defines "z \<equiv> zero_vector (cfg_dim (db_config db)) (sizeof_Value (de_memdisk E))"
  shows "\<exists>db'. db_request E q db = Some (Returns (fst (map_request z q (db_lookup E contents db)), db')) \<and> db_ready E contents db' \<and>
     db_config db' = db_config db \<and> db_lookup E contents db' = snd (map_request z q (db_lookup E contents db))"
proof (cases q)
  case (SetBatch keys vals)
  then show ?thesis using db_multiset_ok [OF ready, of "length keys" keys vals] q by auto
next
  case (GetOne key)
  then show ?thesis using db_get_ok [OF ready, of z key] ready by (auto simp: z_def zero_vector_def split: option.split)
next
  case (GetBatch keys)
  let ?n = "length keys"
  have k: "keys \<noteq> []" "?n \<le> 256" "distinct keys" "\<And>i. i < ?n \<Longrightarrow> db_lookup E contents db (keys ! i) \<noteq> None"
    using q GetBatch by (auto simp: list_all_length)
  obtain vals db' where r: "db_multiget E keys (replicate ?n z) ?n db = Some (Returns (SUCCESS, vals, replicate ?n True, db'))"
    "db_ready E contents db'" "db_config db' = db_config db" "length vals = ?n"
    "\<forall>i < ?n. db_lookup E contents db (keys ! i) = Some (vals ! i)" "db_lookup E contents db' = db_lookup E contents db"
    using db_multiget_present [OF ready buffer_keeps_mono [OF keeps k(2)] host, of keys "replicate ?n z"] k by auto
  then have "vals = map (\<lambda>k. the (db_lookup E contents db k)) keys" by (intro nth_equalityI) auto
  then show ?thesis using r GetBatch by (auto simp: z_def map_replicate_const)
qed

lemma db_serve_ok:
  assumes "buffer_keeps (de_hkv E) 256" and "host_ok E dim" and z: "z = zero_vector dim (sizeof_Value (de_memdisk E))"
  shows "db_ready E contents db \<Longrightarrow> cfg_dim (db_config db) = dim \<Longrightarrow>
     requests_ok dim (sizeof_Value (de_memdisk E)) qs (db_lookup E contents db) \<Longrightarrow>
     \<exists>db'. db_serve E qs db = Some (Returns (fst (map_serve z qs (db_lookup E contents db)), db')) \<and> db_ready E contents db' \<and>
       db_lookup E contents db' = snd (map_serve z qs (db_lookup E contents db))"
proof (induction qs arbitrary: db)
  case (Cons q qs)
  obtain db1 where db1: "db_request E q db = Some (Returns (fst (map_request z q (db_lookup E contents db)), db1))"
    "db_ready E contents db1" "db_config db1 = db_config db" "db_lookup E contents db1 = snd (map_request z q (db_lookup E contents db))"
    using db_request_ok [OF Cons.prems(1) assms(1), of q] Cons.prems assms(2) z by auto
  obtain db2 where "db_serve E qs db1 = Some (Returns (fst (map_serve z qs (db_lookup E contents db1)), db2))"
    "db_ready E contents db2" "db_lookup E contents db2 = snd (map_serve z qs (db_lookup E contents db1))"
    using Cons.IH [OF db1(2)] db1(3,4) Cons.prems z by auto
  then show ?case using db1 by (auto simp: split_beta)
qed simp

section \<open>Single writes\<close>

lemma memdisk_put_ok:
  assumes ready: "memdisk_ready E contents m" and v: "vector_ok (cfg_dim (md_config m)) (sizeof_Value E) v"
  shows "\<exists>m'. memdisk_put E k v m = Returns (SUCCESS, m') \<and>
     memdisk_lookup E contents m' = (memdisk_lookup E contents m)(new_Key_bytes E \<mapsto> v)"
proof -
  obtain r where r: "md_rocksdb m = Some r" using ready by (auto simp: memdisk_ready_def)
  let ?put = "DB_Put (me_rocksdb E) (md_write_options m) (new_Key_bytes E) (serialize_value_array (cfg_dim (md_config m)) v) r"
  have put: "fst ?put = StOK" "contents (snd ?put) = (contents r)(new_Key_bytes E \<mapsto> serialize_value_array (cfg_dim (md_config m)) v)"
    and cfg: "\<not> cfg_enable_gds_log (md_config m)" "\<forall>c. me_cuda E c" "cfg_dim (md_config m) < 2 ^ 64"
    using ready by (simp_all add: memdisk_ready_def rocksdb_ok_def)
  have "memdisk_put E k v m = Returns (SUCCESS, m\<lparr>md_rocksdb := Some (snd ?put)\<rparr>)"
    using r put(1) cfg by (simp add: memdisk_put_def status_ok_def MLKV_CUDA_CHECK_def Let_def)
  moreover have "memdisk_lookup E contents (m\<lparr>md_rocksdb := Some (snd ?put)\<rparr>) = (memdisk_lookup E contents m)(new_Key_bytes E \<mapsto> v)"
    using r put(2) decoded_vector [OF v cfg(3)] by (auto simp: memdisk_lookup_def)
  ultimately show ?thesis by blast
qed

text \<open>A \<open>put\<close> that evicts: the evicted vector goes to the tier below under the bytes of a host pointer.\<close>

lemma db_put_evicted:
  assumes ready: "db_ready E contents db" and g: "db_gpu_tree db = Some g" "gt_table g = Some table"
    and e: "insert_and_evict (de_hkv E) table [(key, v)] = (table', [(k', v')])"
    and v: "vector_ok (cfg_dim (db_config db)) (sizeof_Value (de_memdisk E)) v"
  shows "\<exists>db'. db_put E key v db = Returns (SUCCESS, db') \<and> hkv_find (de_hkv E) table' k' = None \<and>
     db_lookup E contents db' =
       (memdisk_lookup (de_memdisk E) contents (the (db_memdisk_tree db)))(new_Key_bytes (de_memdisk E) \<mapsto> v') ++ hkv_find (de_hkv E) table'"
proof -
  let ?H = "de_hkv E"
  obtain m where m: "db_memdisk_tree db = Some m" "memdisk_ready (de_memdisk E) contents m" "md_config m = db_config db"
    and gv: "vectors_in (cfg_dim (db_config db)) (sizeof_Value (de_memdisk E)) (gpu_lookup ?H g)"
    using ready g(1) by (auto simp: db_ready_def)
  have H: "hkv_ok ?H" "\<forall>c. de_cuda E c" "db_initialized db" using ready by (simp_all add: db_ready_def)
  have ev: "hkv_find ?H table' k' = None" "map_of [(k', v')] ++ hkv_find ?H table' = hkv_find ?H table ++ map_of [(key, v)]"
    using hkv_okD [OF H(1) e] by simp_all
  have "(map_of [(k', v')] ++ hkv_find ?H table') k' = Some v'" using ev(1) by (simp add: map_add_def)
  then have "(hkv_find ?H table ++ map_of [(key, v)]) k' = Some v'" unfolding ev(2) .
  then have "vector_ok (cfg_dim (md_config m)) (sizeof_Value (de_memdisk E)) v'"
    using gv v g(2) m(3) by (auto simp: vectors_in_def gpu_lookup_def split: if_split_asm)
  then obtain m' where m': "memdisk_put (de_memdisk E) k' v' m = Returns (SUCCESS, m')"
    "memdisk_lookup (de_memdisk E) contents m' = (memdisk_lookup (de_memdisk E) contents m)(new_Key_bytes (de_memdisk E) \<mapsto> v')"
    using memdisk_put_ok [OF m(2)] by blast
  have "gpu_put ?H (de_cuda E) key v g = Returns (GPU_EVICTED, [(k', v')], g\<lparr>gt_table := Some table'\<rparr>)"
    using g(2) e H(2) by (simp add: gpu_put_def MLKV_CUDA_CHECK_def)
  then have "db_put E key v db = Returns (SUCCESS, db\<lparr>db_gpu_tree := Some (g\<lparr>gt_table := Some table'\<rparr>), db_memdisk_tree := Some m'\<rparr>)"
    using H g(1) m(1) m'(1) by (simp add: db_put_def MLKV_CUDA_CHECK_def)
  then show ?thesis using ev(1) m(1) m'(2) by (auto simp: db_lookup_def gpu_lookup_def)
qed

section \<open>Batches of more than one block\<close>

lemma db_ready_run: "db_ready (E\<lparr>de_flag_run := run\<rparr>) contents db = db_ready E contents db"
  by (simp add: db_ready_def)

lemma db_multiget_missing:
  assumes ready: "db_ready E contents db" and keeps: "buffer_keeps (de_hkv E) n" and host: "host_ok E (cfg_dim (db_config db))"
    and n: "0 < n" "n \<le> 256" "n \<le> length keys" "n \<le> length out" and d: "distinct (take n keys)"
    and miss: "i < n" "db_lookup E contents db (keys ! i) = None"
  shows "\<exists>vals db'. db_multiget E keys out n db = Some (Returns (SUCCESS, vals, replicate n True, db')) \<and> length vals = length out \<and>
     (\<forall>i < n. answered E (db_lookup E contents db) (keys ! i) (vals ! i)) \<and>
     db_lookup E contents db' = db_lookup E contents db ++ map_of (zip (take n keys) (take n vals))"
proof -
  have "gpu_lookup (de_hkv E) (the (db_gpu_tree db)) (keys ! i) = None" using miss(2) by (simp add: db_lookup_def)
  then have "check_all_true_kernel (de_flag_run E) (map (\<lambda>k. gpu_lookup (de_hkv E) (the (db_gpu_tree db)) k \<noteq> None) (take n keys)) n \<noteq> 1"
    using check_all_true_one_block [OF n(1,2)] miss(1) n(3) by auto
  from db_multiget_slow [OF ready keeps host n(1,3,4) d this] show ?thesis by blast
qed

lemma answered_extends:
  assumes "\<forall>i < n. answered E L (keys ! i) (vals ! i)" "n \<le> length keys" "n \<le> length vals" "distinct (take n keys)"
  shows "L \<subseteq>\<^sub>m L ++ map_of (zip (take n keys) (take n vals))"
proof (unfold map_le_def, intro ballI)
  fix k assume "k \<in> dom L"
  then obtain v where v: "L k = Some v" by blast
  show "L k = (L ++ map_of (zip (take n keys) (take n vals))) k"
  proof (cases "k \<in> set (take n keys)")
    case True
    then obtain i where i: "i < n" "k = keys ! i" using assms(2) by (auto simp: in_set_conv_nth)
    then have "vals ! i = v" using assms(1) v by (auto simp: answered_def)
    then show ?thesis using map_of_zip_nth_distinct [OF assms(4,2,3) i(1)] i(2) v by (simp add: map_add_def)
  next
    case False
    then have "map_of (zip (take n keys) (take n vals)) k = None" using assms(2,3) by (auto simp: map_of_zip_is_None)
    then show ?thesis by (simp add: map_add_def)
  qed
qed

section \<open>An example platform\<close>

text \<open>
  A table that keeps the newest entries and evicts the others, a database as an association list, and a platform on
  which every call succeeds.
\<close>

definition lru_insert :: "nat \<Rightarrow> ('k \<times> 'v) list \<Rightarrow> ('k \<times> 'v) list \<Rightarrow> ('k \<times> 'v) list \<times> ('k \<times> 'v) list" where
  "lru_insert capacity table kvs =
     (let entries = kvs @ AList.clearjunk (filter (\<lambda>kv. fst kv \<notin> fst ` set kvs) table);
          keep = max capacity (length entries - length kvs)
      in (take keep entries, drop keep entries))"

definition example_hkv :: "((bytes \<times> bytes list) list, bytes, bytes list) hkv" where
  "example_hkv = \<lparr>hkv_create = (\<lambda>_. []), hkv_find = map_of, insert_and_evict = lru_insert 2, insert_or_assign = (\<lambda>table kvs. kvs @ table),
     hkv_ispow2 = (\<lambda>n. n \<noteq> 0 \<and> n AND (n - 1) = 0), hkv_GB = (\<lambda>n. n * 2 ^ 30)\<rparr>"

definition example_rocksdb :: "(bytes \<times> bytes) list rocksdb" where
  "example_rocksdb =
     (let get = (\<lambda>k r. case map_of r k of Some v \<Rightarrow> (StOK, v) | None \<Rightarrow> (StNotFound, []))
      in \<lparr>DB_Open = (\<lambda>_ _ _. (StOK, [])), DB_Put = (\<lambda>_ k v r. (StOK, (k, v) # r)), DB_Write = (\<lambda>_ kvs r. (StOK, rev kvs @ r)),
          DB_Get = (\<lambda>_. get), DB_MultiGet = (\<lambda>_ ks r. map (\<lambda>k. get k r) ks), GetLatestSequenceNumber = (\<lambda>r. word_of_nat (length r)),
          GetCurrentWalFile = (\<lambda>_. (StOK, ''000001.log''))\<rparr>)"

definition example_memdisk_env :: "((bytes \<times> bytes) list, bytes) memdisk_env" where
  "example_memdisk_env =
     \<lparr>me_rocksdb = example_rocksdb, me_cuda = (\<lambda>_. True), me_gpu = sample_env, me_sizes_order = [], me_batch_order = [],
      me_malloc_sizes = (\<lambda>n. Some (replicate n 0)), me_append = (\<lambda>s b. Returns (io_OK, s @ b)), me_open_dest = (\<lambda>_. Returns []),
      me_gwal = \<lparr>malloc_header = Some [], malloc_trailer = Some [], malloc_temp = Some []\<rparr>, me_accessor = (\<lambda>_. example_accessor),
      me_deserialize = \<lparr>dr_order = [], dr_load = (\<lambda>_. []), dr_store = (\<lambda>_. []), dr_shared_mem = (\<lambda>_. [])\<rparr>, me_pinned = (\<lambda>_. []),
      sizeof_Key = 8, sizeof_Value = 1, omp_get_num_procs = 8, thread_num = (\<lambda>_. 0), new_Key_bytes = [9], host_reads_device = False\<rparr>"

definition example_db_env :: "((bytes \<times> bytes list) list, (bytes \<times> bytes) list, bytes) db_env" where
  "example_db_env =
     \<lparr>de_hkv = example_hkv, de_memdisk = example_memdisk_env, de_cuda = (\<lambda>_. True), de_pool_malloc = (\<lambda>_ _. True),
      de_flag_run = \<lparr>kr_blocks = [], kr_threads = (\<lambda>_. []), kr_stale = 0\<rparr>, de_second_run = \<lparr>kr_blocks = [], kr_threads = (\<lambda>_. []), kr_stale = 0\<rparr>,
      de_extract_order = [], de_hash_order = rev, de_reserved = (\<lambda>n. replicate n [[7]]), de_uninit_found = (\<lambda>n. replicate n False)\<rparr>"

definition example_config :: StorageConfig where "example_config = default_StorageConfig\<lparr>cfg_dim := 1\<rparr>"

definition example_db :: "(bytes \<times> bytes list) list \<Rightarrow> (bytes \<times> bytes list) list \<Rightarrow> ((bytes \<times> bytes list) list, (bytes \<times> bytes) list, bytes) DB" where
  "example_db table disk =
     (new_DB example_config)\<lparr>db_gpu_tree := Some ((init_device_buffers (\<lambda>_ _. True) 4 (new_GPUTreeHkv example_config))
          \<lparr>gt_table := Some table, gt_buffer_table := Some []\<rparr>),
        db_memdisk_tree := Some ((new_MemDiskTreeRocksDB example_accessor_state example_config)
          \<lparr>md_rocksdb := Some (map (\<lambda>(k, v). (k, serialize_value_array 1 v)) disk)\<rparr>),
        db_initialized := True\<rparr>"

lemma lru_insert_map:
  assumes "distinct (map fst kvs)" and "lru_insert c table kvs = (table', ev)"
  shows "distinct (map fst ev)" "length ev \<le> length kvs" "\<forall>k v. (k, v) \<in> set ev \<longrightarrow> map_of table' k = None"
    "map_of ev ++ map_of table' = map_of table ++ map_of kvs"
proof -
  let ?old = "AList.clearjunk (filter (\<lambda>kv. fst kv \<notin> fst ` set kvs) table)"
  let ?new = "kvs @ ?old"
  let ?keep = "max c (length ?new - length kvs)"
  have t: "table' = take ?keep ?new" "ev = drop ?keep ?new" using assms(2) by (simp_all add: lru_insert_def Let_def)
  have "fst ` set ?old \<inter> fst ` set kvs = {}" by (auto simp: dom_clearjunk)
  then have d: "distinct (map fst ?new)" using assms(1) distinct_clearjunk by auto
  have new: "?new = table' @ ev" unfolding t by (rule append_take_drop_id [symmetric])
  show "distinct (map fst ev)" "\<forall>k v. (k, v) \<in> set ev \<longrightarrow> map_of table' k = None"
    using d unfolding new by (auto simp: map_of_eq_None_iff) (metis disjoint_iff fst_conv image_eqI)
  have "length ev = length ?new - ?keep" using t(2) by (simp only: length_drop)
  then show "length ev \<le> length kvs" by linarith
  have "map_of ev ++ map_of table' = map_of ?new" unfolding new by simp
  also have "\<dots> = map_of table ++ map_of kvs"
  proof
    fix k
    have "map_of ?old k = (if k \<in> fst ` set kvs then None else map_of table k)"
      unfolding map_of_clearjunk by (induction table) (auto simp: rev_image_eqI)
    moreover have "map_of kvs k = None \<longleftrightarrow> k \<notin> fst ` set kvs" by (rule map_of_eq_None_iff)
    ultimately show "map_of ?new k = (map_of table ++ map_of kvs) k" by (cases "map_of kvs k") (simp_all add: map_add_def)
  qed
  finally show "map_of ev ++ map_of table' = map_of table ++ map_of kvs" .
qed

lemma example_hkv_ok: "hkv_ok example_hkv"
  unfolding hkv_ok_def
proof (intro allI impI)
  fix table :: "(bytes \<times> bytes list) list" and kvs :: "(bytes \<times> bytes list) list"
  assume d: "distinct (map fst kvs)"
  obtain table' ev where i: "lru_insert 2 table kvs = (table', ev)" by (cases "lru_insert 2 table kvs")
  then show "case insert_and_evict example_hkv table kvs of (table', evicted) \<Rightarrow>
      distinct (map fst evicted) \<and> length evicted \<le> length kvs \<and>
      (\<forall>k v. (k, v) \<in> set evicted \<longrightarrow> hkv_find example_hkv table' k = None) \<and>
      map_of evicted ++ hkv_find example_hkv table' = hkv_find example_hkv table ++ map_of kvs"
    using lru_insert_map [OF d i] by (simp add: example_hkv_def)
qed

lemma example_buffer_keeps: "buffer_keeps example_hkv n"
proof -
  have "map_of (kvs' @ kvs @ table) k = Some v" if "distinct (map fst (kvs @ kvs'))" "map_of (kvs @ kvs') k = Some v"
    for table kvs kvs' :: "(bytes \<times> bytes list) list" and k v
  proof -
    have "fst ` set kvs \<inter> fst ` set kvs' = {}" using that(1) by simp
    then have "dom (map_of kvs) \<inter> dom (map_of kvs') = {}" by (simp add: dom_map_of_conv_image_fst)
    then have "map_of kvs ++ map_of kvs' = map_of kvs' ++ map_of kvs" by (rule map_add_comm)
    then have "map_of (kvs' @ kvs) k = Some v" using that(2) by simp
    then show ?thesis by (auto simp: map_add_Some_iff)
  qed
  then show ?thesis unfolding buffer_keeps_def example_hkv_def by (simp add: map_add_Some_iff)
qed

lemma example_rocksdb_ok: "rocksdb_ok example_rocksdb map_of"
  by (auto simp: rocksdb_ok_def example_rocksdb_def Let_def)

lemma example_platform_ok: "platform_ok example_db_env map_of"
  using example_hkv_ok example_rocksdb_ok
  by (simp add: platform_ok_def example_db_env_def example_memdisk_env_def) (simp add: example_hkv_def)

lemma example_config_ok: "config_ok example_config"
  by (simp add: config_ok_def example_config_def default_StorageConfig_def)

lemma example_host_ok: "host_ok example_db_env 1"
  by (simp add: host_ok_def example_db_env_def example_memdisk_env_def vector_ok_def list_all_iff)

lemma example_db_ready:
  assumes "list_all (\<lambda>(k, v). vector_ok 1 1 v) table" "list_all (\<lambda>(k, v). vector_ok 1 1 v) disk"
  shows "db_ready example_db_env map_of (example_db table disk)"
proof -
  have "gpu_ready ((init_device_buffers (\<lambda>_ _. True) 4 (new_GPUTreeHkv example_config))\<lparr>gt_table := Some table, gt_buffer_table := Some []\<rparr>)"
    using pool_usable [of "\<lambda>_ _. True" 4 "new_GPUTreeHkv example_config"] by (auto simp: gpu_ready_def)
  moreover have "stored_vectors 1 1 (map_of (map (\<lambda>(k, v). (k, serialize_value_array 1 v)) disk))"
    using assms(2) by (fastforce simp: stored_vectors_def list_all_iff dest!: map_of_SomeD)
  moreover have "vectors_in 1 1 (map_of table)"
    using assms(1) by (auto simp: vectors_in_def list_all_iff dest!: map_of_SomeD)
  ultimately show ?thesis
    using example_hkv_ok example_rocksdb_ok
    by (simp add: db_ready_def memdisk_ready_def example_db_def example_db_env_def example_memdisk_env_def new_DB_def
        new_MemDiskTreeRocksDB_def example_config_def default_StorageConfig_def gpu_lookup_def)
      (simp add: example_hkv_def)
qed

section \<open>Properties\<close>







text \<open>
  C30: A large batch can miss stored keys. For a batch of more than 256 keys whose first 256 are in the GPU tier there is a
  schedule of the flag kernel under which the lookup ends after the GPU tier: it succeeds, and every key the GPU tier does
  not hold is reported as not found, also when the tier below holds it.
\<close>

theorem multiget_race:
  assumes "db_ready E contents db" "256 < n" "n \<le> length keys" "n \<le> length out"
    and "\<forall>i < 256. gpu_lookup (de_hkv E) (the (db_gpu_tree db)) (keys ! i) \<noteq> None"
  shows "\<exists>run vals found. db_multiget (E\<lparr>de_flag_run := run\<rparr>) keys out n db = Some (Returns (SUCCESS, vals, found, db)) \<and>
     (\<forall>i < n. found ! i \<longleftrightarrow> gpu_lookup (de_hkv E) (the (db_gpu_tree db)) (keys ! i) \<noteq> None)"
proof -
  let ?flags = "map (\<lambda>k. gpu_lookup (de_hkv E) (the (db_gpu_tree db)) k \<noteq> None) (take n keys)"
  obtain run where run: "check_all_true_kernel run ?flags n = 1"
    using check_all_true_race [OF assms(2), of ?flags] assms(2,3,5) by auto
  let ?E = "E\<lparr>de_flag_run := run\<rparr>"
  have "db_ready ?E contents db" using assms(1) by (simp add: db_ready_run)
  from db_multiget_fast [OF this _ assms(3,4)] run assms(2)
  have "db_multiget ?E keys out n db =
      (let r = find_batch (de_hkv E) (the (gt_table (the (db_gpu_tree db)))) (take n keys) out in Some (Returns (SUCCESS, fst r, snd r, db)))"
    by simp
  then show ?thesis using assms(3) by (intro exI [of _ run]) (auto simp: Let_def find_batch_def gpu_lookup_def)
qed

theorem multiget_race_witness:
  "\<exists>run vals found. db_multiget (example_db_env\<lparr>de_flag_run := run\<rparr>) (replicate 256 [1] @ [[2]]) (replicate 257 [[0]]) 257
       (example_db [([1], [[10]])] [([2], [[20]])]) =
       Some (Returns (SUCCESS, vals, found, example_db [([1], [[10]])] [([2], [[20]])])) \<and>
     \<not> found ! 256 \<and> db_lookup example_db_env map_of (example_db [([1], [[10]])] [([2], [[20]])]) [2] \<noteq> None"
proof -
  let ?db = "example_db [([1], [[10]])] [([2], [[20]])]"
  have r: "db_ready example_db_env map_of ?db" by (rule example_db_ready) (auto simp: vector_ok_def)
  have g: "gpu_lookup (de_hkv example_db_env) (the (db_gpu_tree ?db)) = map_of [([1], [[10]])]"
    by (simp add: gpu_lookup_def example_db_def example_db_env_def example_hkv_def)
  have k: "\<forall>i < 256. gpu_lookup (de_hkv example_db_env) (the (db_gpu_tree ?db)) ((replicate 256 [1] @ [[2]]) ! i) \<noteq> None"
    "gpu_lookup (de_hkv example_db_env) (the (db_gpu_tree ?db)) ((replicate 256 [1] @ [[2]]) ! 256) = None"
    unfolding g by (simp_all add: nth_append)
  obtain run vals found where m: "db_multiget (example_db_env\<lparr>de_flag_run := run\<rparr>) (replicate 256 [1] @ [[2]]) (replicate 257 [[0]]) 257 ?db =
      Some (Returns (SUCCESS, vals, found, ?db))"
    "\<forall>i < 257. found ! i \<longleftrightarrow> gpu_lookup (de_hkv example_db_env) (the (db_gpu_tree ?db)) ((replicate 256 [1] @ [[2]]) ! i) \<noteq> None"
    using multiget_race [OF r _ _ _ k(1), of 257 "replicate 257 [[0]]"] by auto
  have "\<not> found ! 256" using m(2) [rule_format, of 256] k(2) by simp
  moreover have "db_lookup example_db_env map_of ?db [2] \<noteq> None"
    by (simp add: db_lookup_def g memdisk_lookup_def map_add_def) (simp add: example_db_def)
  ultimately show ?thesis using m(1) by blast
qed

text \<open>
  C31: A single write can lose another key. When a \<open>put\<close> makes the GPU tier evict a pair, the pair goes to the tier below under
  the bytes of a host pointer instead of its key: afterwards the store has for the evicted key only what the tier
  below had before, and its vector under the bytes of the pointer.
\<close>

theorem put_loses_evicted:
  assumes "db_ready E contents db" "db_gpu_tree db = Some g" "gt_table g = Some table"
    and "insert_and_evict (de_hkv E) table [(key, v)] = (table', [(k', v')])"
    and "vector_ok (cfg_dim (db_config db)) (sizeof_Value (de_memdisk E)) v"
    and "new_Key_bytes (de_memdisk E) \<noteq> k'"
  shows "\<exists>db'. db_put E key v db = Returns (SUCCESS, db') \<and>
     db_lookup E contents db' k' = memdisk_lookup (de_memdisk E) contents (the (db_memdisk_tree db)) k' \<and>
     (hkv_find (de_hkv E) table' (new_Key_bytes (de_memdisk E)) = None \<longrightarrow>
        db_lookup E contents db' (new_Key_bytes (de_memdisk E)) = Some v')"
  using db_put_evicted [OF assms(1-5)] assms(6) by (auto simp: map_add_def)

theorem put_loses_evicted_witness:
  "\<exists>db'. db_put example_db_env [3] [[30]] (example_db [([1], [[10]]), ([2], [[20]])] []) = Returns (SUCCESS, db') \<and>
     db_lookup example_db_env map_of (example_db [([1], [[10]]), ([2], [[20]])] []) [2] = Some [[20]] \<and>
     db_lookup example_db_env map_of db' [2] = None"
proof -
  let ?db = "example_db [([1], [[10]]), ([2], [[20]])] []"
  have r: "db_ready example_db_env map_of ?db" by (rule example_db_ready) (auto simp: vector_ok_def)
  have e: "insert_and_evict (de_hkv example_db_env) [([1], [[10]]), ([2], [[20]])] [([3], [[30]])] =
      ([([3], [[30]]), ([1], [[10]])], [([2], [[20]])])"
    by (simp add: example_db_env_def example_hkv_def lru_insert_def Let_def)
  have "vector_ok (cfg_dim (db_config ?db)) (sizeof_Value (de_memdisk example_db_env)) [[30]]"
    "new_Key_bytes (de_memdisk example_db_env) \<noteq> [2]"
    by (simp_all add: vector_ok_def example_db_def new_DB_def example_config_def example_db_env_def example_memdisk_env_def)
  moreover have "memdisk_lookup (de_memdisk example_db_env) map_of (the (db_memdisk_tree ?db)) = Map.empty"
    by (simp add: memdisk_lookup_def example_db_def fun_eq_iff)
  moreover have "db_lookup example_db_env map_of ?db [2] = Some [[20]]"
    by (simp add: db_lookup_def gpu_lookup_def example_db_def example_db_env_def example_hkv_def)
  moreover obtain g where "db_gpu_tree ?db = Some g" "gt_table g = Some [([1], [[10]]), ([2], [[20]])]"
    by (simp add: example_db_def)
  ultimately show ?thesis using put_loses_evicted [OF r _ _ e] by fastforce
qed

end
