(* ===== verification/SOK_Select.thy ===== *)
theory SOK_Select
  imports GPU_Kernel "HOL-Library.Multiset"
begin

text \<open>
  The partitioning of keys by owner before a distributed lookup: \<open>dist_select\<close> of
  \<^verbatim>\<open>lookup/binding/select.cu\<close> with \<open>SelectLauncher\<close> and \<open>selectKernel\<close> of
  \<^verbatim>\<open>lookup/impl/select_kernel.cu\<close> (sparse operation kit).

  A warp of the kernel collects keys in its part of the shared memory, one region per owner (\<open>chunk\<close>), and writes a
  region to the global buffers when it is nearly full and at its end. The lanes of a warp run in lock step, but take their
  slots by \<open>atomicAdd\<close> in any order; what a warp writes to the global buffers, and in which order, depends on its own
  keys only, so a warp is the list of its writes (\<open>flushes\<close>) and a launch an interleaving of these lists. A flush
  reserves a range of a global buffer by \<open>atomicAdd\<close> and fills it; no other warp touches the range.
\<close>

section \<open>Tensors\<close>

datatype dtype = kInt32 | kInt64 | kFloat32 | kBool | kOtherType

text \<open>
  A tensor: the kind of device it is on, its element type, its shape and its elements. Keys are 64-bit words, for
  \<open>kInt32\<close> with the sign extended.
\<close>

record 'a tensor =
  on_cuda :: bool
  t_dtype :: dtype
  t_shape :: "nat list"
  t_data :: "'a list"

definition vector_tensor :: "dtype \<Rightarrow> 'a list \<Rightarrow> 'a tensor" where
  "vector_tensor ty xs = \<lparr>on_cuda = True, t_dtype = ty, t_shape = [length xs], t_data = xs\<rparr>"

section \<open>The kernel\<close>

definition warpSize :: nat where "warpSize = 32"

text \<open>The part of the shared memory that one warp uses: a counter per chunk, and the slots for keys and indices.\<close>

record warp_smem =
  cnt_smem :: "nat list"
  key_smem :: "u64 list"
  idx_smem :: "u32 list"

text \<open>
  The choices of a launch: the interleaving of the warps, the order in which the lanes of the iteration at an index get
  their slots, and what uninitialised memory holds.
\<close>

record select_run =
  sr_warps :: "nat list"
  sr_lanes :: "nat \<Rightarrow> nat list"
  sr_counters :: "nat \<Rightarrow> nat"
  sr_keys :: "nat \<Rightarrow> u64"
  sr_indices :: "nat \<Rightarrow> u32"

text \<open>
  Each lane with a key takes a slot of the region of its chunk; \<open>locals\<close> are the variables \<open>chunk_id\<close> and
  \<open>curr_local_idx\<close> of the lanes. A key whose slot lies behind the memory of the warp overwrites another warp's.
\<close>

fun insert_lanes ::
  "u64 list \<Rightarrow> nat \<Rightarrow> nat \<Rightarrow> nat \<Rightarrow> nat list \<Rightarrow> warp_smem \<Rightarrow> (nat \<times> nat) list \<Rightarrow> (warp_smem \<times> (nat \<times> nat) list) outcome" where
  "insert_lanes keys chunks items base [] s locals = Returns (s, locals)"
| "insert_lanes keys chunks items base (lane # lanes) s locals =
     (let idx = base + lane
      in if idx < length keys
         then
           let key = keys ! idx;
               chunk_id = unat key mod chunks;
               curr_local_idx = cnt_smem s ! chunk_id;
               offset = chunk_id * items + curr_local_idx
           in if offset \<ge> length (key_smem s) then Undefined ''write beyond the shared memory of the warp''
              else
                insert_lanes keys chunks items base lanes
                  (s\<lparr>cnt_smem := (cnt_smem s)[chunk_id := curr_local_idx + 1], key_smem := (key_smem s)[offset := key],
                     idx_smem := (idx_smem s)[offset := word_of_nat idx]\<rparr>)
                  (locals[lane := (chunk_id, curr_local_idx)])
         else insert_lanes keys chunks items base lanes s locals)"

text \<open>
  The lanes whose slot is the one that makes a chunk full, from the highest, as the ballot is read. The mask that removes
  lane 0 from the ballot is shifted by its full width, which gives 0 on the device.
\<close>

definition full_lanes :: "nat \<Rightarrow> (nat \<times> nat) list \<Rightarrow> nat list" where
  "full_lanes items locals = rev (filter (\<lambda>l. snd (locals ! l) + warpSize = items) [0..<warpSize])"

definition smem_items :: "nat \<Rightarrow> nat \<Rightarrow> warp_smem \<Rightarrow> (u64 \<times> u32) list" where
  "smem_items items g s = map (\<lambda>j. (key_smem s ! (g * items + j), idx_smem s ! (g * items + j))) [0..<cnt_smem s ! g]"

text \<open>A counter that was never cleared can point behind the memory of the warp.\<close>

definition smem_inside :: "nat \<Rightarrow> warp_smem \<Rightarrow> nat \<Rightarrow> bool" where
  "smem_inside items s g \<longleftrightarrow> g * items + cnt_smem s ! g \<le> length (key_smem s)"

type_synonym flush = "nat \<times> (u64 \<times> u32) list"

definition warp_iteration ::
  "u64 list \<Rightarrow> nat \<Rightarrow> nat \<Rightarrow> nat list \<Rightarrow> nat \<Rightarrow> warp_smem \<Rightarrow> (flush list \<times> warp_smem) outcome" where
  "warp_iteration keys chunks items order base s =
     bind_outcome (insert_lanes keys chunks items base (thread_order order warpSize) s (replicate warpSize (0, 0)))
       (\<lambda>(s, locals).
          let full = map (\<lambda>l. fst (locals ! l)) (full_lanes items locals)
          in if \<not> list_all (smem_inside items s) full then Undefined ''read beyond the shared memory of the warp''
             else Returns (map (\<lambda>g. (g, smem_items items g s)) full, s\<lparr>cnt_smem := fold (\<lambda>g cnt. cnt[g := 0]) full (cnt_smem s)\<rparr>))"

fun warp_loop ::
  "u64 list \<Rightarrow> nat \<Rightarrow> nat \<Rightarrow> (nat \<Rightarrow> nat list) \<Rightarrow> nat list \<Rightarrow> warp_smem \<Rightarrow> (flush list \<times> warp_smem) outcome" where
  "warp_loop keys chunks items lanes [] s = Returns ([], s)"
| "warp_loop keys chunks items lanes (base # bases) s =
     bind_outcome (warp_iteration keys chunks items (lanes base) base s)
       (\<lambda>(fs, s). bind_outcome (warp_loop keys chunks items lanes bases s) (\<lambda>(fs', s). Returns (fs @ fs', s)))"

definition warp_tail :: "nat \<Rightarrow> nat \<Rightarrow> warp_smem \<Rightarrow> flush list outcome" where
  "warp_tail chunks items s =
     (let rest = filter (\<lambda>g. cnt_smem s ! g \<noteq> 0) [0..<chunks]
      in if \<not> list_all (smem_inside items s) rest then Undefined ''read beyond the shared memory of the warp''
         else Returns (map (\<lambda>g. (g, smem_items items g s)) rest))"

text \<open>
  Each thread of a block clears one counter; with more counters in a block than threads the others stay uninitialised.
\<close>

definition initial_smem :: "select_run \<Rightarrow> nat \<Rightarrow> nat \<Rightarrow> nat \<Rightarrow> nat \<Rightarrow> warp_smem" where
  "initial_smem run chunks items warps y =
     \<lparr>cnt_smem = map (\<lambda>g. if y * chunks + g < warpSize * warps then 0 else sr_counters run (y * chunks + g)) [0..<chunks],
      key_smem = map (sr_keys run) [0..<chunks * items], idx_smem = map (sr_indices run) [0..<chunks * items]\<rparr>"

definition warp_flushes :: "select_run \<Rightarrow> u64 list \<Rightarrow> nat \<Rightarrow> nat \<Rightarrow> nat \<Rightarrow> nat \<Rightarrow> nat \<Rightarrow> flush list outcome" where
  "warp_flushes run keys chunks items warps blocks w =
     (let thread_cnt = warpSize * warps;
          stride_size = thread_cnt * blocks;
          padded_input_size = ((length keys + warpSize - 1) div warpSize * warpSize) mod 2 ^ 32;
          start = warpSize * (w mod warps) + (w div warps) * thread_cnt
      in bind_outcome (warp_loop keys chunks items (sr_lanes run) (strided start stride_size padded_input_size)
                         (initial_smem run chunks items warps (w mod warps)))
           (\<lambda>(fs, s). bind_outcome (warp_tail chunks items s) (\<lambda>fs'. Returns (fs @ fs'))))"

text \<open>The global buffers: \<open>chunk_sizes\<close>, \<open>output_keys\<close> and \<open>output_indices\<close>.\<close>

record select_buffers =
  chunk_sizes :: "u32 list"
  output_keys :: "u64 list"
  output_indices :: "u32 list"

fun run_flushes :: "nat \<Rightarrow> flush list \<Rightarrow> select_buffers \<Rightarrow> select_buffers outcome" where
  "run_flushes max_chunk_size [] b = Returns b"
| "run_flushes max_chunk_size ((g, xs) # fs) b =
     (let curr_global_idx = unat (chunk_sizes b ! g);
          offset = g * max_chunk_size + curr_global_idx
      in if offset + length xs > length (output_keys b) then Undefined ''write beyond output_keys''
         else
           run_flushes max_chunk_size fs
             (b\<lparr>chunk_sizes := (chunk_sizes b)[g := chunk_sizes b ! g + word_of_nat (length xs)],
                output_keys := write_at (output_keys b) offset (map fst xs),
                output_indices := write_at (output_indices b) offset (map snd xs)\<rparr>))"

definition selectKernel ::
  "select_run \<Rightarrow> u64 list \<Rightarrow> nat \<Rightarrow> nat \<Rightarrow> nat \<Rightarrow> nat \<Rightarrow> select_buffers \<Rightarrow> select_buffers outcome" where
  "selectKernel run keys chunks items warps blocks b =
     bind_outcome (map_outcome (warp_flushes run keys chunks items warps blocks) [0..<blocks * warps])
       (\<lambda>ws. run_flushes (length keys) (interleave (sr_warps run) ws) b)"

section \<open>The launcher\<close>

text \<open>A failed CUDA call ends the process (\<open>CUDACHECK\<close>).\<close>

definition CUDACHECK :: "(string \<Rightarrow> bool) \<Rightarrow> string \<Rightarrow> 'a outcome \<Rightarrow> 'a outcome" where
  "CUDACHECK cuda call rest = (if cuda call then rest else Exits call)"

record SelectLauncher =
  sl_sm_count :: nat
  sl_max_shared_memory :: int
  sl_key_warps_per_block :: nat
  sl_items_per_gpu_per_warp :: nat
  sl_host_splits :: nat

text \<open>The device attributes the launcher asks for.\<close>

record device_attributes =
  MultiProcessorCount :: nat
  MaxSharedMemoryPerMultiprocessor :: nat

definition select_initialize :: "(string \<Rightarrow> bool) \<Rightarrow> device_attributes \<Rightarrow> nat \<Rightarrow> nat \<Rightarrow> SelectLauncher outcome" where
  "select_initialize cuda dev sizeof_key num_splits =
     CUDACHECK cuda ''cudaGetDevice''
     (CUDACHECK cuda ''cudaDeviceGetAttribute''
     (let max_shared = int (MaxSharedMemoryPerMultiprocessor dev) - 4 * 1024;
          warps = 8;
          bytes = nat ((max_shared - int (4 * warps * num_splits)) mod 2 ^ 64);
          items = bytes div (num_splits * warps * (sizeof_key + 4))
      in CUDACHECK cuda ''cudaFuncSetAttribute''
         (Returns \<lparr>sl_sm_count = MultiProcessorCount dev, sl_max_shared_memory = max_shared, sl_key_warps_per_block = warps,
                   sl_items_per_gpu_per_warp = (items div 16) * 16, sl_host_splits = num_splits\<rparr>)))"

text \<open>The filled parts of the chunks are copied to the outputs one behind the other.\<close>

fun copy_splits ::
  "(string \<Rightarrow> bool) \<Rightarrow> select_buffers \<Rightarrow> nat \<Rightarrow> nat list \<Rightarrow> nat \<Rightarrow> u64 list \<times> u32 list \<Rightarrow> (u64 list \<times> u32 list) outcome" where
  "copy_splits cuda b num_keys [] offset out = Returns out"
| "copy_splits cuda b num_keys (i # is) offset (t_output, t_order) =
     (let n = unat (chunk_sizes b ! i)
      in if offset + n > length t_output then Undefined ''copy beyond t_output''
         else
           CUDACHECK cuda ''cudaMemcpyAsync t_output''
           (CUDACHECK cuda ''cudaMemcpyAsync t_order''
           (copy_splits cuda b num_keys is (offset + n)
              (write_at t_output offset (read_at (output_keys b) (i * num_keys) n),
               write_at t_order offset (read_at (output_indices b) (i * num_keys) n)))))"

definition select_launch ::
  "(string \<Rightarrow> bool) \<Rightarrow> select_run \<Rightarrow> SelectLauncher \<Rightarrow> u64 list \<Rightarrow> nat \<Rightarrow> (u64 list \<times> u32 list \<times> u32 list) outcome" where
  "select_launch cuda run l indices num_splits =
     (let n = length indices;
          uninit_keys = (\<lambda>k. map (sr_keys run) [0..<k]);
          uninit_indices = (\<lambda>k. map (sr_indices run) [0..<k])
      in CUDACHECK cuda ''cudaMemsetAsync''
         (if sl_sm_count l = 0 then Exits ''cudaGetLastError''
          else
            bind_outcome
              (selectKernel run indices num_splits (sl_items_per_gpu_per_warp l) (sl_key_warps_per_block l) (sl_sm_count l)
                 \<lparr>chunk_sizes = replicate num_splits 0, output_keys = uninit_keys (n * num_splits),
                  output_indices = uninit_indices (n * num_splits)\<rparr>)
              (\<lambda>b. CUDACHECK cuda ''cudaGetLastError''
                 (if num_splits > sl_host_splits l then Undefined ''copy beyond host_splits_''
                  else
                    CUDACHECK cuda ''cudaMemcpyAsync host_splits''
                    (CUDACHECK cuda ''cudaStreamSynchronize''
                    (bind_outcome (copy_splits cuda b n [0..<num_splits] 0 (uninit_keys n, uninit_indices n))
                       (\<lambda>(t_output, t_order). Returns (t_output, t_order, chunk_sizes b))))))))"

section \<open>The operator\<close>

text \<open>The launchers are static variables, one for each key type, initialised with the number of splits of the first call.\<close>

record select_statics =
  launcher64 :: "SelectLauncher option"
  launcher32 :: "SelectLauncher option"

definition get_launcher ::
  "(string \<Rightarrow> bool) \<Rightarrow> device_attributes \<Rightarrow> dtype \<Rightarrow> nat \<Rightarrow> select_statics \<Rightarrow> (SelectLauncher \<times> select_statics) outcome" where
  "get_launcher cuda dev ty num_splits st =
     (if ty = kInt64
      then case launcher64 st of
             Some l \<Rightarrow> Returns (l, st)
           | None \<Rightarrow> bind_outcome (select_initialize cuda dev 8 num_splits) (\<lambda>l. Returns (l, st\<lparr>launcher64 := Some l\<rparr>))
      else case launcher32 st of
             Some l \<Rightarrow> Returns (l, st)
           | None \<Rightarrow> bind_outcome (select_initialize cuda dev 4 num_splits) (\<lambda>l. Returns (l, st\<lparr>launcher32 := Some l\<rparr>)))"

definition dist_select ::
  "(string \<Rightarrow> bool) \<Rightarrow> device_attributes \<Rightarrow> select_run \<Rightarrow> u64 tensor \<Rightarrow> int \<Rightarrow> select_statics \<Rightarrow>
     ((u64 tensor \<times> u32 tensor \<times> u32 tensor) \<times> select_statics) outcome" where
  "dist_select cuda dev run indices num_splits st =
     (if length (t_shape indices) \<noteq> 1 then Throws ''indices must be 1-dimensional''
      else if num_splits \<le> 0 then Throws ''num_splits must be positive''
      else if \<not> (t_dtype indices = kInt32 \<or> t_dtype indices = kInt64) then Throws ''indices must be int32 or int64''
      else
        bind_outcome (get_launcher cuda dev (t_dtype indices) (nat num_splits) st)
          (\<lambda>(l, st). bind_outcome (select_launch cuda run l (t_data indices) (nat num_splits))
             (\<lambda>(output, order, splits).
                Returns ((vector_tensor (t_dtype indices) output, vector_tensor kInt32 order, vector_tensor kInt32 splits), st))))"

section \<open>Lanes\<close>

text \<open>The pairs that the keys of a set of indices give for a chunk.\<close>

definition chunk_pairs :: "u64 list \<Rightarrow> nat \<Rightarrow> nat \<Rightarrow> nat set \<Rightarrow> (u64 \<times> u32) multiset" where
  "chunk_pairs keys chunks g A =
     image_mset (\<lambda>i. (keys ! i, word_of_nat i)) (mset_set {i \<in> A. i < length keys \<and> unat (keys ! i) mod chunks = g})"

lemma chunk_pairs_empty [simp]: "chunk_pairs keys chunks g {} = {#}"
  by (simp add: chunk_pairs_def)

lemma chunk_pairs_union:
  assumes "A \<inter> B = {}"
  shows "chunk_pairs keys chunks g (A \<union> B) = chunk_pairs keys chunks g A + chunk_pairs keys chunks g B"
proof -
  let ?P = "\<lambda>i. i < length keys \<and> unat (keys ! i) mod chunks = g"
  have "{i \<in> A \<union> B. ?P i} = {i \<in> A. ?P i} \<union> {i \<in> B. ?P i}" by auto
  moreover have "finite {i \<in> A. ?P i}" "finite {i \<in> B. ?P i}" by (auto intro: finite_subset [of _ "{..<length keys}"])
  moreover have "{i \<in> A. ?P i} \<inter> {i \<in> B. ?P i} = {}" using assms by auto
  ultimately show ?thesis by (simp add: chunk_pairs_def mset_set_Union)
qed

lemma chunk_pairs_insert:
  assumes "i \<notin> A"
  shows "chunk_pairs keys chunks g (insert i A) =
    (if i < length keys \<and> unat (keys ! i) mod chunks = g then {#(keys ! i, word_of_nat i)#} else {#}) + chunk_pairs keys chunks g A"
proof -
  have "chunk_pairs keys chunks g (insert i A) = chunk_pairs keys chunks g {i} + chunk_pairs keys chunks g A"
    using chunk_pairs_union [of "{i}" A] assms by simp
  moreover have "{j \<in> {i}. j < length keys \<and> unat (keys ! j) mod chunks = g} =
      (if i < length keys \<and> unat (keys ! i) mod chunks = g then {i} else {})" by auto
  ultimately show ?thesis by (simp add: chunk_pairs_def)
qed

text \<open>The shape of the memory of a warp.\<close>

definition smem_shape :: "nat \<Rightarrow> nat \<Rightarrow> warp_smem \<Rightarrow> bool" where
  "smem_shape chunks items s \<longleftrightarrow>
     length (cnt_smem s) = chunks \<and> length (key_smem s) = chunks * items \<and> length (idx_smem s) = chunks * items"

lemma region_disjoint:
  fixes g h items :: nat
  assumes "g \<noteq> h" "i < items" "j < items"
  shows "g * items + i \<noteq> h * items + j"
proof
  assume e: "g * items + i = h * items + j"
  have "(g * items + i) div items = g" "(h * items + j) div items = h" using assms(2,3) by simp_all
  then show False using e assms(1) by simp
qed

lemma region_le: "g < chunks \<Longrightarrow> c \<le> items \<Longrightarrow> g * items + c \<le> chunks * (items :: nat)"
  using mult_le_mono1 [of "Suc g" chunks items] by simp

lemma region_inside: "g < chunks \<Longrightarrow> i < items \<Longrightarrow> g * items + i < chunks * (items :: nat)"
  using mult_le_mono1 [of "Suc g" chunks items] by simp

text \<open>One key put into its slot appends it to the items of its chunk and leaves the other chunks alone.\<close>

lemma smem_items_insert:
  fixes s :: warp_smem and k :: u64 and i :: u32
  assumes shape: "smem_shape chunks items s" and c: "c < chunks" "cnt_smem s ! c < items" and h: "h < chunks" "cnt_smem s ! h \<le> items"
  defines "s' \<equiv> s\<lparr>cnt_smem := (cnt_smem s)[c := cnt_smem s ! c + 1], key_smem := (key_smem s)[c * items + cnt_smem s ! c := k],
                  idx_smem := (idx_smem s)[c * items + cnt_smem s ! c := i]\<rparr>"
  shows "smem_items items h s' = smem_items items h s @ (if h = c then [(k, i)] else [])"
proof (cases "h = c")
  case True
  have "c * items + cnt_smem s ! c < chunks * items" using c by (rule region_inside)
  then show ?thesis using shape True c by (auto simp: smem_items_def s'_def smem_shape_def)
next
  case False
  have "c * items + cnt_smem s ! c \<noteq> h * items + j" if "j < cnt_smem s ! h" for j
    using region_disjoint [OF False, of j items "cnt_smem s ! c"] that h(2) c(2) by simp
  then show ?thesis using False by (auto simp: smem_items_def s'_def)
qed

text \<open>
  What a warp knows after its lanes took their slots: the new items of every chunk, and for every slot that was taken
  the one lane that took it.
\<close>

definition slots_taken :: "u64 list \<Rightarrow> nat \<Rightarrow> nat \<Rightarrow> nat \<Rightarrow> nat set \<Rightarrow> warp_smem \<Rightarrow> warp_smem \<Rightarrow> (nat \<times> nat) list \<Rightarrow> nat \<Rightarrow> bool" where
  "slots_taken keys chunks items base lanes s s' locals' g \<longleftrightarrow>
     mset (smem_items items g s') = mset (smem_items items g s) + chunk_pairs keys chunks g ((+) base ` lanes) \<and>
     cnt_smem s ! g \<le> cnt_smem s' ! g \<and> cnt_smem s' ! g \<le> items \<and>
     (\<forall>j. cnt_smem s ! g \<le> j \<and> j < cnt_smem s' ! g \<longrightarrow> (\<exists>l \<in> lanes. base + l < length keys \<and> locals' ! l = (g, j)))"

definition lanes_apart :: "u64 list \<Rightarrow> nat \<Rightarrow> nat \<Rightarrow> nat set \<Rightarrow> warp_smem \<Rightarrow> warp_smem \<Rightarrow> (nat \<times> nat) list \<Rightarrow> bool" where
  "lanes_apart keys chunks base lanes s s' locals' \<longleftrightarrow>
     (\<forall>l \<in> lanes. base + l < length keys \<longrightarrow> fst (locals' ! l) < chunks \<and>
        cnt_smem s ! fst (locals' ! l) \<le> snd (locals' ! l) \<and> snd (locals' ! l) < cnt_smem s' ! fst (locals' ! l)) \<and>
     inj_on (\<lambda>l. locals' ! l) {l \<in> lanes. base + l < length keys}"

lemma lanes_skip:
  assumes "\<not> base + lane < length keys"
  shows "slots_taken keys chunks items base (insert lane lanes) s s' locals' g \<longleftrightarrow> slots_taken keys chunks items base lanes s s' locals' g"
    and "lanes_apart keys chunks base (insert lane lanes) s s' locals' \<longleftrightarrow> lanes_apart keys chunks base lanes s s' locals'"
proof -
  have "{l \<in> insert lane lanes. base + l < length keys} = {l \<in> lanes. base + l < length keys}" using assms by auto
  then show "lanes_apart keys chunks base (insert lane lanes) s s' locals' \<longleftrightarrow> lanes_apart keys chunks base lanes s s' locals'"
    using assms by (auto simp: lanes_apart_def)
  have "{i \<in> (+) base ` insert lane lanes. i < length keys \<and> unat (keys ! i) mod chunks = g} =
      {i \<in> (+) base ` lanes. i < length keys \<and> unat (keys ! i) mod chunks = g}" using assms by auto
  then show "slots_taken keys chunks items base (insert lane lanes) s s' locals' g \<longleftrightarrow> slots_taken keys chunks items base lanes s s' locals' g"
    using assms by (auto simp: slots_taken_def chunk_pairs_def)
qed

text \<open>The step from the rest of the lanes to all of them, where the first lane took slot \<open>n\<close> of chunk \<open>c\<close>.\<close>

lemma lanes_step:
  assumes c: "c = unat (keys ! (base + lane)) mod chunks" "c < chunks" and lane: "base + lane < length keys" "lane \<notin> lanes"
    and here: "locals' ! lane = (c, cnt_smem s ! c)"
    and cnt: "\<And>g. g < chunks \<Longrightarrow> cnt_smem t ! g = cnt_smem s ! g + (if g = c then 1 else 0)"
    and new: "\<And>g. g < chunks \<Longrightarrow> smem_items items g t = smem_items items g s @ (if g = c then [(keys ! (base + lane), word_of_nat (base + lane))] else [])"
    and taken: "\<And>g. g < chunks \<Longrightarrow> slots_taken keys chunks items base lanes t s' locals' g"
    and apart: "lanes_apart keys chunks base lanes t s' locals'"
  shows "g < chunks \<Longrightarrow> slots_taken keys chunks items base (insert lane lanes) s s' locals' g"
    and "lanes_apart keys chunks base (insert lane lanes) s s' locals'"
proof -
  have pairs: "chunk_pairs keys chunks g ((+) base ` insert lane lanes) =
      (if g = c then {#(keys ! (base + lane), word_of_nat (base + lane))#} else {#}) + chunk_pairs keys chunks g ((+) base ` lanes)" for g
    using chunk_pairs_insert [of "base + lane" "(+) base ` lanes" keys chunks g] lane c(1) by (auto simp: image_iff)
  show "slots_taken keys chunks items base (insert lane lanes) s s' locals' g" if g: "g < chunks"
  proof -
    note t = taken [OF g, unfolded slots_taken_def]
    have "\<exists>l \<in> insert lane lanes. base + l < length keys \<and> locals' ! l = (g, j)" if j: "cnt_smem s ! g \<le> j" "j < cnt_smem s' ! g" for j
    proof (cases "g = c \<and> j = cnt_smem s ! c")
      case True
      then show ?thesis using here lane(1) by blast
    next
      case False
      then have "cnt_smem t ! g \<le> j" using j(1) cnt [OF g] by auto
      then show ?thesis using t j(2) by blast
    qed
    moreover have "cnt_smem s ! g \<le> cnt_smem s' ! g" using t cnt [OF g] by simp
    ultimately show ?thesis unfolding slots_taken_def pairs using t new [OF g] by auto
  qed
  have low: "fst (locals' ! l) < chunks \<and> cnt_smem s ! fst (locals' ! l) \<le> snd (locals' ! l) \<and>
      snd (locals' ! l) < cnt_smem s' ! fst (locals' ! l) \<and> locals' ! l \<noteq> (c, cnt_smem s ! c)"
    if "l \<in> lanes" "base + l < length keys" for l
  proof -
    have l: "fst (locals' ! l) < chunks" "cnt_smem t ! fst (locals' ! l) \<le> snd (locals' ! l)"
      "snd (locals' ! l) < cnt_smem s' ! fst (locals' ! l)"
      using apart that by (auto simp: lanes_apart_def)
    then show ?thesis using cnt [OF l(1)] by (cases "locals' ! l") (auto split: if_split_asm)
  qed
  have top: "cnt_smem s ! c < cnt_smem s' ! c" using taken [OF c(2)] cnt [OF c(2)] by (simp add: slots_taken_def)
  have "{l \<in> insert lane lanes. base + l < length keys} = insert lane {l \<in> lanes. base + l < length keys}" using lane(1) by auto
  moreover have "inj_on (\<lambda>l. locals' ! l) (insert lane {l \<in> lanes. base + l < length keys})"
    using apart low lane(2) here by (auto simp: lanes_apart_def image_iff) metis
  ultimately show "lanes_apart keys chunks base (insert lane lanes) s s' locals'"
    using low here c(2) top by (auto simp: lanes_apart_def)
qed

lemma insert_lanes_ok:
  assumes "smem_shape chunks items s" "distinct lanes" "0 < chunks" "set lanes \<subseteq> {..<length locals}"
    and "\<forall>g < chunks. cnt_smem s ! g + size (chunk_pairs keys chunks g ((+) base ` set lanes)) \<le> items"
  shows "\<exists>s' locals'. insert_lanes keys chunks items base lanes s locals = Returns (s', locals') \<and> smem_shape chunks items s' \<and>
     length locals' = length locals \<and> (\<forall>g < chunks. slots_taken keys chunks items base (set lanes) s s' locals' g) \<and>
     (\<forall>l. l \<notin> set lanes \<or> length keys \<le> base + l \<longrightarrow> locals' ! l = locals ! l) \<and> lanes_apart keys chunks base (set lanes) s s' locals'"
  using assms
proof (induction lanes arbitrary: s locals)
  case Nil
  then show ?case by (auto simp: slots_taken_def lanes_apart_def)
next
  case (Cons lane lanes)
  let ?idx = "base + lane"
  have pairs: "chunk_pairs keys chunks g ((+) base ` set (lane # lanes)) =
      (if ?idx < length keys \<and> unat (keys ! ?idx) mod chunks = g then {#(keys ! ?idx, word_of_nat ?idx)#} else {#}) +
      chunk_pairs keys chunks g ((+) base ` set lanes)" for g
    using chunk_pairs_insert [of ?idx "(+) base ` set lanes"] Cons.prems(2) by (auto simp: image_iff)
  have d: "distinct lanes" "lane \<notin> set lanes" "lane < length locals" "set lanes \<subseteq> {..<length locals}" using Cons.prems(2,4) by auto
  show ?case
  proof (cases "?idx < length keys")
    case False
    have bound: "\<forall>g < chunks. cnt_smem s ! g + size (chunk_pairs keys chunks g ((+) base ` set lanes)) \<le> items"
      using Cons.prems(5) pairs False by simp
    show ?thesis
      using Cons.IH [OF Cons.prems(1) d(1) Cons.prems(3) d(4) bound] False d(2) lanes_skip [OF False] by (auto simp: Let_def)
  next
    case True
    define c where "c = unat (keys ! ?idx) mod chunks"
    define t where "t = s\<lparr>cnt_smem := (cnt_smem s)[c := cnt_smem s ! c + 1], key_smem := (key_smem s)[c * items + cnt_smem s ! c := keys ! ?idx],
                idx_smem := (idx_smem s)[c * items + cnt_smem s ! c := word_of_nat ?idx]\<rparr>"
    have c: "c < chunks" using Cons.prems(3) by (simp add: c_def)
    have le: "cnt_smem s ! g + size (chunk_pairs keys chunks g ((+) base ` set lanes)) + (if g = c then 1 else 0) \<le> items"
      if "g < chunks" for g
      using Cons.prems(5) [rule_format, OF that] True unfolding pairs c_def by (auto split: if_split_asm)
    have room: "cnt_smem s ! c < items" using le [OF c] by simp
    have shape: "smem_shape chunks items t" using Cons.prems(1) by (simp add: smem_shape_def t_def)
    have cnt: "cnt_smem t ! g = cnt_smem s ! g + (if g = c then 1 else 0)" if "g < chunks" for g
      using Cons.prems(1) that c by (auto simp: smem_shape_def nth_list_update t_def)
    have new: "smem_items items g t = smem_items items g s @ (if g = c then [(keys ! ?idx, word_of_nat ?idx)] else [])"
      if "g < chunks" for g
      using smem_items_insert [OF Cons.prems(1) c room that] le [OF that] by (simp add: t_def)
    have bound: "\<forall>g < chunks. cnt_smem t ! g + size (chunk_pairs keys chunks g ((+) base ` set lanes)) \<le> items"
      using le cnt by (metis (no_types, lifting) add.assoc add.commute)
    have sub: "set lanes \<subseteq> {..<length (locals[lane := (c, cnt_smem s ! c)])}" using d(4) by simp
    obtain s' locals' where r: "insert_lanes keys chunks items base lanes t (locals[lane := (c, cnt_smem s ! c)]) = Returns (s', locals')"
      "smem_shape chunks items s'" "length locals' = length locals"
      "\<forall>g < chunks. slots_taken keys chunks items base (set lanes) t s' locals' g"
      "\<forall>l. l \<notin> set lanes \<or> length keys \<le> base + l \<longrightarrow> locals' ! l = locals[lane := (c, cnt_smem s ! c)] ! l"
      "lanes_apart keys chunks base (set lanes) t s' locals'"
      using Cons.IH [OF shape d(1) Cons.prems(3) sub bound] by auto
    have here: "locals' ! lane = (c, cnt_smem s ! c)" using r(5) d(2,3) by simp
    note step = lanes_step [OF c_def c True d(2) here cnt new r(4) [rule_format] r(6)]
    have "insert_lanes keys chunks items base (lane # lanes) s locals = Returns (s', locals')"
      using r(1) True region_inside [OF c room] Cons.prems(1) by (simp add: Let_def smem_shape_def c_def t_def)
    then show ?thesis using r(2,3,5) step d(2) True by (intro exI [of _ s'] exI [of _ locals']) auto
  qed
qed

section \<open>Warps\<close>

text \<open>Between iterations every counter is at most \<open>items - warpSize\<close>, so that the next iteration finds room.\<close>

definition warp_inv :: "nat \<Rightarrow> nat \<Rightarrow> warp_smem \<Rightarrow> bool" where
  "warp_inv chunks items s \<longleftrightarrow> smem_shape chunks items s \<and> (\<forall>g < chunks. cnt_smem s ! g + warpSize \<le> items)"

definition chunk_items :: "nat \<Rightarrow> flush list \<Rightarrow> (u64 \<times> u32) list" where
  "chunk_items g fs = concat (map snd (filter (\<lambda>f. fst f = g) fs))"

lemma chunk_items_append [simp]: "chunk_items g (fs @ fs') = chunk_items g fs @ chunk_items g fs'"
  by (simp add: chunk_items_def)

lemma chunk_items_distinct:
  assumes "distinct gs"
  shows "chunk_items g (map (\<lambda>g. (g, f g)) gs) = (if g \<in> set gs then f g else [])"
  using assms by (induction gs) (auto simp: chunk_items_def)

lemma nth_fold_reset:
  "g < length cnt \<Longrightarrow> fold (\<lambda>g cnt. cnt[g := 0]) gs cnt ! g = (if g \<in> set gs then 0 else cnt ! g)"
  "length (fold (\<lambda>g cnt. cnt[g := (0 :: nat)]) gs cnt) = length cnt"
  by (induction gs arbitrary: cnt) auto

lemma size_chunk_pairs: "finite A \<Longrightarrow> size (chunk_pairs keys chunks g A) \<le> card A"
  by (simp add: chunk_pairs_def card_mono)

lemma warp_iteration_ok:
  assumes inv: "warp_inv chunks items s" and n: "0 < chunks" "warpSize < items"
  shows "\<exists>fs s'. warp_iteration keys chunks items order base s = Returns (fs, s') \<and> warp_inv chunks items s' \<and>
     list_all (\<lambda>f. fst f < chunks) fs \<and>
     (\<forall>g < chunks. mset (chunk_items g fs) + mset (smem_items items g s') =
        mset (smem_items items g s) + chunk_pairs keys chunks g {base..<base + warpSize})"
proof -
  let ?lanes = "thread_order order warpSize"
  have sh: "smem_shape chunks items s" "\<forall>g < chunks. cnt_smem s ! g + warpSize \<le> items" using inv by (simp_all add: warp_inv_def)
  have img: "(+) base ` set ?lanes = {base..<base + warpSize}"
    unfolding thread_order_ok(2) by (simp add: lessThan_atLeast0 image_add_atLeastLessThan add.commute)
  have "size (chunk_pairs keys chunks g {base..<base + warpSize}) \<le> warpSize" for g
    using size_chunk_pairs [of "{base..<base + warpSize}" keys chunks g] by simp
  then have room: "\<forall>g < chunks. cnt_smem s ! g + size (chunk_pairs keys chunks g ((+) base ` set ?lanes)) \<le> items"
    using sh(2) unfolding img by (meson add_left_mono le_trans)
  obtain s1 locals where r: "insert_lanes keys chunks items base ?lanes s (replicate warpSize (0, 0)) = Returns (s1, locals)"
    "smem_shape chunks items s1" "length locals = warpSize" "\<forall>g < chunks. slots_taken keys chunks items base {..<warpSize} s s1 locals g"
    "\<forall>l. l \<notin> {..<warpSize} \<or> length keys \<le> base + l \<longrightarrow> locals ! l = replicate warpSize (0, 0) ! l"
    "lanes_apart keys chunks base {..<warpSize} s s1 locals"
    using insert_lanes_ok [OF sh(1) thread_order_ok(1) n(1) _ room, of "replicate warpSize (0, 0)"] by (auto simp: thread_order_ok(2))
  let ?full = "full_lanes items locals"
  let ?gs = "map (\<lambda>l. fst (locals ! l)) ?full"
  have full: "l \<in> set ?full \<longleftrightarrow> l < warpSize \<and> base + l < length keys \<and> snd (locals ! l) + warpSize = items" for l
    using r(5) n(2) by (cases "base + l < length keys") (auto simp: full_lanes_def)
  have gs: "g \<in> set ?gs \<longleftrightarrow> items < cnt_smem s1 ! g + warpSize" if g: "g < chunks" for g
  proof
    assume "g \<in> set ?gs"
    then obtain l where l: "l \<in> set ?full" "g = fst (locals ! l)" by auto
    then have "snd (locals ! l) < cnt_smem s1 ! g" "snd (locals ! l) + warpSize = items"
      using r(6) full [of l] by (auto simp: lanes_apart_def)
    then show "items < cnt_smem s1 ! g + warpSize" by simp
  next
    assume "items < cnt_smem s1 ! g + warpSize"
    then have "cnt_smem s ! g \<le> items - warpSize" "items - warpSize < cnt_smem s1 ! g" using sh(2) g n(2) by auto
    then obtain l where "l < warpSize" "base + l < length keys" "locals ! l = (g, items - warpSize)"
      using r(4) g unfolding slots_taken_def by blast
    then show "g \<in> set ?gs" using full [of l] n(2) by force
  qed
  let ?s' = "s1\<lparr>cnt_smem := fold (\<lambda>g cnt. cnt[g := 0]) ?gs (cnt_smem s1)\<rparr>"
  have len: "length (cnt_smem s1) = chunks" using r(2) by (simp add: smem_shape_def)
  have cnt': "cnt_smem ?s' ! g = (if g \<in> set ?gs then 0 else cnt_smem s1 ! g)" if "g < chunks" for g
    using that len by (simp add: nth_fold_reset)
  have below: "l < warpSize \<Longrightarrow> base + l < length keys \<Longrightarrow> fst (locals ! l) < chunks" for l
    using r(6) by (simp add: lanes_apart_def)
  have "inj_on (\<lambda>l. fst (locals ! l)) (set ?full)"
  proof (rule inj_onI)
    fix l l' assume l: "l \<in> set ?full" "l' \<in> set ?full" "fst (locals ! l) = fst (locals ! l')"
    then have "locals ! l = locals ! l'" using full [of l] full [of l'] by (auto intro: prod_eqI)
    then show "l = l'" using r(6) full l(1,2) by (auto simp: lanes_apart_def inj_on_def)
  qed
  moreover have "distinct ?full" by (simp add: full_lanes_def)
  ultimately have dgs: "distinct ?gs" by (simp add: distinct_map)
  have "warp_inv chunks items ?s'"
    using r(2) gs cnt' n(2) by (auto simp: warp_inv_def smem_shape_def nth_fold_reset simp del: set_map)
  moreover have gb: "list_all (\<lambda>f. fst f < chunks) (map (\<lambda>g. (g, smem_items items g s1)) ?gs)"
    using full below by (auto simp: list_all_iff)
  moreover have "list_all (smem_inside items s1) ?gs"
    unfolding list_all_iff
  proof
    fix g assume "g \<in> set ?gs"
    then have g: "g < chunks" using gb unfolding list_all_iff by force
    then have "cnt_smem s1 ! g \<le> items" using r(4) by (simp add: slots_taken_def)
    then show "smem_inside items s1 g" using region_le [OF g] r(2) by (simp add: smem_inside_def smem_shape_def)
  qed
  moreover have "mset (chunk_items g (map (\<lambda>g. (g, smem_items items g s1)) ?gs)) + mset (smem_items items g ?s') =
      mset (smem_items items g s) + chunk_pairs keys chunks g {base..<base + warpSize}" if g: "g < chunks" for g
  proof -
    have "smem_items items g ?s' = (if g \<in> set ?gs then [] else smem_items items g s1)"
      using cnt' [OF g] by (simp add: smem_items_def)
    moreover have "mset (smem_items items g s1) = mset (smem_items items g s) + chunk_pairs keys chunks g {base..<base + warpSize}"
      using r(4) g img by (simp add: slots_taken_def thread_order_ok(2))
    ultimately show ?thesis unfolding chunk_items_distinct [OF dgs] by simp
  qed
  ultimately show ?thesis using r(1) by (auto simp: warp_iteration_def Let_def)
qed

lemma intervals_disjoint:
  assumes "warpSize dvd a" "warpSize dvd b" "a \<noteq> b"
  shows "{a..<a + warpSize} \<inter> {b..<b + warpSize} = {}"
proof -
  have "i div warpSize = a div warpSize \<and> a = (a div warpSize) * warpSize" if "warpSize dvd a" "i \<in> {a..<a + warpSize}" for i a
    using that by (auto simp: warpSize_def elim!: dvdE)
  then have "a = b" if "i \<in> {a..<a + warpSize}" "i \<in> {b..<b + warpSize}" for i
    using that assms(1,2) by metis
  then show ?thesis using assms(3) by blast
qed

lemma warp_loop_ok:
  assumes "warp_inv chunks items s" "distinct bases" "\<forall>b \<in> set bases. warpSize dvd b" and n: "0 < chunks" "warpSize < items"
  shows "\<exists>fs s'. warp_loop keys chunks items lanes bases s = Returns (fs, s') \<and> warp_inv chunks items s' \<and> list_all (\<lambda>f. fst f < chunks) fs \<and>
     (\<forall>g < chunks. mset (chunk_items g fs) + mset (smem_items items g s') =
        mset (smem_items items g s) + chunk_pairs keys chunks g (\<Union>b \<in> set bases. {b..<b + warpSize}))"
  using assms(1-3)
proof (induction bases arbitrary: s)
  case Nil
  then show ?case by (simp add: chunk_items_def)
next
  case (Cons base bases)
  obtain fs s1 where i: "warp_iteration keys chunks items (lanes base) base s = Returns (fs, s1)" "warp_inv chunks items s1"
    "list_all (\<lambda>f. fst f < chunks) fs"
    "\<forall>g < chunks. mset (chunk_items g fs) + mset (smem_items items g s1) =
        mset (smem_items items g s) + chunk_pairs keys chunks g {base..<base + warpSize}"
    using warp_iteration_ok [OF Cons.prems(1) n] by blast
  obtain fs' s' where l: "warp_loop keys chunks items lanes bases s1 = Returns (fs', s')" "list_all (\<lambda>f. fst f < chunks) fs'"
    "warp_inv chunks items s'"
    "\<forall>g < chunks. mset (chunk_items g fs') + mset (smem_items items g s') =
        mset (smem_items items g s1) + chunk_pairs keys chunks g (\<Union>b \<in> set bases. {b..<b + warpSize})"
    using Cons.IH [OF i(2)] Cons.prems(2,3) by auto
  have "{base..<base + warpSize} \<inter> (\<Union>b \<in> set bases. {b..<b + warpSize}) = {}"
    using intervals_disjoint [of base] Cons.prems(2,3) by fastforce
  then have u: "chunk_pairs keys chunks g (\<Union>b \<in> set (base # bases). {b..<b + warpSize}) =
      chunk_pairs keys chunks g {base..<base + warpSize} + chunk_pairs keys chunks g (\<Union>b \<in> set bases. {b..<b + warpSize})" for g
    by (simp add: chunk_pairs_union)
  have "mset (chunk_items g (fs @ fs')) + mset (smem_items items g s') =
      mset (smem_items items g s) + chunk_pairs keys chunks g (\<Union>b \<in> set (base # bases). {b..<b + warpSize})" if "g < chunks" for g
  proof -
    have "mset (chunk_items g (fs @ fs')) + mset (smem_items items g s') =
        mset (chunk_items g fs) + (mset (chunk_items g fs') + mset (smem_items items g s'))" by simp
    also have "\<dots> = (mset (chunk_items g fs) + mset (smem_items items g s1)) + chunk_pairs keys chunks g (\<Union>b \<in> set bases. {b..<b + warpSize})"
      using l(4) that by (simp only: add.assoc)
    finally show ?thesis using i(4) that unfolding u by (simp only: add.assoc)
  qed
  then show ?case using i(1,3) l(1-3) by auto
qed

lemma warp_tail_ok:
  assumes inv: "warp_inv chunks items s"
  obtains fs where "warp_tail chunks items s = Returns fs" "list_all (\<lambda>f. fst f < chunks) fs"
    "\<And>g. g < chunks \<Longrightarrow> chunk_items g fs = smem_items items g s"
proof -
  let ?rest = "filter (\<lambda>g. cnt_smem s ! g \<noteq> 0) [0..<chunks]"
  let ?fs = "map (\<lambda>g. (g, smem_items items g s)) ?rest"
  have "smem_inside items s g" if "g < chunks" for g
    using region_le [OF that, of "cnt_smem s ! g" items] inv that by (auto simp: warp_inv_def smem_shape_def smem_inside_def)
  then have "warp_tail chunks items s = Returns ?fs" by (simp add: warp_tail_def Let_def list_all_iff)
  moreover have "chunk_items g ?fs = smem_items items g s" if "g < chunks" for g
    using that by (subst chunk_items_distinct) (auto simp: smem_items_def)
  ultimately show thesis using that [of ?fs] by (simp add: list_all_iff)
qed

lemma chunk_pairs_cong: "A \<inter> {..<length keys} = B \<inter> {..<length keys} \<Longrightarrow> chunk_pairs keys chunks g A = chunk_pairs keys chunks g B"
  unfolding chunk_pairs_def by (rule arg_cong [where f = "image_mset _"], rule arg_cong [where f = mset_set]) blast

text \<open>The keys of warp \<open>w\<close> of \<open>W\<close> warps are those whose group of 32 has a number that is \<open>w\<close> modulo \<open>W\<close>.\<close>

lemma warp_bases:
  assumes w: "w < W" and p: "padded = (length keys + warpSize - 1) div warpSize * warpSize"
  shows "(\<Union>b \<in> set (strided (warpSize * w) (warpSize * W) padded). {b..<b + warpSize}) \<inter> {..<length keys} =
    {i. i div warpSize mod W = w} \<inter> {..<length keys}"
proof (intro equalityI subsetI)
  have set_bases: "set (strided (warpSize * w) (warpSize * W) padded) = {k. k < padded \<and> (\<exists>j. k = warpSize * w + j * (warpSize * W))}"
    using set_strided [of "warpSize * W"] w by (simp add: warpSize_def)
  fix i
  {
    assume "i \<in> (\<Union>b \<in> set (strided (warpSize * w) (warpSize * W) padded). {b..<b + warpSize}) \<inter> {..<length keys}"
    then obtain j where "warpSize * (w + j * W) \<le> i" "i < warpSize * (w + j * W) + warpSize" "i < length keys"
      unfolding set_bases by (auto simp: algebra_simps)
    moreover from this have "i div warpSize = w + j * W" by (auto simp: warpSize_def)
    ultimately show "i \<in> {i. i div warpSize mod W = w} \<inter> {..<length keys}" using w by simp
  next
    assume "i \<in> {i. i div warpSize mod W = w} \<inter> {..<length keys}"
    then have i: "i div warpSize mod W = w" "i < length keys" by auto
    define j where "j = i div warpSize div W"
    have q: "i div warpSize = w + j * W" using i(1) by (metis j_def add.commute div_mult_mod_eq)
    have "warpSize * (i div warpSize) \<le> i" "i < warpSize * (i div warpSize) + warpSize" by (auto simp: warpSize_def)
    moreover have "warpSize * (i div warpSize) < padded" using i(2) unfolding p warpSize_def by linarith
    moreover have "warpSize * (i div warpSize) = warpSize * w + j * (warpSize * W)" unfolding q by (simp add: algebra_simps)
    ultimately show "i \<in> (\<Union>b \<in> set (strided (warpSize * w) (warpSize * W) padded). {b..<b + warpSize}) \<inter> {..<length keys}"
      unfolding set_bases using i(2) by auto
  }
qed

lemma warp_flushes_ok:
  assumes w: "w < blocks * warps" and n: "0 < chunks" "chunks \<le> warpSize" "warpSize < items" "length keys < 2 ^ 31"
  shows "\<exists>fs. warp_flushes run keys chunks items warps blocks w = Returns fs \<and> list_all (\<lambda>f. fst f < chunks) fs \<and>
     (\<forall>g < chunks. mset (chunk_items g fs) = chunk_pairs keys chunks g {i. i div warpSize mod (blocks * warps) = w})"
proof -
  let ?s = "initial_smem run chunks items warps (w mod warps)"
  let ?padded = "(length keys + warpSize - 1) div warpSize * warpSize"
  let ?bases = "strided (warpSize * w) (warpSize * (blocks * warps)) ?padded"
  have warps: "0 < warps" using w by (cases warps) auto
  have "?padded < 2 ^ 32" using n(4) by (simp add: warpSize_def)
  then have padded: "?padded mod 2 ^ 32 = ?padded" by simp
  have start: "warpSize * (w mod warps) + w div warps * (warpSize * warps) = warpSize * w"
    by (metis add.commute add_mult_distrib2 div_mult_mod_eq mult.commute mult.left_commute)
  have zero: "cnt_smem ?s ! g = 0" if "g < chunks" for g
  proof -
    have "w mod warps * chunks + g < Suc (w mod warps) * chunks" using that by simp
    also have "\<dots> \<le> warps * warpSize" using warps n(2) by (intro mult_le_mono) (simp_all add: Suc_leI)
    finally show ?thesis using that by (simp add: initial_smem_def mult.commute)
  qed
  then have inv: "warp_inv chunks items ?s" using n(3) by (simp add: warp_inv_def smem_shape_def) (simp add: initial_smem_def)
  have empty: "smem_items items g ?s = []" if "g < chunks" for g using zero [OF that] by (simp add: smem_items_def)
  have "0 < warpSize * (blocks * warps)" using w by (cases "blocks * warps") (simp_all add: warpSize_def)
  then have dvd: "\<forall>b \<in> set ?bases. warpSize dvd b" by (auto simp: set_strided)
  obtain fs s' where l: "warp_loop keys chunks items (sr_lanes run) ?bases ?s = Returns (fs, s')" "warp_inv chunks items s'"
    "list_all (\<lambda>f. fst f < chunks) fs"
    "\<forall>g < chunks. mset (chunk_items g fs) + mset (smem_items items g s') =
        mset (smem_items items g ?s) + chunk_pairs keys chunks g (\<Union>b \<in> set ?bases. {b..<b + warpSize})"
    using warp_loop_ok [OF inv distinct_strided dvd n(1,3)] by blast
  obtain ft where t: "warp_tail chunks items s' = Returns ft" "list_all (\<lambda>f. fst f < chunks) ft"
    "\<And>g. g < chunks \<Longrightarrow> chunk_items g ft = smem_items items g s'"
    using warp_tail_ok [OF l(2)] by blast
  have "warp_flushes run keys chunks items warps blocks w = Returns (fs @ ft)"
    using l(1) t(1) unfolding warp_flushes_def Let_def padded start by (simp add: mult.assoc mult.commute [of warps])
  moreover have "mset (chunk_items g (fs @ ft)) = chunk_pairs keys chunks g {i. i div warpSize mod (blocks * warps) = w}"
    if g: "g < chunks" for g
    using l(4) [rule_format, OF g] empty [OF g] t(3) [OF g] chunk_pairs_cong [OF warp_bases [OF w refl]] by simp
  ultimately show ?thesis using l(3) t(2) by auto
qed

section \<open>The global buffers\<close>

lemma mset_interleave: "mset (interleave sched threads) = mset (concat threads)"
proof (induction sched threads rule: interleave.induct)
  case (2 i sched threads)
  show ?case
  proof (cases "i < length threads \<and> threads ! i \<noteq> []")
    case True
    then obtain x xs where x: "threads ! i = x # xs" by (cases "threads ! i") auto
    have "mset (concat threads) = add_mset x (mset (concat (threads[i := xs])))"
      using True x concat_split_nth [of i threads] concat_split_nth [of i "threads[i := xs]"] by simp
    then show ?thesis using True x 2(1) by simp
  next
    case False
    then show ?thesis using 2(2) by auto
  qed
qed simp

lemma chunk_items_perm: "mset fs = mset fs' \<Longrightarrow> mset (chunk_items g fs) = mset (chunk_items g fs')"
proof -
  have "mset (chunk_items g fs) = \<Sum>\<^sub># (image_mset (mset \<circ> snd) (filter_mset (\<lambda>f. fst f = g) (mset fs)))" for fs
    by (induction fs) (auto simp: chunk_items_def)
  then show "mset fs = mset fs' \<Longrightarrow> mset (chunk_items g fs) = mset (chunk_items g fs')" by simp
qed

text \<open>The buffers hold the items \<open>L g\<close> at the start of the part of every chunk \<open>g\<close>.\<close>

definition buffers_hold :: "nat \<Rightarrow> nat \<Rightarrow> (nat \<Rightarrow> (u64 \<times> u32) list) \<Rightarrow> select_buffers \<Rightarrow> bool" where
  "buffers_hold m chunks L b \<longleftrightarrow>
     length (chunk_sizes b) = chunks \<and> length (output_keys b) = chunks * m \<and> length (output_indices b) = chunks * m \<and>
     (\<forall>g < chunks. length (L g) \<le> m \<and> unat (chunk_sizes b ! g) = length (L g) \<and>
        read_at (output_keys b) (g * m) (length (L g)) = map fst (L g) \<and>
        read_at (output_indices b) (g * m) (length (L g)) = map snd (L g))"

lemma read_at_extended:
  assumes "off + n + length xs \<le> length buf"
  shows "read_at (write_at buf (off + n) xs) off (n + length xs) = read_at buf off n @ xs"
  using assms by (simp add: read_at_add read_at_write_at_disjoint read_at_write_at_same)

lemma chunk_regions:
  fixes g h m a b :: nat
  assumes "g \<noteq> h" "a \<le> m" "b \<le> m"
  shows "h * m + a \<le> g * m \<or> g * m + b \<le> h * m"
proof (cases "h < g")
  case True
  then have "Suc h * m \<le> g * m" by (intro mult_le_mono1) simp
  then show ?thesis using assms by simp
next
  case False
  then have "Suc g * m \<le> h * m" using assms(1) by (intro mult_le_mono1) simp
  then show ?thesis using assms by simp
qed

lemma buffers_hold_flush:
  assumes h: "buffers_hold m chunks L b" and g: "g < chunks" and n: "length (L g) + length xs \<le> m" "m < 2 ^ 32"
  defines "off \<equiv> g * m + unat (chunk_sizes b ! g)"
  shows "off + length xs \<le> length (output_keys b)"
    "buffers_hold m chunks (L(g := L g @ xs)) (b\<lparr>chunk_sizes := (chunk_sizes b)[g := chunk_sizes b ! g + word_of_nat (length xs)],
       output_keys := write_at (output_keys b) off (map fst xs), output_indices := write_at (output_indices b) off (map snd xs)\<rparr>)"
proof -
  have len: "length (chunk_sizes b) = chunks" "length (output_keys b) = chunks * m" "length (output_indices b) = chunks * m"
    and at: "\<And>k. k < chunks \<Longrightarrow> length (L k) \<le> m \<and> unat (chunk_sizes b ! k) = length (L k) \<and>
        read_at (output_keys b) (k * m) (length (L k)) = map fst (L k) \<and> read_at (output_indices b) (k * m) (length (L k)) = map snd (L k)"
    using h by (auto simp: buffers_hold_def)
  have off: "off = g * m + length (L g)" using at [OF g] by (simp add: off_def)
  have "Suc g * m \<le> chunks * m" using g by (intro mult_le_mono1) simp
  then have fits: "g * m + length (L g) + length xs \<le> chunks * m" using n(1) by simp
  then show "off + length xs \<le> length (output_keys b)" using off len by simp
  have sum: "unat (chunk_sizes b ! g + word_of_nat (length xs)) = length (L g) + length xs"
    using at [OF g] n by (simp add: unat_word_ariths unat_of_nat)
  have same: "read_at (write_at (output_keys b) off (map fst xs)) (g * m) (length (L g) + length xs) = map fst (L g @ xs)"
    "read_at (write_at (output_indices b) off (map snd xs)) (g * m) (length (L g) + length xs) = map snd (L g @ xs)"
    using read_at_extended [of "g * m" "length (L g)" "map fst xs" "output_keys b"]
      read_at_extended [of "g * m" "length (L g)" "map snd xs" "output_indices b"] at [OF g] fits len unfolding off by simp_all
  have other: "read_at (write_at (output_keys b) off (map fst xs)) (k * m) (length (L k)) = map fst (L k)"
    "read_at (write_at (output_indices b) off (map snd xs)) (k * m) (length (L k)) = map snd (L k)" if "k < chunks" "k \<noteq> g" for k
  proof -
    have "k * m + length (L k) \<le> off \<or> off + length xs \<le> k * m"
      using chunk_regions [of g k "length (L k)" m "length (L g) + length xs"] that(2) at [OF that(1)] n(1) unfolding off by auto
    then show "read_at (write_at (output_keys b) off (map fst xs)) (k * m) (length (L k)) = map fst (L k)"
      "read_at (write_at (output_indices b) off (map snd xs)) (k * m) (length (L k)) = map snd (L k)"
      using read_at_write_at_disjoint [of off "map fst xs" "output_keys b" "k * m" "length (L k)"]
        read_at_write_at_disjoint [of off "map snd xs" "output_indices b" "k * m" "length (L k)"] fits len off at [OF that(1)] by simp_all
  qed
  have "length (write_at (output_keys b) off (map fst xs)) = chunks * m" "length (write_at (output_indices b) off (map snd xs)) = chunks * m"
    using fits len off by simp_all
  then show "buffers_hold m chunks (L(g := L g @ xs)) (b\<lparr>chunk_sizes := (chunk_sizes b)[g := chunk_sizes b ! g + word_of_nat (length xs)],
       output_keys := write_at (output_keys b) off (map fst xs), output_indices := write_at (output_indices b) off (map snd xs)\<rparr>)"
    using len at sum same other n(1) g by (auto simp: buffers_hold_def nth_list_update)
qed

lemma run_flushes_ok:
  assumes "buffers_hold m chunks L b" "list_all (\<lambda>f. fst f < chunks) fs" "m < 2 ^ 32"
    and "\<forall>g < chunks. length (L g) + length (chunk_items g fs) \<le> m"
  shows "\<exists>b'. run_flushes m fs b = Returns b' \<and> buffers_hold m chunks (\<lambda>g. L g @ chunk_items g fs) b'"
  using assms
proof (induction fs arbitrary: b L)
  case Nil
  then show ?case by (simp add: chunk_items_def)
next
  case (Cons f fs)
  obtain g xs where f: "f = (g, xs)" by (cases f)
  have ci: "chunk_items k (f # fs) = (if k = g then xs else []) @ chunk_items k fs" for k by (simp add: chunk_items_def f)
  have g: "g < chunks" using Cons.prems(2) f by simp
  have n: "length (L g) + length xs \<le> m" using Cons.prems(4) [rule_format, OF g] unfolding ci by simp
  note step = buffers_hold_flush [OF Cons.prems(1) g n Cons.prems(3)]
  have "length ((L(g := L g @ xs)) k) + length (chunk_items k fs) \<le> m" if "k < chunks" for k
    using Cons.prems(4) [rule_format, OF that] unfolding ci by (cases "k = g") auto
  then obtain b' where "run_flushes m fs (b\<lparr>chunk_sizes := (chunk_sizes b)[g := chunk_sizes b ! g + word_of_nat (length xs)],
       output_keys := write_at (output_keys b) (g * m + unat (chunk_sizes b ! g)) (map fst xs),
       output_indices := write_at (output_indices b) (g * m + unat (chunk_sizes b ! g)) (map snd xs)\<rparr>) = Returns b'"
    "buffers_hold m chunks (\<lambda>k. (L(g := L g @ xs)) k @ chunk_items k fs) b'"
    using Cons.IH [OF step(2) _ Cons.prems(3)] Cons.prems(2) by auto
  moreover have "(\<lambda>k. (L(g := L g @ xs)) k @ chunk_items k fs) = (\<lambda>k. L k @ chunk_items k (f # fs))" unfolding ci by auto
  ultimately show ?case using step(1) by (auto simp: f Let_def)
qed

section \<open>A launch\<close>

lemma chunk_pairs_split:
  "(\<Sum>w<k. chunk_pairs keys chunks g {i. f i = w}) = chunk_pairs keys chunks g {i. f i < (k :: nat)}"
proof (induction k)
  case (Suc k)
  have "{i. f i < Suc k} = {i. f i < k} \<union> {i. f i = k}" "{i. f i < k} \<inter> {i. f i = k} = {}" by auto
  then show ?case using Suc by (simp add: chunk_pairs_union)
qed simp

lemma sum_chunk_items:
  assumes "list_all2 (\<lambda>w fs. \<forall>g < chunks. mset (chunk_items g fs) = F g w) ws ts" "g < chunks"
  shows "mset (chunk_items g (concat ts)) = sum_list (map (F g) ws)"
  using assms by (induction ws ts rule: list_all2_induct) (auto simp: chunk_items_def)

lemma selectKernel_ok:
  assumes n: "0 < chunks" "chunks \<le> warpSize" "warpSize < items" "length keys < 2 ^ 31" "0 < blocks * warps"
    and b: "chunk_sizes b = replicate chunks 0" "length (output_keys b) = chunks * length keys"
      "length (output_indices b) = chunks * length keys"
  shows "\<exists>b' L. selectKernel run keys chunks items warps blocks b = Returns b' \<and> buffers_hold (length keys) chunks L b' \<and>
     (\<forall>g < chunks. mset (L g) = chunk_pairs keys chunks g UNIV)"
proof -
  let ?W = "blocks * warps"
  let ?F = "\<lambda>g w. chunk_pairs keys chunks g {i. i div warpSize mod ?W = w}"
  have "\<forall>w \<in> set [0..<?W]. \<exists>fs. warp_flushes run keys chunks items warps blocks w = Returns fs \<and>
      (list_all (\<lambda>f. fst f < chunks) fs \<and> (\<forall>g < chunks. mset (chunk_items g fs) = ?F g w))"
    using warp_flushes_ok [OF _ n(1-4), of _ blocks warps] by auto
  then obtain ts where ts: "map_outcome (warp_flushes run keys chunks items warps blocks) [0..<?W] = Returns ts"
    "list_all2 (\<lambda>w fs. list_all (\<lambda>f. fst f < chunks) fs \<and> (\<forall>g < chunks. mset (chunk_items g fs) = ?F g w)) [0..<?W] ts"
    by (rule map_outcome_obtain)
  let ?fs = "interleave (sr_warps run) ts"
  have "list_all (\<lambda>f. fst f < chunks) fs" if "fs \<in> set ts" for fs
    using ts(2) that by (auto simp: list_all2_conv_all_nth in_set_conv_nth)
  then have below: "list_all (\<lambda>f. fst f < chunks) ?fs" by (auto simp: list_all_iff set_interleave)
  have items: "mset (chunk_items g ?fs) = chunk_pairs keys chunks g UNIV" if g: "g < chunks" for g
  proof -
    have "mset (chunk_items g ?fs) = mset (chunk_items g (concat ts))" by (rule chunk_items_perm [OF mset_interleave])
    also have "\<dots> = sum_list (map (?F g) [0..<?W])"
      by (rule sum_chunk_items [OF _ g]) (rule list_all2_mono [OF ts(2)], simp)
    also have "\<dots> = (\<Sum>w<?W. ?F g w)" by (simp add: sum_list_distinct_conv_sum_set lessThan_atLeast0)
    also have "\<dots> = chunk_pairs keys chunks g UNIV" using n(5) unfolding chunk_pairs_split by (intro chunk_pairs_cong) auto
    finally show ?thesis .
  qed
  have "size (chunk_pairs keys chunks g UNIV) \<le> length keys" for g
    using size_chunk_pairs [of "{..<length keys}" keys chunks g] chunk_pairs_cong [of UNIV keys "{..<length keys}" chunks g] by simp
  then have "\<forall>g < chunks. length ([] :: (u64 \<times> u32) list) + length (chunk_items g ?fs) \<le> length keys" using items by (metis add_0 list.size(3) size_mset)
  moreover have "buffers_hold (length keys) chunks (\<lambda>_. []) b" using b by (simp add: buffers_hold_def)
  ultimately obtain b' where "run_flushes (length keys) ?fs b = Returns b'" "buffers_hold (length keys) chunks (\<lambda>g. chunk_items g ?fs) b'"
    using run_flushes_ok [OF _ below, of "length keys" "\<lambda>_. []" b] n(4) by auto
  then show ?thesis using ts(1) items by (auto simp: selectKernel_def)
qed

lemma CUDACHECK_ok: "\<forall>c. cuda c \<Longrightarrow> CUDACHECK cuda call rest = rest"
  by (simp add: CUDACHECK_def)

lemma copy_splits_ok:
  assumes h: "buffers_hold num chunks L b" and cuda: "\<forall>c. cuda c"
  shows "\<forall>g \<in> set gs. g < chunks \<Longrightarrow> offset + length (concat (map L gs)) \<le> length out \<Longrightarrow> length out' = length out \<Longrightarrow>
     copy_splits cuda b num gs offset (out, out') =
       Returns (write_at out offset (map fst (concat (map L gs))), write_at out' offset (map snd (concat (map L gs))))"
proof (induction gs arbitrary: offset out out')
  case (Cons g gs)
  have g: "unat (chunk_sizes b ! g) = length (L g)" "read_at (output_keys b) (g * num) (length (L g)) = map fst (L g)"
    "read_at (output_indices b) (g * num) (length (L g)) = map snd (L g)"
    using h Cons.prems(1) by (auto simp: buffers_hold_def)
  have n: "offset + length (L g) + length (concat (map L gs)) \<le> length out" using Cons.prems(2) by simp
  have "copy_splits cuda b num gs (offset + length (L g)) (write_at out offset (map fst (L g)), write_at out' offset (map snd (L g))) =
      Returns (write_at out offset (map fst (L g) @ map fst (concat (map L gs))), write_at out' offset (map snd (L g) @ map snd (concat (map L gs))))"
    using Cons.IH [of "offset + length (L g)" "write_at out offset (map fst (L g))" "write_at out' offset (map snd (L g))"] Cons.prems n
      write_at_consecutive [of "offset + length (L g)" offset "map fst (L g)" "map fst (concat (map L gs))" out]
      write_at_consecutive [of "offset + length (L g)" offset "map snd (L g)" "map snd (concat (map L gs))" out'] by simp
  then show ?case using g n by (simp add: Let_def CUDACHECK_ok [OF cuda])
qed simp

text \<open>The indices of the keys of one chunk, in the order the launch gave them.\<close>

lemma mset_image_list: "mset xs = image_mset f M \<Longrightarrow> \<exists>ys. xs = map f ys \<and> mset ys = M"
proof (induction xs arbitrary: M)
  case (Cons x xs)
  then obtain y M' where "M = add_mset y M'" "f y = x" "image_mset f M' = mset xs" using msed_map_invR [of f M x "mset xs"] by auto
  then show ?case using Cons.IH [of M'] by (metis list.simps(9) mset.simps(2))
qed simp

definition partition_of :: "u64 list \<Rightarrow> nat \<Rightarrow> nat list list \<Rightarrow> bool" where
  "partition_of keys chunks os \<longleftrightarrow>
     length os = chunks \<and> (\<forall>g < chunks. mset (os ! g) = mset (filter (\<lambda>i. unat (keys ! i) mod chunks = g) [0..<length keys]))"

lemma length_partition:
  assumes "partition_of keys chunks os" "0 < chunks"
  shows "length (concat os) = length keys"
proof -
  let ?f = "\<lambda>i. unat (keys ! i) mod chunks"
  have "length (filter (\<lambda>i. ?f i < Suc k) is) = length (filter (\<lambda>i. ?f i < k) is) + length (filter (\<lambda>i. ?f i = k) is)" for k "is"
    by (induction "is") auto
  then have part: "(\<Sum>g<k. length (filter (\<lambda>i. ?f i = g) is)) = length (filter (\<lambda>i. ?f i < k) is)" for k "is"
    by (induction k) simp_all
  have "length (concat os) = (\<Sum>g<chunks. length (os ! g))"
    using assms(1) by (simp add: length_concat sum_list_sum_nth partition_of_def lessThan_atLeast0)
  also have "\<dots> = (\<Sum>g<chunks. length (filter (\<lambda>i. ?f i = g) [0..<length keys]))"
    using assms(1) unfolding partition_of_def by (intro sum.cong refl) (metis lessThan_iff size_mset)
  also have "\<dots> = length keys" unfolding part using assms(2) by simp
  finally show ?thesis .
qed

lemma set_partition:
  "partition_of keys chunks os \<Longrightarrow> g < chunks \<Longrightarrow> set (os ! g) = {i. i < length keys \<and> unat (keys ! i) mod chunks = g}"
  unfolding partition_of_def by (drule conjunct2, drule spec, drule (1) mp, drule mset_eq_setD) auto

lemma partition_of_mset:
  assumes p: "partition_of keys chunks os" and n: "0 < chunks"
  shows "length os = chunks \<and> mset (concat os) = mset [0..<length keys] \<and> (\<forall>g < chunks. \<forall>i \<in> set (os ! g). unat (keys ! i) mod chunks = g)"
proof -
  have len: "length os = chunks" using p by (simp add: partition_of_def)
  have "set (concat os) = {..<length keys}"
  proof (intro equalityI subsetI)
    fix i assume "i \<in> set (concat os)"
    then show "i \<in> {..<length keys}" using set_partition [OF p] len by (auto simp: in_set_conv_nth [of _ os])
  next
    fix i assume "i \<in> {..<length keys}"
    moreover have "unat (keys ! i) mod chunks < chunks" using n by simp
    ultimately have "i \<in> set (os ! (unat (keys ! i) mod chunks))" "os ! (unat (keys ! i) mod chunks) \<in> set os"
      using set_partition [OF p] len by auto
    then show "i \<in> set (concat os)" by auto
  qed
  moreover have "distinct (concat os)"
    using length_partition [OF p n] \<open>set (concat os) = {..<length keys}\<close> by (intro card_distinct) simp
  ultimately have "mset (concat os) = mset [0..<length keys]"
    using mset_set_set [of "concat os"] by (simp add: lessThan_atLeast0)
  then show ?thesis using len set_partition [OF p] by auto
qed

lemma select_launch_ok:
  assumes n: "0 < chunks" "chunks \<le> warpSize" "warpSize < sl_items_per_gpu_per_warp l" "length keys < 2 ^ 31"
    and l: "0 < sl_sm_count l" "0 < sl_key_warps_per_block l" "chunks \<le> sl_host_splits l" and cuda: "\<forall>c. cuda c"
  shows "\<exists>os. partition_of keys chunks os \<and> select_launch cuda run l keys chunks =
     Returns (map (\<lambda>i. keys ! i) (concat os), map word_of_nat (concat os), map (\<lambda>is. word_of_nat (length is)) os)"
proof -
  let ?b = "\<lparr>chunk_sizes = replicate chunks 0, output_keys = map (sr_keys run) [0..<length keys * chunks],
             output_indices = map (sr_indices run) [0..<length keys * chunks]\<rparr>"
  obtain b L where k: "selectKernel run keys chunks (sl_items_per_gpu_per_warp l) (sl_key_warps_per_block l) (sl_sm_count l) ?b = Returns b"
    "buffers_hold (length keys) chunks L b" "\<forall>g < chunks. mset (L g) = chunk_pairs keys chunks g UNIV"
    using selectKernel_ok [OF n, of "sl_sm_count l" "sl_key_warps_per_block l" ?b run] l by auto
  let ?p = "\<lambda>i. (keys ! i, word_of_nat i :: u32)"
  have "\<exists>is. L g = map ?p is \<and> mset is = mset (filter (\<lambda>i. unat (keys ! i) mod chunks = g) [0..<length keys])" if "g < chunks" for g
  proof -
    have "{i. i < length keys \<and> unat (keys ! i) mod chunks = g} = set (filter (\<lambda>i. unat (keys ! i) mod chunks = g) [0..<length keys])" by auto
    then have "mset_set {i. i < length keys \<and> unat (keys ! i) mod chunks = g} = mset (filter (\<lambda>i. unat (keys ! i) mod chunks = g) [0..<length keys])"
      by (simp only: mset_set_set distinct_filter distinct_upt)
    then show ?thesis using mset_image_list [of "L g" ?p] k(3) that by (simp add: chunk_pairs_def)
  qed
  then have "\<forall>g. \<exists>is. g < chunks \<longrightarrow> L g = map ?p is \<and> mset is = mset (filter (\<lambda>i. unat (keys ! i) mod chunks = g) [0..<length keys])"
    by blast
  then obtain Is where Is: "\<forall>g. g < chunks \<longrightarrow> L g = map ?p (Is g) \<and> mset (Is g) = mset (filter (\<lambda>i. unat (keys ! i) mod chunks = g) [0..<length keys])"
    by (rule choice [THEN exE])
  let ?os = "map Is [0..<chunks]"
  have part: "partition_of keys chunks ?os" using Is by (simp add: partition_of_def)
  have "map L [0..<chunks] = map (map ?p) ?os" using Is by simp
  then have L: "concat (map L [0..<chunks]) = map ?p (concat ?os)" by (simp only: map_concat)
  have "copy_splits cuda b (length keys) [0..<chunks] 0 (map (sr_keys run) [0..<length keys], map (sr_indices run) [0..<length keys]) =
      Returns (map (\<lambda>i. keys ! i) (concat ?os), map word_of_nat (concat ?os))"
    using copy_splits_ok [OF k(2) cuda, of "[0..<chunks]" 0 "map (sr_keys run) [0..<length keys]" "map (sr_indices run) [0..<length keys]"]
      length_partition [OF part n(1)] unfolding L by (simp add: write_at_def comp_def)
  moreover have "chunk_sizes b = map (\<lambda>is. word_of_nat (length is)) ?os"
  proof (rule nth_equalityI)
    show "length (chunk_sizes b) = length (map (\<lambda>is. word_of_nat (length is)) ?os)" using k(2) by (simp add: buffers_hold_def)
    fix g assume "g < length (chunk_sizes b)"
    then have g: "g < chunks" "unat (chunk_sizes b ! g) = length (Is g)" using k(2) Is by (auto simp: buffers_hold_def)
    have "chunk_sizes b ! g = word_of_nat (unat (chunk_sizes b ! g))" by simp
    then show "chunk_sizes b ! g = map (\<lambda>is. word_of_nat (length is)) ?os ! g" using g by simp
  qed
  ultimately show ?thesis using part k(1) l by (intro exI [of _ ?os]) (simp add: select_launch_def CUDACHECK_ok [OF cuda] Let_def)
qed

text \<open>The memory a block uses: its keys and indices, and the counters of its warps, fit into what the launch asks for.\<close>

lemma select_memory_fits:
  assumes "select_initialize cuda dev sizeof_key num_splits = Returns l" "0 < num_splits"
    and "4 * 1024 + 32 * num_splits \<le> MaxSharedMemoryPerMultiprocessor dev" "MaxSharedMemoryPerMultiprocessor dev < 2 ^ 31"
  shows "int (sl_key_warps_per_block l * (num_splits * sl_items_per_gpu_per_warp l * (sizeof_key + 4) + 4 * num_splits)) \<le> sl_max_shared_memory l"
proof -
  let ?m = "MaxSharedMemoryPerMultiprocessor dev - 4 * 1024"
  let ?d = "num_splits * 8 * (sizeof_key + 4)"
  let ?items = "(?m - 32 * num_splits) div ?d div 16 * 16"
  have "(int (MaxSharedMemoryPerMultiprocessor dev) - 4 * 1024 - int (4 * 8 * num_splits)) mod 2 ^ 64 = int (?m - 32 * num_splits)"
    using assms(3,4) by (subst mod_pos_pos_trivial) auto
  note e = this
  have l: "sl_items_per_gpu_per_warp l = ?items" "sl_key_warps_per_block l = 8" "sl_max_shared_memory l = int ?m"
    using assms(1,3) unfolding select_initialize_def Let_def CUDACHECK_def e nat_int by (auto split: if_split_asm)
  have "?items \<le> (?m - 32 * num_splits) div ?d" by (rule div_times_less_eq_dividend)
  then have "?items * ?d \<le> (?m - 32 * num_splits) div ?d * ?d" by (rule mult_le_mono1)
  also have "\<dots> \<le> ?m - 32 * num_splits" by (rule div_times_less_eq_dividend)
  finally have "?items * ?d + 32 * num_splits \<le> ?m" using assms(3) by simp
  moreover have "8 * (num_splits * ?items * (sizeof_key + 4) + 4 * num_splits) = ?items * ?d + 32 * num_splits" by (simp add: algebra_simps)
  ultimately show ?thesis unfolding l by (simp only: of_nat_le_iff)
qed

section \<open>Keys by owner\<close>

definition launcher_for :: "dtype \<Rightarrow> nat \<Rightarrow> select_statics \<Rightarrow> device_attributes \<Rightarrow> SelectLauncher \<Rightarrow> bool" where
  "launcher_for ty n st dev l \<longleftrightarrow> (\<exists>st'. get_launcher (\<lambda>_. True) dev ty n st = Returns (l, st'))"

lemma dist_select_ok:
  assumes shape: "t_shape indices = [length (t_data indices)]" "t_dtype indices \<in> {kInt32, kInt64}" "length (t_data indices) < 2 ^ 31"
    and n: "0 < n" "n \<le> 32" and cuda: "\<forall>c. cuda c"
    and l: "launcher_for (t_dtype indices) n st dev l" "32 < sl_items_per_gpu_per_warp l" "0 < sl_sm_count l"
      "0 < sl_key_warps_per_block l" "n \<le> sl_host_splits l"
  shows "\<exists>os st'. partition_of (t_data indices) n os \<and> dist_select cuda dev run indices (int n) st =
     Returns ((vector_tensor (t_dtype indices) (map (\<lambda>i. t_data indices ! i) (concat os)), vector_tensor kInt32 (map word_of_nat (concat os)),
               vector_tensor kInt32 (map (\<lambda>is. word_of_nat (length is)) os)), st')"
proof -
  have c: "cuda = (\<lambda>_. True)" using cuda by auto
  obtain st' where g: "get_launcher cuda dev (t_dtype indices) n st = Returns (l, st')" using l(1) unfolding launcher_for_def c by blast
  obtain os where "partition_of (t_data indices) n os" "select_launch cuda run l (t_data indices) n =
     Returns (map (\<lambda>i. t_data indices ! i) (concat os), map word_of_nat (concat os), map (\<lambda>is. word_of_nat (length is)) os)"
    using select_launch_ok [of n l "t_data indices" cuda run] shape(3) n l cuda by (auto simp: warpSize_def)
  then show ?thesis using shape n g by (auto simp: dist_select_def)
qed

text \<open>
  C7: \<open>dist_select\<close> sorts the keys by owner. For every interleaving of the warps and every order of the lanes, the keys
  of up to \<open>2^31\<close> come out grouped by \<open>key mod num_splits\<close>: the first output lists, owner by owner, the keys at the
  positions that the second output gives, every position once; the third output is the number of keys of every owner. The
  launcher must have room for more than one warp of keys per owner, and there are at most 32 owners.
\<close>

theorem dist_select_partitions:
  assumes "t_shape indices = [length (t_data indices)]" "t_dtype indices \<in> {kInt32, kInt64}" "length (t_data indices) < 2 ^ 31"
    and "0 < n" "n \<le> 32" "\<forall>c. cuda c"
    and "launcher_for (t_dtype indices) n st dev l" "32 < sl_items_per_gpu_per_warp l" "0 < sl_sm_count l"
      "0 < sl_key_warps_per_block l" "n \<le> sl_host_splits l"
  shows "\<exists>os st'. dist_select cuda dev run indices (int n) st =
       Returns ((vector_tensor (t_dtype indices) (map (\<lambda>i. t_data indices ! i) (concat os)), vector_tensor kInt32 (map word_of_nat (concat os)),
                 vector_tensor kInt32 (map (\<lambda>is. word_of_nat (length is)) os)), st') \<and>
     length os = n \<and> mset (concat os) = mset [0..<length (t_data indices)] \<and>
     (\<forall>g < n. \<forall>i \<in> set (os ! g). unat (t_data indices ! i) mod n = g)"
proof -
  obtain os st' where os: "partition_of (t_data indices) n os" "dist_select cuda dev run indices (int n) st =
       Returns ((vector_tensor (t_dtype indices) (map (\<lambda>i. t_data indices ! i) (concat os)), vector_tensor kInt32 (map word_of_nat (concat os)),
                 vector_tensor kInt32 (map (\<lambda>is. word_of_nat (length is)) os)), st')"
    using dist_select_ok [OF assms] by blast
  show ?thesis using os partition_of_mset [OF os(1) assms(4)] by blast
qed

definition example_device :: "nat \<Rightarrow> device_attributes" where
  "example_device shared = \<lparr>MultiProcessorCount = 2, MaxSharedMemoryPerMultiprocessor = shared\<rparr>"

definition example_run :: select_run where
  "example_run = \<lparr>sr_warps = [3, 1], sr_lanes = (\<lambda>_. [2, 0]), sr_counters = (\<lambda>_. 7), sr_keys = (\<lambda>_. 0), sr_indices = (\<lambda>_. 0)\<rparr>"

definition no_launchers :: select_statics where "no_launchers = \<lparr>launcher64 = None, launcher32 = None\<rparr>"

definition example_SelectLauncher :: SelectLauncher where
  "example_SelectLauncher =
     \<lparr>sl_sm_count = 2, sl_max_shared_memory = 98304, sl_key_warps_per_block = 8, sl_items_per_gpu_per_warp = 496, sl_host_splits = 2\<rparr>"

lemma example_launcher: "launcher_for (t_dtype (vector_tensor kInt64 xs)) 2 no_launchers (example_device 102400) example_SelectLauncher"
  by (simp add: launcher_for_def get_launcher_def no_launchers_def example_device_def select_initialize_def CUDACHECK_def Let_def
      vector_tensor_def example_SelectLauncher_def)

lemma example_launcher_fields [simp]:
  "sl_sm_count example_SelectLauncher = 2" "sl_key_warps_per_block example_SelectLauncher = 8"
  "sl_items_per_gpu_per_warp example_SelectLauncher = 496" "sl_host_splits example_SelectLauncher = 2"
  by (simp_all add: example_SelectLauncher_def)

theorem dist_select_partitions_witness:
  "\<exists>os st'. dist_select (\<lambda>_. True) (example_device 102400) example_run (vector_tensor kInt64 [5, 8, 3]) (int 2) no_launchers =
       Returns ((vector_tensor kInt64 (map (\<lambda>i. [5, 8, 3] ! i) (concat os)), vector_tensor kInt32 (map word_of_nat (concat os)),
                 vector_tensor kInt32 (map (\<lambda>is. word_of_nat (length is)) os)), st') \<and>
     length os = 2 \<and> mset (concat os) = mset [0..<3] \<and> (\<forall>g < 2. \<forall>i \<in> set (os ! g). unat ([5, 8, 3 :: u64] ! i) mod 2 = g)"
  using dist_select_partitions [where cuda = "\<lambda>_. True" and run = example_run and n = 2
      and indices = "vector_tensor kInt64 [5, 8, 3]", OF _ _ _ _ _ _ example_launcher]
  by (simp add: vector_tensor_def numeral_3_eq_3 del: upt_Suc)

text \<open>
  On a device with 96 KB of shared memory per multiprocessor and 24 owners a region has 32 slots, so that the first slot of a
  region counts as the one that fills it, also in lanes without a key. A single key of owner 0 is then flushed once for
  every lane of its warp.
\<close>

lemma select_small_regions:
  "select_initialize (\<lambda>_. True) (example_device 98304) 8 24 =
     Returns \<lparr>sl_sm_count = 2, sl_max_shared_memory = 94208, sl_key_warps_per_block = 8, sl_items_per_gpu_per_warp = warpSize, sl_host_splits = 24\<rparr>"
  by (simp add: select_initialize_def example_device_def CUDACHECK_def Let_def warpSize_def)

lemma insert_single:
  assumes "distinct lanes" "cnt_smem s ! 0 = 0" "unat k mod chunks = 0" "key_smem s \<noteq> []"
  shows "insert_lanes [k] chunks items 0 lanes s locals =
     Returns (if 0 \<in> set lanes
              then (s\<lparr>cnt_smem := (cnt_smem s)[0 := 1], key_smem := (key_smem s)[0 := k], idx_smem := (idx_smem s)[0 := 0]\<rparr>, locals[0 := (0, 0)])
              else (s, locals))"
proof -
  have none: "insert_lanes [k] chunks items 0 lanes s locals = Returns (s, locals)" if "0 \<notin> set lanes" for lanes s locals
    using that by (induction lanes) (auto simp: Let_def)
  show ?thesis using assms by (induction lanes) (auto simp: Let_def none)
qed

lemma select_small_regions_flush:
  assumes "unat k mod chunks = 0" "smem_shape chunks warpSize s" "0 < chunks" "cnt_smem s ! 0 = 0"
  shows "\<exists>s'. warp_iteration [k] chunks warpSize order 0 s = Returns (replicate warpSize (0, [(k, 0)]), s')"
proof -
  let ?s = "s\<lparr>cnt_smem := (cnt_smem s)[0 := 1], key_smem := (key_smem s)[0 := k], idx_smem := (idx_smem s)[0 := 0]\<rparr>"
  have shape: "key_smem s \<noteq> []" "idx_smem s \<noteq> []" "cnt_smem s \<noteq> []" using assms(2,3) by (auto simp: smem_shape_def warpSize_def)
  have items: "smem_items warpSize 0 ?s = [(k, 0)]" using shape by (simp add: smem_items_def)
  have locals: "(replicate warpSize (0, 0))[0 := (0, 0)] = (replicate warpSize (0, 0) :: (nat \<times> nat) list)"
    by (rule nth_equalityI) (auto simp: nth_list_update)
  have full: "map (\<lambda>l. fst (replicate warpSize (0, 0) ! l)) (full_lanes warpSize (replicate warpSize (0, 0))) = replicate warpSize (0 :: nat)"
    by (rule nth_equalityI) (auto simp: full_lanes_def rev_nth)
  have "insert_lanes [k] chunks warpSize 0 (thread_order order warpSize) s (replicate warpSize (0, 0)) = Returns (?s, replicate warpSize (0, 0))"
    using insert_single [OF thread_order_ok(1) assms(4,1) shape(1)] locals by (simp add: thread_order_ok(2) warpSize_def)
  moreover have "list_all (smem_inside warpSize ?s) (replicate warpSize 0)"
    using shape by (auto simp: list_all_iff smem_inside_def Suc_le_eq)
  ultimately show ?thesis using items unfolding warp_iteration_def by (simp add: full Let_def del: map_map)
qed

end
