(* ===== verification/SOK_Reorder.thy ===== *)
theory SOK_Reorder
  imports SOK_Select MLKV_Coding
begin

text \<open>
  The way back of a distributed lookup: \<open>reorder\<close> of \<^verbatim>\<open>lookup/binding/reorder.cu\<close> with the kernels and
  launchers of \<^verbatim>\<open>lookup/impl/reorder_kernel.cu\<close> (sparse operation kit). \<open>reorderKernel\<close> writes row \<open>k\<close> of the
  input to the row that the order names at \<open>k\<close>, \<open>gatherExKernel\<close> reads it from there. Elements of vectors are their
  bytes.
\<close>

section \<open>Kernels\<close>

definition order_row :: "u32 list \<Rightarrow> nat \<Rightarrow> nat" where
  "order_row indices k = unat (scast (indices ! k) :: u64)"

definition reorder_thread :: "nat \<Rightarrow> 'a list \<Rightarrow> u32 list \<Rightarrow> nat \<Rightarrow> nat \<Rightarrow> nat \<Rightarrow> 'a store list" where
  "reorder_thread EmbeddingDimension inputs indices num_keys thread_cnt thread_idx =
     map (\<lambda>i. (order_row indices (i div EmbeddingDimension) * EmbeddingDimension + i mod EmbeddingDimension, [inputs ! i]))
       (strided thread_idx thread_cnt (num_keys * EmbeddingDimension))"

definition gather_thread :: "nat \<Rightarrow> 'a list \<Rightarrow> u32 list \<Rightarrow> nat \<Rightarrow> nat \<Rightarrow> nat \<Rightarrow> 'a store list" where
  "gather_thread EmbeddingDimension inputs indices num_keys thread_cnt thread_idx =
     map (\<lambda>i. (i, [inputs ! (order_row indices (i div EmbeddingDimension) * EmbeddingDimension + i mod EmbeddingDimension)]))
       (strided thread_idx thread_cnt (num_keys * EmbeddingDimension))"

definition reorderKernel ::
  "nat list \<Rightarrow> nat \<Rightarrow> nat \<Rightarrow> nat \<Rightarrow> 'a list \<Rightarrow> u32 list \<Rightarrow> 'a list \<Rightarrow> nat \<Rightarrow> 'a list outcome" where
  "reorderKernel sched blocks block_dim EmbeddingDimension inputs indices outputs num_keys =
     (let thread_cnt = block_dim * blocks; body = reorder_thread EmbeddingDimension inputs indices num_keys thread_cnt
      in if length inputs < num_keys * EmbeddingDimension \<or> length indices < num_keys then Undefined ''read beyond inputs or indices''
         else if \<not> list_all (\<lambda>t. list_all (in_bounds (length outputs)) (body t)) [0..<thread_cnt] then Undefined ''write beyond outputs''
         else Returns (launch sched body thread_cnt outputs))"

definition gatherExKernel ::
  "nat list \<Rightarrow> nat \<Rightarrow> nat \<Rightarrow> nat \<Rightarrow> 'a list \<Rightarrow> u32 list \<Rightarrow> 'a list \<Rightarrow> nat \<Rightarrow> 'a list outcome" where
  "gatherExKernel sched blocks block_dim EmbeddingDimension inputs indices outputs num_keys =
     (let thread_cnt = block_dim * blocks; body = gather_thread EmbeddingDimension inputs indices num_keys thread_cnt
      in if length indices < num_keys \<or>
            \<not> list_all (\<lambda>i. order_row indices (i div EmbeddingDimension) * EmbeddingDimension + i mod EmbeddingDimension < length inputs)
                [0..<num_keys * EmbeddingDimension]
         then Undefined ''read beyond inputs or indices''
         else if length outputs < num_keys * EmbeddingDimension then Undefined ''write beyond outputs''
         else Returns (launch sched body thread_cnt outputs))"

section \<open>Launchers\<close>

text \<open>A launcher holds the number of multiprocessors. A grid of no blocks is a launch error.\<close>

definition ReorderLauncher_initialize :: "(string \<Rightarrow> bool) \<Rightarrow> device_attributes \<Rightarrow> nat outcome" where
  "ReorderLauncher_initialize cuda dev =
     CUDACHECK cuda ''cudaGetDevice'' (CUDACHECK cuda ''cudaDeviceGetAttribute'' (Returns (MultiProcessorCount dev)))"

definition ReorderLauncher_launch ::
  "(string \<Rightarrow> bool) \<Rightarrow> nat list \<Rightarrow> nat \<Rightarrow> 'a list \<Rightarrow> nat \<Rightarrow> nat \<Rightarrow> u32 list \<Rightarrow> 'a list \<Rightarrow> 'a list outcome" where
  "ReorderLauncher_launch cuda sched sm_count t_embedding num_keys dimension t_order t_output =
     (if sm_count = 0 then Exits ''cudaGetLastError''
      else bind_outcome (reorderKernel sched (2 * sm_count) 1024 dimension t_embedding t_order t_output num_keys)
             (\<lambda>out. CUDACHECK cuda ''cudaGetLastError'' (Returns out)))"

definition GatherExLauncher_initialize :: "(string \<Rightarrow> bool) \<Rightarrow> device_attributes \<Rightarrow> nat outcome" where
  "GatherExLauncher_initialize cuda dev =
     CUDACHECK cuda ''cudaGetDevice'' (CUDACHECK cuda ''cudaDeviceGetAttribute'' (Returns (MultiProcessorCount dev)))"

definition GatherExLauncher_launch ::
  "(string \<Rightarrow> bool) \<Rightarrow> nat list \<Rightarrow> nat \<Rightarrow> 'a list \<Rightarrow> nat \<Rightarrow> nat \<Rightarrow> u32 list \<Rightarrow> 'a list \<Rightarrow> 'a list outcome" where
  "GatherExLauncher_launch cuda sched sm_count t_grads num_keys dimension t_indices t_output =
     (if sm_count = 0 then Exits ''cudaGetLastError''
      else bind_outcome (gatherExKernel sched (2 * sm_count) 1024 dimension t_grads t_indices t_output num_keys)
             (\<lambda>out. CUDACHECK cuda ''cudaGetLastError'' (Returns out)))"

section \<open>The operator\<close>

definition reorder ::
  "(string \<Rightarrow> bool) \<Rightarrow> device_attributes \<Rightarrow> nat list \<Rightarrow> bytes tensor \<Rightarrow> u32 tensor \<Rightarrow> bytes tensor outcome" where
  "reorder cuda dev sched embedding order =
     (if \<not> on_cuda embedding then Throws ''embedding must be a CUDA tensor''
      else if \<not> on_cuda order then Throws ''order must be a CUDA tensor''
      else if length (t_shape embedding) \<noteq> 2 then Throws ''embedding must be a 2D tensor''
      else if length (t_shape order) \<noteq> 1 then Throws ''order must be a 1D tensor''
      else if t_shape embedding ! 0 \<noteq> t_shape order ! 0 then Throws ''embedding and order must have the same size in dimension 0''
      else if t_dtype order \<noteq> kInt32 then Throws ''order must be an int32 tensor''
      else if t_dtype embedding \<noteq> kFloat32 then Throws ''embedding must be float32''
      else
        bind_outcome (ReorderLauncher_initialize cuda dev)
          (\<lambda>sm_count. bind_outcome
             (ReorderLauncher_launch cuda sched sm_count (t_data embedding) (t_shape embedding ! 0) (t_shape embedding ! 1) (t_data order)
                (replicate (length (t_data embedding)) (replicate 4 0)))
             (\<lambda>out. Returns (embedding\<lparr>t_data := out\<rparr>))))"

section \<open>Rows in their order\<close>

lemma order_row_of_nat: "k < length os \<Longrightarrow> os ! k < 2 ^ 31 \<Longrightarrow> order_row (map word_of_nat os) k = os ! k"
proof -
  assume k: "k < length os" "os ! k < 2 ^ 31"
  have "sint (word_of_nat (os ! k) :: u32) = int (os ! k)"
    using k(2) by (simp add: sint_uint unsigned_of_nat signed_take_bit_int_eq_self take_bit_nat_eq_self)
  then have "(scast (word_of_nat (os ! k) :: u32) :: u64) = word_of_nat (os ! k)"
    by (metis of_int_of_nat_eq of_int_sint scast_eq)
  then show ?thesis using k by (simp add: order_row_def unat_of_nat)
qed

lemma position_unique:
  fixes D :: nat
  assumes "a * D + c = b * D + d" "c < D" "d < D"
  shows "a = b \<and> c = d"
proof -
  have "(a * D + c) div D = a" "(a * D + c) mod D = c" "(b * D + d) div D = b" "(b * D + d) mod D = d" using assms(2,3) by simp_all
  then show ?thesis using assms(1) by metis
qed

lemma reorderKernel_ok:
  assumes perm: "distinct os" "set os = {..<n}" and n: "n < 2 ^ 31" and threads: "0 < block_dim * blocks"
    and len: "length emb = n * D" "length out = n * D"
  shows "\<exists>out'. reorderKernel sched blocks block_dim D emb (map word_of_nat os) out n = Returns out' \<and> length out' = n * D \<and>
     (\<forall>k < n. \<forall>c < D. out' ! (os ! k * D + c) = emb ! (k * D + c))"
proof -
  let ?cnt = "block_dim * blocks"
  let ?body = "reorder_thread D emb (map word_of_nat os) n ?cnt"
  have los: "length os = n" using perm distinct_card by fastforce
  have row: "order_row (map word_of_nat os) k = os ! k" "os ! k < n" if "k < n" for k
  proof -
    show "os ! k < n" using perm(2) los that nth_mem by blast
    then show "order_row (map word_of_nat os) k = os ! k" using order_row_of_nat [of k os] los that n by simp
  qed
  have store: "\<exists>i < n * D. w = (os ! (i div D) * D + i mod D, [emb ! i]) \<and> i div D < n \<and> i mod D < D" if w: "w \<in> set (?body t)" for w t
  proof -
    obtain i where i: "i \<in> set (strided t ?cnt (n * D))" "w = (order_row (map word_of_nat os) (i div D) * D + i mod D, [emb ! i])"
      using w by (auto simp: reorder_thread_def)
    have "i < n * D" using strided_below [OF i(1) threads] .
    moreover from this have "i div D < n" "i mod D < D" by (cases D; simp add: less_mult_imp_div_less)+
    ultimately show ?thesis using i(2) row by auto
  qed
  have inb: "in_bounds (length out) w" if w: "w \<in> set (?body t)" for w t
  proof -
    obtain i where i: "w = (os ! (i div D) * D + i mod D, [emb ! i])" "i div D < n" "i mod D < D" using store [OF w] by blast
    have "os ! (i div D) * D + i mod D < n * D" using row(2) [OF i(2)] i(3) by (rule region_inside)
    then show ?thesis using i(1) len by (simp add: in_bounds_def)
  qed
  have "launch sched ?body ?cnt out ! (os ! k * D + c) = emb ! (k * D + c)" if kc: "k < n" "c < D" for k c
  proof -
    let ?i = "k * D + c"
    have i: "?i < n * D" using kc by (rule region_inside)
    have dm: "?i div D = k" "?i mod D = c" using kc(2) by simp_all
    obtain t where t: "t < ?cnt" "?i \<in> set (strided t ?cnt (n * D))" using strided_cover [OF threads i] by blast
    show ?thesis
    proof (rule launch_value [OF _ _ t(1)])
      show "list_all (in_bounds (length out)) (?body t)" for t using inb by (auto simp: list_all_iff)
      show "os ! k * D + c < length out" using region_inside [OF row(2) [OF kc(1)] kc(2)] len by simp
      show "(os ! k * D + c, [emb ! ?i]) \<in> set (?body t)"
        unfolding reorder_thread_def set_map using t(2) dm row(1) [OF kc(1)] by (intro image_eqI [of _ _ ?i]) simp_all
      show "touches (os ! k * D + c) (os ! k * D + c, [emb ! ?i])" by (simp add: touches_def)
      show "w = (os ! k * D + c, [emb ! ?i])" if w: "w \<in> set (?body t)" "touches (os ! k * D + c) w" for t w
      proof -
        obtain j where j: "j < n * D" "w = (os ! (j div D) * D + j mod D, [emb ! j])" "j div D < n" "j mod D < D"
          using store [OF w(1)] by blast
        then have "os ! (j div D) * D + j mod D = os ! k * D + c" using w(2) by (simp add: touches_def)
        from position_unique [OF this j(4) kc(2)] have "os ! (j div D) = os ! k" "j mod D = c" by simp_all
        then have "j div D = k" using perm(1) los j(3) kc(1) by (simp add: nth_eq_iff_index_eq)
        then have "j = ?i" using \<open>j mod D = c\<close> by (metis div_mult_mod_eq)
        then show ?thesis using j(2) \<open>os ! (j div D) * D + j mod D = os ! k * D + c\<close> by simp
      qed
    qed
  qed
  moreover have "length (launch sched ?body ?cnt out) = n * D" using inb len by simp
  ultimately show ?thesis using inb los len by (auto simp: reorderKernel_def Let_def list_all_iff)
qed

text \<open>Gathering the rows of the reordered input gives the input back.\<close>

lemma gather_inverts_reorder:
  assumes "distinct os" "set os = {..<n}" "n < 2 ^ 31" "0 < block_dim * blocks" "length emb = n * D" "length out = n * D" "length back = n * D"
    and out': "reorderKernel sched blocks block_dim D emb (map word_of_nat os) out n = Returns out'"
  shows "gatherExKernel sched' blocks block_dim D out' (map word_of_nat os) back n = Returns emb"
proof -
  let ?cnt = "block_dim * blocks"
  let ?body = "gather_thread D out' (map word_of_nat os) n ?cnt"
  have r: "length out' = n * D" "\<forall>k < n. \<forall>c < D. out' ! (os ! k * D + c) = emb ! (k * D + c)"
    using reorderKernel_ok [OF assms(1-6), of sched] out' by auto
  have los: "length os = n" using assms(1,2) distinct_card by fastforce
  have pos: "order_row (map word_of_nat os) (i div D) = os ! (i div D)" "os ! (i div D) < n" "i div D < n" "i mod D < D" if "i < n * D" for i
  proof -
    show i: "i div D < n" "i mod D < D" using that by (cases D; simp add: less_mult_imp_div_less)+
    show "os ! (i div D) < n" using assms(2) los i(1) nth_mem by blast
    then show "order_row (map word_of_nat os) (i div D) = os ! (i div D)"
      using order_row_of_nat [of "i div D" os] los i(1) assms(3) by simp
  qed
  have val: "out' ! (order_row (map word_of_nat os) (i div D) * D + i mod D) = emb ! i" if "i < n * D" for i
    using r(2) pos [OF that] by simp
  have store: "\<exists>i < n * D. w = (i, [emb ! i])" if w: "w \<in> set (?body t)" for w t
    using w strided_below [OF _ assms(4)] val by (auto simp: gather_thread_def)
  have "launch sched' ?body ?cnt back = emb"
  proof (rule nth_equalityI)
    have inb: "in_bounds (length back) w" if "w \<in> set (?body t)" for w t
      using store [OF that] assms(7) by (auto simp: in_bounds_def)
    then show "length (launch sched' ?body ?cnt back) = length emb" using assms(5,7) by simp
    fix i assume "i < length (launch sched' ?body ?cnt back)"
    then have i: "i < n * D" using inb assms(7) by simp
    obtain t where t: "t < ?cnt" "i \<in> set (strided t ?cnt (n * D))" using strided_cover [OF assms(4) i] by blast
    show "launch sched' ?body ?cnt back ! i = emb ! i"
    proof (rule launch_value [OF _ _ t(1)])
      show "list_all (in_bounds (length back)) (?body t)" for t using inb by (auto simp: list_all_iff)
      show "i < length back" using i assms(7) by simp
      show "(i, [emb ! i]) \<in> set (?body t)" unfolding gather_thread_def set_map using t(2) val [OF i] by (intro image_eqI [of _ _ i]) simp_all
      show "touches i (i, [emb ! i])" by (simp add: touches_def)
      show "w = (i, [emb ! i])" if "w \<in> set (?body t)" "touches i w" for t w using store [OF that(1)] that(2) by (auto simp: touches_def less_Suc_eq)
    qed
  qed
  moreover have "order_row (map word_of_nat os) (i div D) * D + i mod D < length out'" if "i < n * D" for i
    using region_inside [OF pos(2) [OF that] pos(4) [OF that]] pos(1) [OF that] r(1) by simp
  ultimately show ?thesis using los assms(7) by (simp add: gatherExKernel_def Let_def list_all_iff)
qed

text \<open>Rows listed in the order \<open>os\<close> come out in their natural order.\<close>

lemma nth_concat_rows:
  assumes "\<And>x. x \<in> set xs \<Longrightarrow> length (V x) = D" "k < length xs" "c < D"
  shows "concat (map V xs) ! (k * D + c) = V (xs ! k) ! c"
  using assms
proof (induction xs arbitrary: k)
  case (Cons x xs)
  show ?case
  proof (cases k)
    case 0
    then show ?thesis using Cons.prems by (simp add: nth_append)
  next
    case (Suc j)
    have "concat (map V (x # xs)) ! (k * D + c) = concat (map V xs) ! (j * D + c)"
      using Cons.prems(1) [of x] Suc by (simp add: nth_append)
    then show ?thesis using Cons.IH [of j] Cons.prems Suc by simp
  qed
qed simp

lemma length_concat_rows: "(\<And>x. x \<in> set xs \<Longrightarrow> length (V x) = D) \<Longrightarrow> length (concat (map V xs)) = length xs * D"
  by (induction xs) auto

definition matrix_tensor :: "nat \<Rightarrow> bytes list list \<Rightarrow> bytes tensor" where
  "matrix_tensor dim rows = \<lparr>on_cuda = True, t_dtype = kFloat32, t_shape = [length rows, dim], t_data = concat rows\<rparr>"

lemma reorder_ok:
  assumes perm: "distinct os" "set os = {..<n}" and n: "n < 2 ^ 31" and V: "\<And>i. i < n \<Longrightarrow> length (V i) = D"
    and cuda: "\<forall>c. cuda c" and dev: "0 < MultiProcessorCount dev"
  shows "reorder cuda dev sched (matrix_tensor D (map V os)) (vector_tensor kInt32 (map word_of_nat os)) =
    Returns (matrix_tensor D (map V [0..<n]))"
proof -
  let ?emb = "concat (map V os)"
  let ?zero = "replicate (n * D) (replicate 4 (0 :: byte))"
  have los: "length os = n" using perm distinct_card by fastforce
  have lr: "length (V x) = D" if "x \<in> set os" for x using that perm(2) V by auto
  have len: "length ?emb = n * D" using length_concat_rows [of os V D] lr los by blast
  obtain out where out: "reorderKernel sched (2 * MultiProcessorCount dev) 1024 D ?emb (map word_of_nat os) ?zero n = Returns out"
    "length out = n * D" "\<forall>k < n. \<forall>c < D. out ! (os ! k * D + c) = ?emb ! (k * D + c)"
    using reorderKernel_ok [OF perm n _ len, of 1024 "2 * MultiProcessorCount dev" ?zero sched] dev by auto
  have "out = concat (map V [0..<n])"
  proof (rule nth_equalityI)
    show lo: "length out = length (concat (map V [0..<n]))" using out(2) length_concat_rows [of "[0..<n]" V D] V by simp
    fix p assume "p < length out"
    then have p: "p div D < n" "p mod D < D" using out(2) by (cases D; simp add: less_mult_imp_div_less)+
    obtain k where k: "k < n" "os ! k = p div D" using perm(2) p(1) los by (metis in_set_conv_nth lessThan_iff)
    have "out ! (p div D * D + p mod D) = ?emb ! (k * D + p mod D)" using out(3) k p(2) by metis
    also have "\<dots> = V (p div D) ! (p mod D)" using nth_concat_rows [of os V D k "p mod D"] lr los k p(2) by simp
    also have "\<dots> = concat (map V [0..<n]) ! (p div D * D + p mod D)" using nth_concat_rows [of "[0..<n]" V D "p div D" "p mod D"] V p by simp
    finally show "out ! p = concat (map V [0..<n]) ! p" by simp
  qed
  moreover have "reorder cuda dev sched (matrix_tensor D (map V os)) (vector_tensor kInt32 (map word_of_nat os)) =
      Returns ((matrix_tensor D (map V os))\<lparr>t_data := out\<rparr>)"
    using out(1) los len dev
    by (simp add: reorder_def matrix_tensor_def vector_tensor_def ReorderLauncher_initialize_def ReorderLauncher_launch_def CUDACHECK_ok [OF cuda])
  ultimately show ?thesis using los by (simp add: matrix_tensor_def)
qed

section \<open>Selecting and reordering\<close>

text \<open>
  C8: Selecting keys by owner and reordering the answers cancel out. For every interleaving of both kernels, when the
  vectors of the keys that \<open>dist_select\<close> returns are given in the order of these keys, \<open>reorder\<close> with the returned order
  lists the vectors in the order of the keys that were asked for.
\<close>

theorem reorder_restores_order:
  assumes "t_shape indices = [length (t_data indices)]" "t_dtype indices \<in> {kInt32, kInt64}" "length (t_data indices) < 2 ^ 31"
    and "0 < n" "n \<le> 32" "\<forall>c. cuda c"
    and "launcher_for (t_dtype indices) n st dev l" "32 < sl_items_per_gpu_per_warp l" "0 < sl_sm_count l"
      "0 < sl_key_warps_per_block l" "n \<le> sl_host_splits l"
    and "0 < MultiProcessorCount dev" "\<And>k. length (V k) = D"
  shows "\<exists>output order splits st'. dist_select cuda dev run indices (int n) st = Returns ((output, order, splits), st') \<and>
     reorder cuda dev sched (matrix_tensor D (map V (t_data output))) order = Returns (matrix_tensor D (map V (t_data indices)))"
proof -
  let ?keys = "t_data indices"
  obtain os st' where os: "partition_of ?keys n os" "dist_select cuda dev run indices (int n) st =
       Returns ((vector_tensor (t_dtype indices) (map (\<lambda>i. ?keys ! i) (concat os)), vector_tensor kInt32 (map word_of_nat (concat os)),
                 vector_tensor kInt32 (map (\<lambda>is. word_of_nat (length is)) os)), st')"
    using dist_select_ok [OF assms(1-11)] by blast
  have m: "mset (concat os) = mset [0..<length ?keys]" using partition_of_mset [OF os(1) assms(4)] by simp
  have perm: "distinct (concat os)" "set (concat os) = {..<length ?keys}"
    using mset_eq_imp_distinct_iff [OF m] mset_eq_setD [OF m] by auto
  have "map (\<lambda>i. V (?keys ! i)) [0..<length ?keys] = map V ?keys" by (rule nth_equalityI) simp_all
  then have "reorder cuda dev sched (matrix_tensor D (map V (map (\<lambda>i. ?keys ! i) (concat os)))) (vector_tensor kInt32 (map word_of_nat (concat os))) =
      Returns (matrix_tensor D (map V ?keys))"
    using reorder_ok [OF perm assms(3), of "\<lambda>i. V (?keys ! i)" D cuda dev sched] assms(6,12,13) by (simp add: comp_def)
  then show ?thesis using os(2) by (intro exI conjI) (assumption, simp add: vector_tensor_def)
qed

theorem reorder_restores_order_witness:
  "\<exists>output order splits st'. dist_select (\<lambda>_. True) (example_device 102400) example_run (vector_tensor kInt64 [5, 8, 3]) (int 2) no_launchers =
       Returns ((output, order, splits), st') \<and>
     reorder (\<lambda>_. True) (example_device 102400) [4, 1] (matrix_tensor 1 (map (\<lambda>k. [PutFixed32 (ucast k)]) (t_data output))) order =
       Returns (matrix_tensor 1 [[PutFixed32 5], [PutFixed32 8], [PutFixed32 3]])"
  using reorder_restores_order [where cuda = "\<lambda>_. True" and run = example_run and sched = "[4, 1]"
      and V = "\<lambda>k. [PutFixed32 (ucast k)]" and D = 1 and n = 2 and indices = "vector_tensor kInt64 [5, 8, 3]", OF _ _ _ _ _ _ example_launcher]
  by (simp add: vector_tensor_def example_device_def)

end
