(* ===== verification/Spec2Isabelle.thy ===== *)
theory Spec2Isabelle
  imports WAL_Log_Writer MLKV_Store SOK_Reorder
begin

text \<open>
  A verification development for MLKV, a key-value store for embedding vectors that keeps hot entries in a
  GPU hash table and the rest in RocksDB, and that writes RocksDB's write-ahead log and reads its tables
  from the GPU through GPUDirect storage. Paths below are relative to \<^verbatim>\<open>src/libmlkvplus/\<close> unless
  they start with \<^verbatim>\<open>src/\<close> or name the sparse operation kit, which is
  \<^verbatim>\<open>src/third_party/HugeCTR/sparse_operation_kit/kit_src/\<close>.

  \<^bold>\<open>How the parts interact.\<close> The store (class \<open>DB\<close>, \<^verbatim>\<open>src/mlkv_plus.cc.cu\<close>) writes to a GPU tier, passes what
  this tier evicts to a memory and disk tier over RocksDB, and answers lookups from the first tier that has
  the key. With the log on the GPU, a batch of keys and values in device memory is encoded as one
  RocksDB write batch by a pair of kernels (\<^verbatim>\<open>gds/write_batch_generator.cuh\<close>), framed as log records
  (\<^verbatim>\<open>gds/gwal_writer.cuh\<close>), and appended to the log file through a buffered GPUDirect file
  (\<^verbatim>\<open>gds/gds_file_system.cuh\<close>); after a restart RocksDB's log reader reads the records back. With
  lookups on the GPU, the files of a version are chosen by RocksDB's \<open>FilePicker\<close>, their blocks are read to device
  memory through a block cache, and kernels search the blocks. In a distributed lookup the keys are first grouped by
  the rank that owns them and the vectors put back in order afterwards.

  \<^bold>\<open>Foundations.\<close>
  \<^item> \<open>MLKV_Prelude\<close>: machine types, byte buffers with positioned reads and writes, the \<open>outcome\<close> type for
    the ways a C++ function ends, and list lemmas.
  \<^item> \<open>GPU_Kernel\<close>: kernels as thread bodies that emit writes, launches as interleavings chosen by a
    schedule, orders of atomic increments, loops with a stride, and the lemmas that give the result of a launch for
    every schedule.
  \<^item> \<open>MLKV_Config\<close>: status codes, options, device memory views and their ownership
    (\<^verbatim>\<open>include/utils.cuh\<close>, \<^verbatim>\<open>include/storage_config.h\<close>, \<^verbatim>\<open>gds/format.cuh\<close>).
  \<^item> \<open>MLKV_Coding\<close>: fixed-width and varint encodings and the block entry decoder; the contract \<open>codec\<close>.

  \<^bold>\<open>The log.\<close>
  \<^item> \<open>MLKV_Write_Batch\<close>: the batch generator; its output is the reference format for every schedule and parses back.
  \<^item> \<open>GDS_File_System\<close>: the buffered append file; the contract \<open>append_file\<close> and its refinement.
  \<^item> \<open>WAL_Format\<close>, \<open>GWAL_Writer\<close>, \<open>GWAL_Paths\<close>: record types, the framing function, the GPU log writer with
    its constructor and file naming.
  \<^item> \<open>WAL_Reader\<close>: class \<open>Reader\<close> of \<^verbatim>\<open>rocksdb/db/log_reader.cc\<close> with every record type and recovery mode.
  \<^item> \<open>WAL_Roundtrip\<close>: recovery returns what the GPU writer logged; a header on which the reader does not end.
  \<^item> \<open>WAL_Log_Writer\<close>: class \<open>Writer\<close> of \<^verbatim>\<open>rocksdb/db/log_writer.cc\<close>; both writers frame records alike.

  \<^bold>\<open>Lookups in table files.\<close>
  \<^item> \<open>GPU_Block_Cache\<close>: the cache of file blocks; its invariant, eviction, and the contract \<open>block_cache\<close>.
  \<^item> \<open>GDS_Random_Access\<close>: reads to device and host memory; the contract \<open>random_file\<close>.
  \<^item> \<open>GDS_Block\<close>, \<open>GDS_Block_Seek\<close>: data blocks and the kernels that search them; on well-formed blocks they find the
    first key that is not below the target, and they end on every block. The contract \<open>comparator\<close>.
  \<^item> \<open>GDS_Get_Context\<close>, \<open>GDS_Table_Reader\<close>: internal keys, what an entry means for a lookup, and the lookup in one file.
  \<^item> \<open>SST_File_Picker\<close>, \<open>GDS_DB_Accessor\<close>: the files a lookup visits and the lookup in all of them, related to
    the newest entry of a log-structured store.

  \<^bold>\<open>The store.\<close>
  \<^item> \<open>GPU_Tree\<close>: the GPU tier with its buffer pool and kernels.
  \<^item> \<open>Value_Arrays\<close>, \<open>MemDisk_Tree\<close>: value vectors as RocksDB stores them, and the tier over RocksDB.
  \<^item> \<open>MLKV_DB\<close>, \<open>MLKV_Store\<close>: the two tiers together. From initialisation on, sequences of batch writes, single lookups
    and batch lookups are answered as by a map; the remaining properties say where the store departs from one.

  \<^bold>\<open>Distributed lookups.\<close>
  \<^item> \<open>SOK_Select\<close>: \<open>dist_select\<close> of the sparse operation kit (\<^verbatim>\<open>lookup/binding/select.cu\<close>,
    \<^verbatim>\<open>lookup/impl/select_kernel.cu\<close>). Each warp collects keys in shared memory and flushes them to global buffers;
    the keys come out grouped by owner for every interleaving of warps and order of lanes.
  \<^item> \<open>SOK_Reorder\<close>: \<open>reorder\<close> (\<^verbatim>\<open>lookup/binding/reorder.cu\<close>, \<^verbatim>\<open>lookup/impl/reorder_kernel.cu\<close>), which
    undoes the grouping.

  \<^bold>\<open>Loops and bounds.\<close> Every loop whose end depends on the program's own data is a \<open>function\<close> with a
  termination proof or recursion over a list. The loops that depend on a file, on a block or on a decompressor are
  \<open>partial_function\<close>s in the option type, and that they return is proved where it is claimed. The
  only bound on a run is the number of calls in \<open>read_records\<close>, which exceeds the number of logged records. Sizes and
  offsets of type \<^verbatim>\<open>size_t\<close> are natural numbers; lengths that are narrowed to 32 bits keep the
  wrap-around. Batch lookups are specified for up to 256 keys, one block of the kernel that combines the flags; for
  more keys the kernel races, which is a property of its own. Selection is specified for up to 32 owners and less than
  \<open>2^31\<close> keys: beyond 32 owners the kernel leaves counters uninitialised, and positions are 32-bit signed.

  \<^bold>\<open>Outside the sources.\<close> CUDA, cuFile, Thrust, the kernels of HierarchicalKV, PyTorch and the parts of RocksDB that are
  not in the repository are parameters, with what the code relies on as named hypotheses. A CUDA call is a
  name, and whether it succeeds depends on the name only. Error texts are the constant part of the messages.

  \<^bold>\<open>Not modelled.\<close> Locks and the interleaving of several host threads: every operation of a class runs to its end, and
  interleavings are those of the threads of a kernel. The host side of RocksDB in the repository (its database
  object, group commit, version and manifest handling, host table reader, table factories) rests on classes
  that are not in the repository and is used through the parameters above. \<open>FragmentBufferedReader\<close>, which tails a log
  that is still written. The PyTorch bindings and the Python interface (\<^verbatim>\<open>torch_binding/\<close>,
  \<^verbatim>\<open>src/mlkv_plus/\<close>), and so the collective operations between selection and reordering. The rest of the
  sparse operation kit, tests, examples and build files.
\<close>

end
